(* ===== verification/Prelude.thy ===== *)
theory Prelude
  imports Main "HOL-Library.Word"
begin

text \<open>
  Shared vocabulary of the development: the fixed-width integer types of
  include/llt/types.hpp, two's-complement facts for 64-bit signed arithmetic, the
  little-endian byte images every binary format of the program uses, and the generic list
  and string lemmas the components share.  Signed 64-bit values are words read with
  \<open>sint\<close>; their arithmetic wraps, which is what the compiled code does, and
  \<open>s64_fits\<close> says when no wrap-around (undefined behaviour in C++) takes place.
\<close>

unbundle bit_operations_syntax

named_theorems layout_simps "lengths of byte images and how a field is found in one"
named_theorems enum_simps "numbering of the enumerations"
named_theorems env_simps "tag discipline of envelopes"

section \<open>Fixed-width integers\<close>

type_synonym byte = "8 word"
type_synonym u16 = "16 word"
type_synonym u32 = "32 word"
type_synonym i32 = "32 word"
type_synonym u64 = "64 word"
type_synonym s64 = "64 word"

text \<open>\<open>s64_fits k\<close>: the exact result \<open>k\<close> of a signed 64-bit operation is representable.\<close>

definition s64_fits :: "int \<Rightarrow> bool" where
  "s64_fits k \<longleftrightarrow> - (2 ^ 63) \<le> k \<and> k < 2 ^ 63"

lemma s64_fits_sint [simp, intro]: "s64_fits (sint (a :: s64))"
  using sint_ge [of a] sint_lt [of a] by (simp add: s64_fits_def)

lemma sint_add_fits: "s64_fits (sint a + sint b) \<Longrightarrow> sint (a + b) = sint a + sint (b :: s64)"
  by (simp add: s64_fits_def sint_word_ariths signed_take_bit_int_eq_self)

lemma sint_diff_fits: "s64_fits (sint a - sint b) \<Longrightarrow> sint (a - b) = sint a - sint (b :: s64)"
  by (simp add: s64_fits_def sint_word_ariths signed_take_bit_int_eq_self)

lemma sint_mult_fits: "s64_fits (sint a * sint b) \<Longrightarrow> sint (a * b) = sint a * sint (b :: s64)"
  by (simp add: s64_fits_def sint_word_ariths signed_take_bit_int_eq_self)

lemma sint_minus_fits: "s64_fits (- sint a) \<Longrightarrow> sint (- a) = - sint (a :: s64)"
  by (simp add: s64_fits_def sint_word_ariths signed_take_bit_int_eq_self)

lemma sint_of_int_fits: "s64_fits k \<Longrightarrow> sint (word_of_int k :: s64) = k"
  by (simp add: s64_fits_def sint_sbintrunc' signed_take_bit_int_eq_self)

lemma s64_of_nat: "m < 2 ^ 63 \<Longrightarrow> sint (of_nat m :: s64) = int m"
  using sint_of_int_fits [of "int m"] by (simp add: s64_fits_def)

lemma s64_minus_of_nat: "m < 2 ^ 63 \<Longrightarrow> sint (- of_nat m :: s64) = - int m"
  using sint_of_int_fits [of "- int m"] by (simp add: s64_fits_def)

lemma sint_small: "unat (w :: s64) < 2 ^ 63 \<Longrightarrow> sint w = int (unat w)"
  using s64_of_nat [of "unat w"] by simp

lemma s64_eq_iff: "(a :: s64) = b \<longleftrightarrow> sint a = sint b"
  by (auto intro: signed_word_eqI)

lemma s64_sint_bounds: "- 9223372036854775808 \<le> sint (a :: s64)" "sint (a :: s64) \<le> 9223372036854775807"
  using sint_ge [of a] sint_lt [of a] by simp_all

text \<open>\<open>std::llabs\<close>: on the least value it overflows, and wraps to that value.\<close>

definition llabs :: "s64 \<Rightarrow> s64" where
  "llabs w = (if sint w < 0 then - w else w)"

lemma sint_llabs: "sint w \<noteq> - (2 ^ 63) \<Longrightarrow> sint (llabs w) = \<bar>sint w\<bar>"
  using s64_sint_bounds [of w] by (auto simp: llabs_def sint_minus_fits s64_fits_def)

text \<open>Counters of the program are unsigned 64-bit and start at 0 or 1.\<close>

lemma unat_plus_one_u64: "unat (w :: u64) < 2 ^ 64 - 1 \<Longrightarrow> unat (w + 1) = unat w + 1"
  by (subst unat_word_ariths) simp

lemma unat_of_nat_u64: "n < 2 ^ 64 \<Longrightarrow> unat (of_nat n :: u64) = n"
  by (simp add: unat_of_nat)

section \<open>Little-endian byte images\<close>

text \<open>
  \<open>le_bytes n k\<close> is the image of the natural number \<open>k\<close> in \<open>n\<close> bytes, least
  significant byte first, as the little-endian targets of the program store an integer.
\<close>

primrec le_bytes :: "nat \<Rightarrow> nat \<Rightarrow> byte list" where
  "le_bytes 0 k = []"
| "le_bytes (Suc n) k = word_of_nat k # le_bytes n (k div 256)"

primrec le_value :: "byte list \<Rightarrow> nat" where
  "le_value [] = 0"
| "le_value (b # bs) = unat b + 256 * le_value bs"

lemma length_le_bytes [simp, layout_simps]: "length (le_bytes n k) = n"
  by (induction n arbitrary: k) simp_all

lemma le_value_le_bytes: "le_value (le_bytes n k) = k mod 256 ^ n"
proof (induction n arbitrary: k)
  case 0
  then show ?case by simp
next
  case (Suc n)
  have "le_value (le_bytes (Suc n) k) = k mod 256 + 256 * (k div 256 mod 256 ^ n)"
    by (simp add: Suc unat_of_nat)
  also have "\<dots> = k mod (256 * 256 ^ n)"
    by (simp add: mod_mult2_eq)
  finally show ?case by simp
qed

lemma le_value_bound: "le_value bs < 256 ^ length bs"
proof (induction bs)
  case Nil
  then show ?case by simp
next
  case (Cons b bs)
  have "unat b < 256" using unsigned_less [of b, where ?'a = nat] by simp
  with Cons show ?case by simp
qed

lemma le_bytes_le_value: "le_bytes (length bs) (le_value bs) = bs"
proof (induction bs)
  case Nil
  then show ?case by simp
next
  case (Cons b bs)
  have "unat b < 256" using unsigned_less [of b, where ?'a = nat] by simp
  then have "(unat b + 256 * le_value bs) div 256 = le_value bs"
    by simp
  moreover have "word_of_nat (unat b + 256 * le_value bs) = b"
  proof -
    have "(256 :: byte) = 0" by simp
    then show ?thesis by (simp only: of_nat_add of_nat_mult of_nat_numeral) simp
  qed
  ultimately show ?case using Cons by simp
qed

definition le16 :: "u16 \<Rightarrow> byte list" where "le16 w = le_bytes 2 (unat w)"
definition le32 :: "u32 \<Rightarrow> byte list" where "le32 w = le_bytes 4 (unat w)"
definition le64 :: "u64 \<Rightarrow> byte list" where "le64 w = le_bytes 8 (unat w)"

lemma le_bytes_4: "le_bytes 4 k = [of_nat k, of_nat (k div 256), of_nat (k div 256 div 256),
    of_nat (k div 256 div 256 div 256)]"
proof -
  have "4 = Suc (Suc (Suc (Suc 0)))" by simp
  then show ?thesis by (simp only: le_bytes.simps)
qed

text \<open>Reading a field of a byte image: \<open>field off n bs\<close> are the \<open>n\<close> bytes at offset \<open>off\<close>.\<close>

definition field :: "nat \<Rightarrow> nat \<Rightarrow> byte list \<Rightarrow> byte list" where
  "field off n bs = take n (drop off bs)"

definition rd8 :: "nat \<Rightarrow> byte list \<Rightarrow> byte" where
  "rd8 off bs = word_of_nat (le_value (field off 1 bs))"

definition rd16 :: "nat \<Rightarrow> byte list \<Rightarrow> u16" where
  "rd16 off bs = word_of_nat (le_value (field off 2 bs))"

definition rd32 :: "nat \<Rightarrow> byte list \<Rightarrow> u32" where
  "rd32 off bs = word_of_nat (le_value (field off 4 bs))"

definition rd64 :: "nat \<Rightarrow> byte list \<Rightarrow> u64" where
  "rd64 off bs = word_of_nat (le_value (field off 8 bs))"

lemma length_le [simp, layout_simps]:
  "length (le16 a) = 2" "length (le32 b) = 4" "length (le64 c) = 8"
  by (simp_all add: le16_def le32_def le64_def)

lemma le_value_le16: "le_value (le16 w) = unat w"
  using unsigned_less [of w, where ?'a = nat] by (simp add: le16_def le_value_le_bytes)

lemma le_value_le32: "le_value (le32 w) = unat w"
  using unsigned_less [of w, where ?'a = nat] by (simp add: le32_def le_value_le_bytes)

lemma le_value_le64: "le_value (le64 w) = unat w"
  using unsigned_less [of w, where ?'a = nat] by (simp add: le64_def le_value_le_bytes)

text \<open>
  A read at offset 0 finds the field written there; a read further on skips a field that
  ends before it.  Chained by the simplifier, these find every field of a concatenation.
\<close>

lemma rd_here [simp, layout_simps]:
  "rd8 0 (b # bs) = b"
  "rd16 0 (le16 w2 @ bs) = w2"
  "rd32 0 (le32 w4 @ bs) = w4"
  "rd64 0 (le64 w8 @ bs) = w8"
  by (simp_all add: rd8_def rd16_def rd32_def rd64_def field_def
      le_value_le16 le_value_le32 le_value_le64)

lemma rd_here_last [simp, layout_simps]:
  "rd16 0 (le16 w2) = w2"
  "rd32 0 (le32 w4) = w4"
  "rd64 0 (le64 w8) = w8"
  using rd_here(2) [of w2 "[]"] rd_here(3) [of w4 "[]"] rd_here(4) [of w8 "[]"] by simp_all

lemma field_skip [layout_simps]:
  "length xs \<le> off \<Longrightarrow> field off n (xs @ ys) = field (off - length xs) n ys"
  by (simp add: field_def)

lemma rd_skip [simp, layout_simps]:
  "length xs \<le> off \<Longrightarrow> rd8 off (xs @ ys) = rd8 (off - length xs) ys"
  "length xs \<le> off \<Longrightarrow> rd16 off (xs @ ys) = rd16 (off - length xs) ys"
  "length xs \<le> off \<Longrightarrow> rd32 off (xs @ ys) = rd32 (off - length xs) ys"
  "length xs \<le> off \<Longrightarrow> rd64 off (xs @ ys) = rd64 (off - length xs) ys"
  by (simp_all add: rd8_def rd16_def rd32_def rd64_def field_skip)

lemma rd_skip_Cons [simp, layout_simps]:
  "0 < off \<Longrightarrow> rd8 off (x # ys) = rd8 (off - 1) ys"
  "0 < off \<Longrightarrow> rd16 off (x # ys) = rd16 (off - 1) ys"
  "0 < off \<Longrightarrow> rd32 off (x # ys) = rd32 (off - 1) ys"
  "0 < off \<Longrightarrow> rd64 off (x # ys) = rd64 (off - 1) ys"
  using rd_skip [of "[x]" off ys] by simp_all

lemma field_skip_Cons [simp]: "0 < off \<Longrightarrow> field off n (x # ys) = field (off - 1) n ys"
  using field_skip [of "[x]" off n ys] by simp

lemma field_here: "length xs = n \<Longrightarrow> field 0 n (xs @ ys) = xs"
  by (simp add: field_def)

text \<open>A field that lies inside a longer image is the same field of its prefix.\<close>

lemma field_prefix: "off + n \<le> length xs \<Longrightarrow> field off n (xs @ ys) = field off n xs"
  by (simp add: field_def)

text \<open>Padding bytes of a C++ object are indeterminate: their values are a function of the offset.\<close>

definition pads :: "(nat \<Rightarrow> byte) \<Rightarrow> nat \<Rightarrow> nat \<Rightarrow> byte list" where
  "pads pad off n = map pad [off..<off + n]"

lemma length_pads [simp, layout_simps]: "length (pads pad off n) = n"
  by (simp add: pads_def)

section \<open>Characters and decimal numerals\<close>

definition byte_of_char :: "char \<Rightarrow> byte" where
  "byte_of_char c = word_of_nat (of_char c)"

definition char_of_byte :: "byte \<Rightarrow> char" where
  "char_of_byte b = char_of (unat b)"

lemma of_char_less_256: "of_char c < (256 :: nat)"
  by simp

lemma char_of_byte_of_char [simp]: "char_of_byte (byte_of_char c) = c"
  by (simp add: char_of_byte_def byte_of_char_def unat_of_nat)

lemma map_char_of_byte_of_char [simp]: "map char_of_byte (map byte_of_char s) = s"
  by (induction s) simp_all

text \<open>\<open>isdigit\<close> and the value of a digit; \<open>isspace\<close> in the C locale.\<close>

definition is_digit :: "char \<Rightarrow> bool" where
  "is_digit c \<longleftrightarrow> 48 \<le> (of_char c :: nat) \<and> (of_char c :: nat) \<le> 57"

definition digit_value :: "char \<Rightarrow> nat" where
  "digit_value c = of_char c - 48"

definition is_space :: "char \<Rightarrow> bool" where
  "is_space c \<longleftrightarrow> (of_char c :: nat) = 32 \<or> (9 \<le> (of_char c :: nat) \<and> (of_char c :: nat) \<le> 13)"

definition digit_char :: "nat \<Rightarrow> char" where
  "digit_char d = char_of (48 + d)"

lemma is_digit_digit_char [simp]: "d < 10 \<Longrightarrow> is_digit (digit_char d)"
  by (simp add: is_digit_def digit_char_def)

lemma digit_value_digit_char [simp]: "d < 10 \<Longrightarrow> digit_value (digit_char d) = d"
  by (simp add: digit_value_def digit_char_def)

text \<open>\<open>std::to_string\<close> of an unsigned and of a signed integer.\<close>

fun show_nat :: "nat \<Rightarrow> string" where
  "show_nat n = (if n < 10 then [digit_char n] else show_nat (n div 10) @ [digit_char (n mod 10)])"

declare show_nat.simps [simp del]

definition show_int :: "int \<Rightarrow> string" where
  "show_int k = (if k < 0 then CHR ''-'' # show_nat (nat (- k)) else show_nat (nat k))"

definition digits_value :: "string \<Rightarrow> nat" where
  "digits_value s = foldl (\<lambda>v c. 10 * v + digit_value c) 0 s"

lemma digits_value_Nil [simp]: "digits_value [] = 0"
  by (simp add: digits_value_def)

lemma digits_value_snoc [simp]: "digits_value (s @ [c]) = 10 * digits_value s + digit_value c"
  by (simp add: digits_value_def)

lemma digits_value_append:
  "digits_value (xs @ ys) = digits_value xs * 10 ^ length ys + digits_value ys"
  by (induction ys rule: rev_induct) (simp_all add: append_assoc [symmetric] algebra_simps
      del: append_assoc)

lemma digit_value_bound: "is_digit c \<Longrightarrow> digit_value c < 10"
  by (auto simp: is_digit_def digit_value_def)

lemma digits_value_bound: "list_all is_digit ds \<Longrightarrow> digits_value ds < 10 ^ length ds"
proof (induction ds rule: rev_induct)
  case Nil
  then show ?case by simp
next
  case (snoc c ds)
  then have "digits_value ds < 10 ^ length ds" "digit_value c < 10"
    by (simp_all add: digit_value_bound)
  then show ?case by simp
qed

lemma show_nat_digits: "c \<in> set (show_nat n) \<Longrightarrow> is_digit c"
proof (induction n rule: show_nat.induct)
  case (1 n)
  show ?case
  proof (cases "n < 10")
    case True
    with "1.prems" show ?thesis by (simp add: show_nat.simps [of n])
  next
    case False
    with "1" show ?thesis by (auto simp: show_nat.simps [of n])
  qed
qed

lemma show_nat_nonempty [simp]: "show_nat n \<noteq> []"
  by (simp add: show_nat.simps [of n])

lemma digits_value_show_nat [simp]: "digits_value (show_nat n) = n"
proof (induction n rule: show_nat.induct)
  case (1 n)
  show ?case
  proof (cases "n < 10")
    case True
    then show ?thesis by (simp add: show_nat.simps [of n] digits_value_def)
  next
    case False
    with "1" show ?thesis by (simp add: show_nat.simps [of n])
  qed
qed

section \<open>Generic list lemmas\<close>

lemma drop_append_le [simp]: "length xs \<le> n \<Longrightarrow> drop n (xs @ ys) = drop (n - length xs) ys"
  by simp

lemma takeWhile_all: "(\<And>x. x \<in> set xs \<Longrightarrow> P x) \<Longrightarrow> takeWhile P xs = xs"
  by (induction xs) simp_all

lemma takeWhile_stop: "(\<And>x. x \<in> set xs \<Longrightarrow> P x) \<Longrightarrow> \<not> P y \<Longrightarrow> takeWhile P (xs @ y # ys) = xs"
  by (induction xs) simp_all

lemma prefix_split:
  "xs @ ys = p @ s \<Longrightarrow> length xs \<le> length p \<Longrightarrow> \<exists>q. p = xs @ q \<and> ys = q @ s"
  by (auto simp: append_eq_append_conv2)

lemma last_filter: "filter P xs = y # ys \<Longrightarrow> P (last (y # ys))"
proof -
  assume eq: "filter P xs = y # ys"
  then have "last (filter P xs) \<in> set (filter P xs)" by (intro last_in_set) simp
  then have "P (last (filter P xs))" by simp
  then show ?thesis by (simp only: eq)
qed

lemma map_of_nat_shift:
  "map (\<lambda>i. n + 1 + of_nat i) [0..<k] = map (\<lambda>i. n + of_nat i) [Suc 0..<Suc k]"
  for n :: u64
  by (simp add: map_Suc_upt [symmetric] comp_def algebra_simps del: map_Suc_upt upt_Suc)

lemma dropWhile_stop: "(\<And>x. x \<in> set xs \<Longrightarrow> P x) \<Longrightarrow> \<not> P y \<Longrightarrow> dropWhile P (xs @ y # ys) = y # ys"
  by (induction xs) simp_all

end
