(* ===== verification/Core_Types.thy ===== *)
theory Core_Types
  imports Prelude
begin

text \<open>
  The message model of include/llt/types.hpp: identifiers at their width, the enumerations,
  the fixed-size symbol, one record per message struct with its default member initialisers
  (the constants ending in \<open>0\<close> are the \<open>T x{}\<close> of the source), and the tagged envelope.

  Each enumeration is an \<open>enum class\<close> over \<open>std::uint8_t\<close>: a value read from a socket or a file
  may be a byte no enumerator names.  The \<open>Other\<close> constructors stand for those values; a value is
  canonical when its constructor is the one its byte denotes.
\<close>

section \<open>Identifiers\<close>

type_synonym SymbolId = u32
type_synonym OrderId = u64
type_synonym ClientOrderId = u64
type_synonym Sequence = u64
type_synonym Price = s64
type_synonym Quantity = s64
type_synonym NodeId = u32
type_synonym TimestampNs = u64

section \<open>Enumerations\<close>

datatype Side = Buy | Sell | Side_Other byte

datatype MsgType =
    MT_Unknown | MT_MarketData | MT_Signal | MT_NewOrder | MT_CancelOrder
  | MT_Ack | MT_Fill | MT_Reject | MT_Heartbeat | MT_RiskState | MT_Other byte

datatype NodeRole =
    NR_MarketData | NR_Strategy | NR_OMS | NR_Gateway | NR_Simulator | NR_Other byte

datatype OrderState =
    OS_New | OS_Accepted | OS_Rejected | OS_Live | OS_Filled | OS_Cancelled | OS_Other byte

datatype RejectReason =
    RR_None | RR_RiskLimit | RR_DuplicateOrder | RR_StaleMarketData
  | RR_GatewayUnavailable | RR_NetworkPartition | RR_Other byte

text \<open>The underlying values, and the enumerator a byte denotes.\<close>

fun side_byte :: "Side \<Rightarrow> byte" where
  "side_byte Buy = 1"
| "side_byte Sell = 2"
| "side_byte (Side_Other b) = b"

definition side_of_byte :: "byte \<Rightarrow> Side" where
  "side_of_byte b = (if b = 1 then Buy else if b = 2 then Sell else Side_Other b)"

fun msg_type_byte :: "MsgType \<Rightarrow> byte" where
  "msg_type_byte MT_Unknown = 0"
| "msg_type_byte MT_MarketData = 1"
| "msg_type_byte MT_Signal = 2"
| "msg_type_byte MT_NewOrder = 3"
| "msg_type_byte MT_CancelOrder = 4"
| "msg_type_byte MT_Ack = 5"
| "msg_type_byte MT_Fill = 6"
| "msg_type_byte MT_Reject = 7"
| "msg_type_byte MT_Heartbeat = 8"
| "msg_type_byte MT_RiskState = 9"
| "msg_type_byte (MT_Other b) = b"

definition msg_type_of_byte :: "byte \<Rightarrow> MsgType" where
  "msg_type_of_byte b =
     (if b = 0 then MT_Unknown else if b = 1 then MT_MarketData else if b = 2 then MT_Signal
      else if b = 3 then MT_NewOrder else if b = 4 then MT_CancelOrder else if b = 5 then MT_Ack
      else if b = 6 then MT_Fill else if b = 7 then MT_Reject else if b = 8 then MT_Heartbeat
      else if b = 9 then MT_RiskState else MT_Other b)"

fun node_role_byte :: "NodeRole \<Rightarrow> byte" where
  "node_role_byte NR_MarketData = 1"
| "node_role_byte NR_Strategy = 2"
| "node_role_byte NR_OMS = 3"
| "node_role_byte NR_Gateway = 4"
| "node_role_byte NR_Simulator = 5"
| "node_role_byte (NR_Other b) = b"

definition node_role_of_byte :: "byte \<Rightarrow> NodeRole" where
  "node_role_of_byte b =
     (if b = 1 then NR_MarketData else if b = 2 then NR_Strategy else if b = 3 then NR_OMS
      else if b = 4 then NR_Gateway else if b = 5 then NR_Simulator else NR_Other b)"

fun order_state_byte :: "OrderState \<Rightarrow> byte" where
  "order_state_byte OS_New = 1"
| "order_state_byte OS_Accepted = 2"
| "order_state_byte OS_Rejected = 3"
| "order_state_byte OS_Live = 4"
| "order_state_byte OS_Filled = 5"
| "order_state_byte OS_Cancelled = 6"
| "order_state_byte (OS_Other b) = b"

definition order_state_of_byte :: "byte \<Rightarrow> OrderState" where
  "order_state_of_byte b =
     (if b = 1 then OS_New else if b = 2 then OS_Accepted else if b = 3 then OS_Rejected
      else if b = 4 then OS_Live else if b = 5 then OS_Filled else if b = 6 then OS_Cancelled
      else OS_Other b)"

fun reject_reason_byte :: "RejectReason \<Rightarrow> byte" where
  "reject_reason_byte RR_None = 0"
| "reject_reason_byte RR_RiskLimit = 1"
| "reject_reason_byte RR_DuplicateOrder = 2"
| "reject_reason_byte RR_StaleMarketData = 3"
| "reject_reason_byte RR_GatewayUnavailable = 4"
| "reject_reason_byte RR_NetworkPartition = 5"
| "reject_reason_byte (RR_Other b) = b"

definition reject_reason_of_byte :: "byte \<Rightarrow> RejectReason" where
  "reject_reason_of_byte b =
     (if b = 0 then RR_None else if b = 1 then RR_RiskLimit else if b = 2 then RR_DuplicateOrder
      else if b = 3 then RR_StaleMarketData else if b = 4 then RR_GatewayUnavailable
      else if b = 5 then RR_NetworkPartition else RR_Other b)"

lemma enum_byte_of_byte [simp, enum_simps]:
  "side_byte (side_of_byte b) = b"
  "msg_type_byte (msg_type_of_byte b) = b"
  "node_role_byte (node_role_of_byte b) = b"
  "order_state_byte (order_state_of_byte b) = b"
  "reject_reason_byte (reject_reason_of_byte b) = b"
  by (simp_all add: side_of_byte_def msg_type_of_byte_def node_role_of_byte_def
      order_state_of_byte_def reject_reason_of_byte_def)

definition canonical_side :: "Side \<Rightarrow> bool" where
  "canonical_side s \<longleftrightarrow> side_of_byte (side_byte s) = s"

definition canonical_type :: "MsgType \<Rightarrow> bool" where
  "canonical_type t \<longleftrightarrow> msg_type_of_byte (msg_type_byte t) = t"

definition canonical_role :: "NodeRole \<Rightarrow> bool" where
  "canonical_role r \<longleftrightarrow> node_role_of_byte (node_role_byte r) = r"

definition canonical_order_state :: "OrderState \<Rightarrow> bool" where
  "canonical_order_state s \<longleftrightarrow> order_state_of_byte (order_state_byte s) = s"

definition canonical_reason :: "RejectReason \<Rightarrow> bool" where
  "canonical_reason r \<longleftrightarrow> reject_reason_of_byte (reject_reason_byte r) = r"

lemma canonical_named [simp, enum_simps]:
  "canonical_side Buy" "canonical_side Sell"
  "canonical_type MT_Unknown" "canonical_type MT_MarketData" "canonical_type MT_Signal"
  "canonical_type MT_NewOrder" "canonical_type MT_CancelOrder" "canonical_type MT_Ack"
  "canonical_type MT_Fill" "canonical_type MT_Reject" "canonical_type MT_Heartbeat"
  "canonical_type MT_RiskState"
  "canonical_role NR_MarketData" "canonical_role NR_Strategy" "canonical_role NR_OMS"
  "canonical_role NR_Gateway" "canonical_role NR_Simulator"
  "canonical_order_state OS_New" "canonical_order_state OS_Accepted"
  "canonical_order_state OS_Rejected" "canonical_order_state OS_Live"
  "canonical_order_state OS_Filled" "canonical_order_state OS_Cancelled"
  "canonical_reason RR_None" "canonical_reason RR_RiskLimit" "canonical_reason RR_DuplicateOrder"
  "canonical_reason RR_StaleMarketData" "canonical_reason RR_GatewayUnavailable"
  "canonical_reason RR_NetworkPartition"
  by (simp_all add: canonical_side_def canonical_type_def canonical_role_def
      canonical_order_state_def canonical_reason_def side_of_byte_def msg_type_of_byte_def
      node_role_of_byte_def order_state_of_byte_def reject_reason_of_byte_def)

lemma canonical_of_byte [simp]:
  "canonical_side (side_of_byte b)" "canonical_type (msg_type_of_byte b)"
  "canonical_role (node_role_of_byte b)" "canonical_order_state (order_state_of_byte b)"
  "canonical_reason (reject_reason_of_byte b)"
  by (simp_all add: canonical_side_def canonical_type_def canonical_role_def
      canonical_order_state_def canonical_reason_def)

text \<open>\<open>to_string\<close> of a side: every value but \<open>Buy\<close> prints as a sell.\<close>

definition to_string_side :: "Side \<Rightarrow> string" where
  "to_string_side s = (if s = Buy then ''BUY'' else ''SELL'')"

fun to_string_msg_type :: "MsgType \<Rightarrow> string" where
  "to_string_msg_type MT_MarketData = ''MarketData''"
| "to_string_msg_type MT_Signal = ''Signal''"
| "to_string_msg_type MT_NewOrder = ''NewOrder''"
| "to_string_msg_type MT_CancelOrder = ''CancelOrder''"
| "to_string_msg_type MT_Ack = ''Ack''"
| "to_string_msg_type MT_Fill = ''Fill''"
| "to_string_msg_type MT_Reject = ''Reject''"
| "to_string_msg_type MT_Heartbeat = ''Heartbeat''"
| "to_string_msg_type MT_RiskState = ''RiskState''"
| "to_string_msg_type _ = ''Unknown''"

section \<open>Symbols\<close>

text \<open>
  A symbol is an array of \<open>SYMBOL_LEN\<close> = 16 characters.  The constructor copies at most 15
  and terminates them; \<open>str()\<close> reads up to the first NUL.  An array without one (the constructor
  never makes it, but a decoded message can hold it) would be read past its end: \<open>None\<close>.
\<close>

type_synonym Symbol = string

definition SYMBOL_LEN :: nat where "SYMBOL_LEN = 16"

definition NUL :: char where "NUL = char_of (0 :: nat)"

definition Symbol_default :: Symbol where
  "Symbol_default = replicate SYMBOL_LEN NUL"

definition Symbol_of :: "string \<Rightarrow> Symbol" where
  "Symbol_of s = (let n = min (length s) (SYMBOL_LEN - 1)
                  in take n s @ NUL # drop (n + 1) Symbol_default)"

definition Symbol_str :: "Symbol \<Rightarrow> string option" where
  "Symbol_str v = (if NUL \<in> set v then Some (takeWhile (\<lambda>c. c \<noteq> NUL) v) else None)"

lemma length_Symbol_of [simp]: "length (Symbol_of s) = SYMBOL_LEN"
  by (simp add: Symbol_of_def Symbol_default_def SYMBOL_LEN_def Let_def)

lemma length_Symbol_default [simp]: "length Symbol_default = SYMBOL_LEN"
  by (simp add: Symbol_default_def)

lemma Symbol_str_Symbol_of:
  assumes "NUL \<notin> set s"
  shows "Symbol_str (Symbol_of s) = Some (take 15 s)"
proof -
  have "\<And>c. c \<in> set (take n s) \<Longrightarrow> c \<noteq> NUL" for n
    using assms by (auto dest: in_set_takeD)
  then have "takeWhile (\<lambda>c. c \<noteq> NUL) (take n s @ NUL # rest) = take n s" for n rest
    by (intro takeWhile_stop) auto
  moreover have "take (min (length s) 15) s = take 15 s"
    by (simp add: min_def)
  ultimately show ?thesis
    by (simp add: Symbol_of_def Symbol_str_def SYMBOL_LEN_def Let_def)
qed

section \<open>Messages\<close>

record MessageHeader =
  hdr_type :: MsgType
  hdr_source_node :: NodeId
  hdr_destination_node :: NodeId
  hdr_sequence :: Sequence
  hdr_send_ts_ns :: TimestampNs
  hdr_recv_ts_ns :: TimestampNs

record MarketDataUpdate =
  md_header :: MessageHeader
  md_symbol_id :: SymbolId
  md_symbol :: Symbol
  md_bid_px :: Price
  md_bid_qty :: Quantity
  md_ask_px :: Price
  md_ask_qty :: Quantity
  md_exchange_sequence :: Sequence

record Signal =
  sig_header :: MessageHeader
  sig_symbol_id :: SymbolId
  sig_side :: Side
  sig_limit_px :: Price
  sig_qty :: Quantity
  sig_confidence_bps :: i32

record NewOrder =
  ord_header :: MessageHeader
  ord_client_order_id :: ClientOrderId
  ord_symbol_id :: SymbolId
  ord_side :: Side
  ord_limit_px :: Price
  ord_qty :: Quantity

record Ack =
  ack_header :: MessageHeader
  ack_client_order_id :: ClientOrderId
  ack_exchange_order_id :: OrderId
  ack_state :: OrderState

record Reject =
  rej_header :: MessageHeader
  rej_client_order_id :: ClientOrderId
  rej_reason :: RejectReason

record Fill =
  fill_header :: MessageHeader
  fill_client_order_id :: ClientOrderId
  fill_exchange_order_id :: OrderId
  fill_px :: Price
  fill_qty :: Quantity

record Heartbeat =
  hb_header :: MessageHeader
  hb_role :: NodeRole
  hb_last_seen_ns :: TimestampNs

record RiskState =
  rs_header :: MessageHeader
  rs_current_position :: Quantity
  rs_max_position :: Quantity
  rs_trading_enabled :: bool

text \<open>Value-initialised messages.\<close>

definition MessageHeader0 :: MessageHeader where
  "MessageHeader0 = \<lparr>hdr_type = MT_Unknown, hdr_source_node = 0, hdr_destination_node = 0,
     hdr_sequence = 0, hdr_send_ts_ns = 0, hdr_recv_ts_ns = 0\<rparr>"

definition MarketDataUpdate0 :: MarketDataUpdate where
  "MarketDataUpdate0 = \<lparr>md_header = MessageHeader0, md_symbol_id = 0, md_symbol = Symbol_default,
     md_bid_px = 0, md_bid_qty = 0, md_ask_px = 0, md_ask_qty = 0, md_exchange_sequence = 0\<rparr>"

definition Signal0 :: Signal where
  "Signal0 = \<lparr>sig_header = MessageHeader0, sig_symbol_id = 0, sig_side = Buy, sig_limit_px = 0,
     sig_qty = 0, sig_confidence_bps = 0\<rparr>"

definition NewOrder0 :: NewOrder where
  "NewOrder0 = \<lparr>ord_header = MessageHeader0, ord_client_order_id = 0, ord_symbol_id = 0,
     ord_side = Buy, ord_limit_px = 0, ord_qty = 0\<rparr>"

definition Ack0 :: Ack where
  "Ack0 = \<lparr>ack_header = MessageHeader0, ack_client_order_id = 0, ack_exchange_order_id = 0,
     ack_state = OS_Accepted\<rparr>"

definition Reject0 :: Reject where
  "Reject0 = \<lparr>rej_header = MessageHeader0, rej_client_order_id = 0, rej_reason = RR_None\<rparr>"

definition Heartbeat0 :: Heartbeat where
  "Heartbeat0 = \<lparr>hb_header = MessageHeader0, hb_role = NR_Simulator, hb_last_seen_ns = 0\<rparr>"

lemmas message_defaults =
  MessageHeader0_def MarketDataUpdate0_def Signal0_def NewOrder0_def Ack0_def Reject0_def
  Heartbeat0_def

section \<open>Envelopes\<close>

text \<open>
  The union of an envelope holds the member last assigned; \<open>P_Empty\<close> is the union before any
  assignment.  Reading a member that is not the active one is undefined behaviour, which the
  accessors show as \<open>None\<close>.  An envelope is well tagged when its type names its active member.
\<close>

datatype Payload =
    P_Empty
  | P_MarketData MarketDataUpdate
  | P_Signal Signal
  | P_NewOrder NewOrder
  | P_Ack Ack
  | P_Reject Reject
  | P_Fill Fill
  | P_Heartbeat Heartbeat
  | P_RiskState RiskState

record Envelope =
  env_type :: MsgType
  env_payload :: Payload

definition Envelope0 :: Envelope where
  "Envelope0 = \<lparr>env_type = MT_Unknown, env_payload = P_Empty\<rparr>"

fun payload_market_data :: "Payload \<Rightarrow> MarketDataUpdate option" where
  "payload_market_data (P_MarketData m) = Some m"
| "payload_market_data _ = None"

fun payload_signal :: "Payload \<Rightarrow> Signal option" where
  "payload_signal (P_Signal s) = Some s"
| "payload_signal _ = None"

fun payload_new_order :: "Payload \<Rightarrow> NewOrder option" where
  "payload_new_order (P_NewOrder ord) = Some ord"
| "payload_new_order _ = None"

fun payload_ack :: "Payload \<Rightarrow> Ack option" where
  "payload_ack (P_Ack a) = Some a"
| "payload_ack _ = None"

fun payload_reject :: "Payload \<Rightarrow> Reject option" where
  "payload_reject (P_Reject r) = Some r"
| "payload_reject _ = None"

fun payload_type :: "Payload \<Rightarrow> MsgType" where
  "payload_type P_Empty = MT_Unknown"
| "payload_type (P_MarketData _) = MT_MarketData"
| "payload_type (P_Signal _) = MT_Signal"
| "payload_type (P_NewOrder _) = MT_NewOrder"
| "payload_type (P_Ack _) = MT_Ack"
| "payload_type (P_Reject _) = MT_Reject"
| "payload_type (P_Fill _) = MT_Fill"
| "payload_type (P_Heartbeat _) = MT_Heartbeat"
| "payload_type (P_RiskState _) = MT_RiskState"

definition well_tagged :: "Envelope \<Rightarrow> bool" where
  "well_tagged e \<longleftrightarrow> payload_type (env_payload e) = env_type e"

text \<open>The envelopes the program builds: a type and the member it announces.\<close>

definition market_data_env :: "MarketDataUpdate \<Rightarrow> Envelope" where
  "market_data_env m = Envelope0\<lparr>env_type := MT_MarketData, env_payload := P_MarketData m\<rparr>"

definition signal_env :: "Signal \<Rightarrow> Envelope" where
  "signal_env s = Envelope0\<lparr>env_type := MT_Signal, env_payload := P_Signal s\<rparr>"

definition new_order_env :: "NewOrder \<Rightarrow> Envelope" where
  "new_order_env ord = Envelope0\<lparr>env_type := MT_NewOrder, env_payload := P_NewOrder ord\<rparr>"

definition ack_env :: "Ack \<Rightarrow> Envelope" where
  "ack_env a = Envelope0\<lparr>env_type := MT_Ack, env_payload := P_Ack a\<rparr>"

definition reject_env :: "Reject \<Rightarrow> Envelope" where
  "reject_env r = Envelope0\<lparr>env_type := MT_Reject, env_payload := P_Reject r\<rparr>"

lemma env_sel [simp, env_simps]:
  "env_type (market_data_env m) = MT_MarketData" "env_payload (market_data_env m) = P_MarketData m"
  "env_type (signal_env s) = MT_Signal" "env_payload (signal_env s) = P_Signal s"
  "env_type (new_order_env ord) = MT_NewOrder" "env_payload (new_order_env ord) = P_NewOrder ord"
  "env_type (ack_env a) = MT_Ack" "env_payload (ack_env a) = P_Ack a"
  "env_type (reject_env r) = MT_Reject" "env_payload (reject_env r) = P_Reject r"
  by (simp_all add: market_data_env_def signal_env_def new_order_env_def ack_env_def
      reject_env_def)

lemma env_inject [simp, env_simps]:
  "market_data_env m = market_data_env m' \<longleftrightarrow> m = m'" "signal_env s = signal_env s' \<longleftrightarrow> s = s'"
  "new_order_env ord = new_order_env ord' \<longleftrightarrow> ord = ord'" "ack_env a = ack_env a' \<longleftrightarrow> a = a'"
  "reject_env r = reject_env r' \<longleftrightarrow> r = r'"
  by (simp_all add: market_data_env_def signal_env_def new_order_env_def ack_env_def
      reject_env_def Envelope0_def)

lemma well_tagged_env [simp, env_simps]:
  "well_tagged (market_data_env m)" "well_tagged (signal_env s)" "well_tagged (new_order_env ord)"
  "well_tagged (ack_env a)" "well_tagged (reject_env r)"
  by (simp_all add: well_tagged_def)

lemma well_tagged_accessors:
  "well_tagged e \<Longrightarrow> env_type e = MT_MarketData \<Longrightarrow> \<exists>m. env_payload e = P_MarketData m"
  "well_tagged e \<Longrightarrow> env_type e = MT_Signal \<Longrightarrow> \<exists>s. env_payload e = P_Signal s"
  "well_tagged e \<Longrightarrow> env_type e = MT_NewOrder \<Longrightarrow> \<exists>ord. env_payload e = P_NewOrder ord"
  "well_tagged e \<Longrightarrow> env_type e = MT_Ack \<Longrightarrow> \<exists>a. env_payload e = P_Ack a"
  "well_tagged e \<Longrightarrow> env_type e = MT_Reject \<Longrightarrow> \<exists>r. env_payload e = P_Reject r"
  by (cases "env_payload e"; simp add: well_tagged_def)+

end
