(* ===== verification/Effects.thy ===== *)
theory Effects
  imports Core_Types
begin

text \<open>
  The side channels every component writes to: the asynchronous logger (include/llt/logging.hpp),
  the metrics registry (include/llt/metrics.hpp) and standard output.  None of them influences the
  control flow of its caller, so an operation returns the list of effects it performs, in the
  order of the code; \<open>Metrics\<close> and \<open>Logging\<close> say what the receiving component does with one.
\<close>

datatype LogLevel = Info | Warn | Error

datatype MetricCounter =
    MarketDataReceived | SignalsGenerated | OrdersSent | OrdersRejected | AcksReceived
  | FillsReceived | QueueDrops | HeartbeatMisses | GatewayDisconnects | JournalWrites
  | ReplayEventsWritten | ReplayEventsRead

datatype effect =
    Log LogLevel string string
  | MetricInc MetricCounter u64
  | MetricLatency u64
  | WriteJsonl string
  | Stdout string
  | Stderr string

text \<open>A truth value on an output stream.\<close>

definition bool_text :: "bool \<Rightarrow> string" where
  "bool_text b = (if b then ''1'' else ''0'')"

text \<open>\<open>metric_inc(counter)\<close> with its default value 1.\<close>

definition metric_inc :: "MetricCounter \<Rightarrow> effect" where
  "metric_inc c = MetricInc c 1"

text \<open>How often a list of effects increments a counter.\<close>

fun inc_count :: "MetricCounter \<Rightarrow> effect list \<Rightarrow> nat" where
  "inc_count c [] = 0"
| "inc_count c (MetricInc d v # es) = (if c = d then unat v else 0) + inc_count c es"
| "inc_count c (_ # es) = inc_count c es"

lemma inc_count_append [simp]: "inc_count c (es @ fs) = inc_count c es + inc_count c fs"
  by (induction c es rule: inc_count.induct) simp_all

lemma inc_count_metric_inc [simp]:
  "inc_count c (metric_inc d # es) = (if c = d then 1 else 0) + inc_count c es"
  by (simp add: metric_inc_def)

end
