(* ===== verification/Fifo_Interface.thy ===== *)
theory Fifo_Interface
  imports Prelude
begin

text \<open>
  The contract of a bounded queue, as the pipeline and the logger rely on it: \<open>push\<close> accepts an
  element exactly while there is room and reports whether it did, \<open>pop\<close> hands out the oldest
  element or reports an empty queue.  The client lemmas (draining loops, histories of operations)
  are proved once here; include/llt/spsc_queue.hpp and the log queue of src/logging.cpp provide it.
\<close>

text \<open>\<open>while (auto maybe = q.pop()) ...\<close>: at most \<open>fuel\<close> iterations, \<open>None\<close> when it runs out.\<close>

fun drain :: "('q \<Rightarrow> 'a option \<times> 'q) \<Rightarrow> nat \<Rightarrow> 'q \<Rightarrow> ('a list \<times> 'q) option" where
  "drain pop 0 q = None"
| "drain pop (Suc fuel) q =
     (case pop q of
        (None, q') \<Rightarrow> Some ([], q')
      | (Some x, q') \<Rightarrow> map_option (\<lambda>(xs, r). (x # xs, r)) (drain pop fuel q'))"

text \<open>A history of operations: what was accepted, what was handed out, how many were refused.\<close>

datatype 'a queue_op = OpPush 'a | OpPop

fun run_ops ::
  "('a \<Rightarrow> 'q \<Rightarrow> bool \<times> 'q) \<Rightarrow> ('q \<Rightarrow> 'a option \<times> 'q) \<Rightarrow> 'a queue_op list \<Rightarrow> 'q
   \<Rightarrow> 'a list \<times> 'a list \<times> nat \<times> 'q" where
  "run_ops push pop [] q = ([], [], 0, q)"
| "run_ops push pop (OpPush x # ops) q =
     (let (ok, q') = push x q; (ins, outs, refused, r) = run_ops push pop ops q'
      in (if ok then (x # ins, outs, refused, r) else (ins, outs, Suc refused, r)))"
| "run_ops push pop (OpPop # ops) q =
     (let (got, q') = pop q; (ins, outs, refused, r) = run_ops push pop ops q'
      in (ins, (case got of None \<Rightarrow> outs | Some x \<Rightarrow> x # outs), refused, r))"

locale bounded_fifo =
  fixes push :: "'a \<Rightarrow> 'q \<Rightarrow> bool \<times> 'q"
    and pop :: "'q \<Rightarrow> 'a option \<times> 'q"
    and contents :: "'q \<Rightarrow> 'a list"
    and room :: "'q \<Rightarrow> nat"
    and inv :: "'q \<Rightarrow> bool"
  assumes push_accepts: "inv q \<Longrightarrow> length (contents q) < room q \<Longrightarrow>
      fst (push x q) \<and> contents (snd (push x q)) = contents q @ [x]"
    and push_refuses: "inv q \<Longrightarrow> length (contents q) = room q \<Longrightarrow>
      \<not> fst (push x q) \<and> contents (snd (push x q)) = contents q"
    and pop_some: "inv q \<Longrightarrow> contents q = x # xs \<Longrightarrow>
      fst (pop q) = Some x \<and> contents (snd (pop q)) = xs"
    and pop_none: "inv q \<Longrightarrow> contents q = [] \<Longrightarrow> pop q = (None, q)"
    and inv_push: "inv q \<Longrightarrow> inv (snd (push x q)) \<and> room (snd (push x q)) = room q"
    and inv_pop: "inv q \<Longrightarrow> inv (snd (pop q)) \<and> room (snd (pop q)) = room q"
    and contents_bound: "inv q \<Longrightarrow> length (contents q) \<le> room q"
begin

lemma push_iff:
  assumes "inv q"
  shows "fst (push x q) \<longleftrightarrow> length (contents q) < room q"
  using push_accepts [OF assms, of x] push_refuses [OF assms, of x] contents_bound [OF assms]
  by (cases "length (contents q) < room q") auto

lemma contents_push:
  assumes "inv q"
  shows "contents (snd (push x q)) = (if fst (push x q) then contents q @ [x] else contents q)"
  using push_accepts [OF assms, of x] push_refuses [OF assms, of x] contents_bound [OF assms]
  by (cases "length (contents q) < room q") auto

lemma contents_pop:
  assumes "inv q"
  shows "(case fst (pop q) of None \<Rightarrow> [] | Some x \<Rightarrow> [x]) @ contents (snd (pop q)) = contents q"
  using pop_some [OF assms] pop_none [OF assms] by (cases "contents q") auto

text \<open>Draining returns the whole contents in order, given one iteration more than elements.\<close>

lemma drain_contents:
  assumes "inv q" and "length (contents q) < fuel"
  shows "\<exists>r. drain pop fuel q = Some (contents q, r) \<and> inv r \<and> contents r = [] \<and> room r = room q"
  using assms
proof (induction fuel arbitrary: q)
  case 0
  then show ?case by simp
next
  case (Suc fuel)
  show ?case
  proof (cases "contents q")
    case Nil
    with Suc.prems pop_none show ?thesis by simp
  next
    case (Cons x xs)
    obtain q' where q': "pop q = (Some x, q')" "contents q' = xs"
      using pop_some [OF Suc.prems(1) Cons] by (cases "pop q") auto
    have "inv q'" "room q' = room q"
      using inv_pop [OF Suc.prems(1)] q' by auto
    moreover have "length (contents q') < fuel"
      using Suc.prems(2) Cons q' by simp
    ultimately obtain r where "drain pop fuel q' = Some (contents q', r)"
      "inv r" "contents r = []" "room r = room q"
      using Suc.IH by force
    with q' Cons show ?thesis by auto
  qed
qed

text \<open>First in, first out: what was inside and what went in is what came out and what is inside.\<close>

lemma history_fifo:
  assumes "inv q" and "run_ops push pop ops q = (ins, outs, refused, r)"
  shows "contents q @ ins = outs @ contents r \<and> inv r \<and> room r = room q"
  using assms
proof (induction ops arbitrary: q ins outs refused)
  case Nil
  then show ?case by simp
next
  case (Cons op ops)
  show ?case
  proof (cases op)
    case (OpPush x)
    obtain ins' outs' refused' r' where
      rest: "run_ops push pop ops (snd (push x q)) = (ins', outs', refused', r')"
      by (cases "run_ops push pop ops (snd (push x q))")
    with Cons.prems(2) OpPush
    have ins: "ins = (if fst (push x q) then x # ins' else ins')" and outs: "outs = outs'"
      and r: "r' = r"
      by (auto simp: split_beta Let_def split: if_splits)
    have q': "inv (snd (push x q))" "room (snd (push x q)) = room q"
      using inv_push [OF Cons.prems(1)] by auto
    with Cons.IH [OF q'(1) rest [unfolded r]] contents_push [OF Cons.prems(1), of x] ins outs
    show ?thesis by (auto split: if_splits)
  next
    case OpPop
    obtain ins' outs' refused' r' where
      rest: "run_ops push pop ops (snd (pop q)) = (ins', outs', refused', r')"
      by (cases "run_ops push pop ops (snd (pop q))")
    with Cons.prems(2) OpPop
    have ins: "ins = ins'" and r: "r' = r"
      and outs: "outs = (case fst (pop q) of None \<Rightarrow> outs' | Some x \<Rightarrow> x # outs')"
      by (auto simp: split_beta Let_def split: option.splits)
    have q': "inv (snd (pop q))" "room (snd (pop q)) = room q"
      using inv_pop [OF Cons.prems(1)] by auto
    have "contents (snd (pop q)) @ ins' = outs' @ contents r \<and> inv r \<and> room r = room q"
      using Cons.IH [OF q'(1) rest [unfolded r]] q'(2) by simp
    with contents_pop [OF Cons.prems(1), symmetric] ins outs show ?thesis
      by (auto split: option.splits)
  qed
qed

end

end
