(* ===== verification/Spsc_Queue.thy ===== *)
theory Spsc_Queue
  imports Fifo_Interface Core_Types
begin

text \<open>
  The single-producer single-consumer ring buffer of include/llt/spsc_queue.hpp: the operations as
  functions of the object's state, the list of elements a state holds, and the proof that the
  operations implement the bounded queue of \<open>Fifo_Interface\<close>.  One slot always stays free, so
  a queue of capacity \<open>c\<close> holds at most \<open>c - 1\<close> elements.
\<close>

section \<open>Ring windows\<close>

text \<open>The elements of a circular buffer from index \<open>t\<close> up to, not including, index \<open>h\<close>.\<close>

definition ring_size :: "nat \<Rightarrow> nat \<Rightarrow> nat \<Rightarrow> nat" where
  "ring_size c t h = (if t \<le> h then h - t else h + c - t)"

definition ring :: "'a list \<Rightarrow> nat \<Rightarrow> nat \<Rightarrow> 'a list" where
  "ring buf t h = map (\<lambda>i. buf ! ((t + i) mod length buf)) [0..<ring_size (length buf) t h]"

lemma Suc_mod_less: "h < c \<Longrightarrow> Suc h mod c < c"
  by simp

lemma Suc_mod_cases: "h < c \<Longrightarrow> Suc h mod c = (if Suc h = c then 0 else Suc h)"
  by simp

lemma length_ring [simp]: "length (ring buf t h) = ring_size (length buf) t h"
  by (simp add: ring_def)

lemma ring_self [simp]: "ring buf t t = []"
  by (simp add: ring_def ring_size_def)

lemma ring_empty_iff: "t < length buf \<Longrightarrow> ring buf t h = [] \<longleftrightarrow> t = h"
  by (auto simp: ring_def ring_size_def)

lemma ring_full_iff: "t < c \<Longrightarrow> h < c \<Longrightarrow> Suc h mod c = t \<longleftrightarrow> ring_size c t h = c - 1"
  by (subst Suc_mod_cases) (auto simp: ring_size_def)

lemma ring_size_le: "t < c \<Longrightarrow> h < c \<Longrightarrow> ring_size c t h \<le> c - 1"
  by (auto simp: ring_size_def)

lemma ring_size_advance_head:
  "t < c \<Longrightarrow> h < c \<Longrightarrow> Suc h mod c \<noteq> t \<Longrightarrow> ring_size c t (Suc h mod c) = Suc (ring_size c t h)"
  by (auto simp: Suc_mod_cases ring_size_def simp del: mod_Suc_eq split: if_splits)

lemma ring_size_advance_tail:
  "t < c \<Longrightarrow> h < c \<Longrightarrow> t \<noteq> h \<Longrightarrow> ring_size c t h = Suc (ring_size c (Suc t mod c) h)"
  by (auto simp: Suc_mod_cases ring_size_def split: if_splits)

lemma ring_index_ne_head:
  assumes "t < c" and "h < c" and i: "i < ring_size c t h"
  shows "(t + i) mod c \<noteq> h"
proof (cases "t + i < c")
  case True
  then have "(t + i) mod c = t + i" by (rule mod_less)
  with i show ?thesis by (simp add: ring_size_def split: if_splits)
next
  case False
  with assms have less: "t + i - c < c" and ne: "t + i \<noteq> h + c"
    by (simp_all add: ring_size_def split: if_splits)
  have "(t + i) mod c = (t + i - c) mod c"
    using False by (intro le_mod_geq) simp
  also have "\<dots> = t + i - c" using less by (rule mod_less)
  finally show ?thesis using ne False by linarith
qed

lemma ring_index_last: "t < c \<Longrightarrow> h < c \<Longrightarrow> (t + ring_size c t h) mod c = h"
  by (auto simp: ring_size_def)

text \<open>Writing the slot at \<open>h\<close> does not disturb the window; advancing \<open>h\<close> appends that slot.\<close>

lemma ring_write_head [simp]:
  assumes "t < length buf" and "h < length buf"
  shows "ring (buf[h := x]) t h = ring buf t h"
  using ring_index_ne_head [OF assms]
  by (simp add: ring_def nth_list_update_neq [OF not_sym])

lemma ring_advance_head:
  assumes "t < length buf" and "h < length buf" and "Suc h mod length buf \<noteq> t"
  shows "ring buf t (Suc h mod length buf) = ring buf t h @ [buf ! h]"
  using assms by (simp add: ring_def ring_size_advance_head ring_index_last)

lemma ring_advance_tail:
  assumes "t < length buf" and "h < length buf" and "t \<noteq> h"
  shows "ring buf t h = buf ! t # ring buf (Suc t mod length buf) h"
proof -
  let ?c = "length buf"
  have size: "ring_size ?c t h = Suc (ring_size ?c (Suc t mod ?c) h)"
    using assms by (rule ring_size_advance_tail)
  have "map (\<lambda>i. buf ! ((t + i) mod ?c)) [Suc 0..<Suc n]
      = map (\<lambda>i. buf ! ((Suc t mod ?c + i) mod ?c)) [0..<n]" for n
    by (simp add: map_Suc_upt [symmetric] comp_def mod_simps del: map_Suc_upt upt_Suc)
  then show ?thesis
    using assms by (simp add: ring_def size upt_conv_Cons del: upt_Suc)
qed

section \<open>The queue object\<close>

record 'a SpscQueue =
  q_buffer :: "'a list"
  q_head :: nat
  q_tail :: nat
  q_dropped :: u64

definition spsc_new :: "nat \<Rightarrow> 'a \<Rightarrow> 'a SpscQueue" where
  "spsc_new capacity x0 =
     \<lparr>q_buffer = replicate capacity x0, q_head = 0, q_tail = 0, q_dropped = 0\<rparr>"

definition spsc_increment :: "'a SpscQueue \<Rightarrow> nat \<Rightarrow> nat" where
  "spsc_increment q v = (v + 1) mod length (q_buffer q)"

definition spsc_push :: "'a \<Rightarrow> 'a SpscQueue \<Rightarrow> bool \<times> 'a SpscQueue" where
  "spsc_push item q =
     (let head = q_head q; next = spsc_increment q head
      in if next = q_tail q
         then (False, q\<lparr>q_dropped := q_dropped q + 1\<rparr>)
         else (True, q\<lparr>q_buffer := (q_buffer q)[head := item], q_head := next\<rparr>))"

definition spsc_pop :: "'a SpscQueue \<Rightarrow> 'a option \<times> 'a SpscQueue" where
  "spsc_pop q =
     (let tail = q_tail q
      in if tail = q_head q then (None, q)
         else (Some (q_buffer q ! tail), q\<lparr>q_tail := spsc_increment q tail\<rparr>))"

definition spsc_empty :: "'a SpscQueue \<Rightarrow> bool" where
  "spsc_empty q \<longleftrightarrow> q_head q = q_tail q"

definition spsc_dropped :: "'a SpscQueue \<Rightarrow> u64" where
  "spsc_dropped q = q_dropped q"

text \<open>The abstraction, the invariant (with the source's static assertion) and the usable room.\<close>

definition spsc_contents :: "'a SpscQueue \<Rightarrow> 'a list" where
  "spsc_contents q = ring (q_buffer q) (q_tail q) (q_head q)"

definition spsc_inv :: "'a SpscQueue \<Rightarrow> bool" where
  "spsc_inv q \<longleftrightarrow> 2 \<le> length (q_buffer q) \<and> q_head q < length (q_buffer q)
     \<and> q_tail q < length (q_buffer q)"

definition spsc_room :: "'a SpscQueue \<Rightarrow> nat" where
  "spsc_room q = length (q_buffer q) - 1"

lemmas spsc_defs = spsc_push_def spsc_pop_def spsc_increment_def spsc_contents_def spsc_inv_def
  spsc_room_def Let_def

interpretation spsc: bounded_fifo spsc_push spsc_pop spsc_contents spsc_room spsc_inv
proof
  fix q :: "'a SpscQueue" and x :: 'a and xs
  assume inv: "spsc_inv q"
  show "fst (spsc_push x q) \<and> spsc_contents (snd (spsc_push x q)) = spsc_contents q @ [x]"
    if "length (spsc_contents q) < spsc_room q"
    using inv that ring_full_iff [of "q_tail q" "length (q_buffer q)" "q_head q"]
      ring_advance_head [of "q_tail q" "(q_buffer q)[q_head q := x]" "q_head q"]
    by (auto simp: spsc_defs)
  show "\<not> fst (spsc_push x q) \<and> spsc_contents (snd (spsc_push x q)) = spsc_contents q"
    if "length (spsc_contents q) = spsc_room q"
    using inv that ring_full_iff [of "q_tail q" "length (q_buffer q)" "q_head q"]
    by (auto simp: spsc_defs)
  show "fst (spsc_pop q) = Some x \<and> spsc_contents (snd (spsc_pop q)) = xs"
    if "spsc_contents q = x # xs"
    using inv that ring_advance_tail [of "q_tail q" "q_buffer q" "q_head q"]
    by (cases "q_tail q = q_head q") (auto simp: spsc_defs)
  show "spsc_pop q = (None, q)" if "spsc_contents q = []"
    using inv that ring_empty_iff [of "q_tail q" "q_buffer q" "q_head q"]
    by (auto simp: spsc_defs)
  show "spsc_inv (snd (spsc_push x q)) \<and> spsc_room (snd (spsc_push x q)) = spsc_room q"
    using inv by (auto simp: spsc_defs intro: Suc_mod_less)
  show "spsc_inv (snd (spsc_pop q)) \<and> spsc_room (snd (spsc_pop q)) = spsc_room q"
    using inv by (auto simp: spsc_defs intro: Suc_mod_less)
  show "length (spsc_contents q) \<le> spsc_room q"
    using inv ring_size_le [of "q_tail q" "length (q_buffer q)" "q_head q"]
    by (simp add: spsc_defs)
qed

lemma spsc_new_inv: "2 \<le> capacity \<Longrightarrow> spsc_inv (spsc_new capacity x0)"
  by (simp add: spsc_inv_def spsc_new_def)

lemma spsc_new_contents: "2 \<le> capacity \<Longrightarrow> spsc_contents (spsc_new capacity x0) = []"
  by (simp add: spsc_contents_def spsc_new_def)

lemma spsc_new_room: "spsc_room (spsc_new capacity x0) = capacity - 1"
  by (simp add: spsc_room_def spsc_new_def)

lemma spsc_empty_iff: "spsc_inv q \<Longrightarrow> spsc_empty q \<longleftrightarrow> spsc_contents q = []"
  by (auto simp: spsc_empty_def spsc_contents_def spsc_inv_def ring_empty_iff)

text \<open>The dropped counter counts the refused pushes of a history.\<close>

lemma run_ops_dropped:
  "run_ops spsc_push spsc_pop ops q = (ins, outs, refused, r) \<Longrightarrow>
     spsc_dropped r = spsc_dropped q + of_nat refused"
proof (induction ops arbitrary: q ins outs refused)
  case Nil
  then show ?case by simp
next
  case (Cons op ops)
  show ?case
  proof (cases op)
    case (OpPush x)
    obtain ins' outs' refused' r' where
      rest: "run_ops spsc_push spsc_pop ops (snd (spsc_push x q)) = (ins', outs', refused', r')"
      by (cases "run_ops spsc_push spsc_pop ops (snd (spsc_push x q))")
    with Cons.prems OpPush
    have "refused = (if fst (spsc_push x q) then refused' else Suc refused')" and "r' = r"
      by (auto simp: split_beta Let_def split: if_splits)
    with Cons.IH [OF rest [unfolded \<open>r' = r\<close>]] show ?thesis
      by (auto simp: spsc_dropped_def spsc_push_def Let_def split: if_splits)
  next
    case OpPop
    obtain ins' outs' refused' r' where
      rest: "run_ops spsc_push spsc_pop ops (snd (spsc_pop q)) = (ins', outs', refused', r')"
      by (cases "run_ops spsc_push spsc_pop ops (snd (spsc_pop q))")
    with Cons.prems OpPop have "refused' = refused" and "r' = r"
      by (auto simp: split_beta Let_def)
    with Cons.IH [OF rest [unfolded \<open>r' = r\<close>]] show ?thesis
      by (auto simp: spsc_dropped_def spsc_pop_def Let_def)
  qed
qed

section \<open>Properties\<close>

text \<open>
  A queue is first-in first-out and bounded over every history of pushes and pops, starting
  from the state the constructor builds: the elements handed out, followed by those still inside,
  are exactly the accepted elements in the order of their pushes; at most capacity minus one are
  inside; and the dropped counter is the number of refused pushes.
\<close>

theorem spsc_history_fifo:
  assumes "2 \<le> capacity"
    and "run_ops spsc_push spsc_pop ops (spsc_new capacity x0) = (ins, outs, refused, r)"
  shows "ins = outs @ spsc_contents r \<and> length (spsc_contents r) \<le> capacity - 1
    \<and> spsc_dropped r = of_nat refused"
proof -
  have inv: "spsc_inv (spsc_new capacity x0)" using assms(1) by (rule spsc_new_inv)
  have "spsc_contents (spsc_new capacity x0) @ ins = outs @ spsc_contents r \<and> spsc_inv r
      \<and> spsc_room r = spsc_room (spsc_new capacity x0)"
    by (rule spsc.history_fifo [OF inv assms(2)])
  moreover have "spsc_dropped r = of_nat refused"
    using run_ops_dropped [OF assms(2)] by (simp add: spsc_dropped_def spsc_new_def)
  ultimately show ?thesis
    using spsc.contents_bound [of r] assms(1)
    by (simp add: spsc_new_contents spsc_new_room)
qed

theorem spsc_history_fifo_witness:
  "\<exists>r. run_ops spsc_push spsc_pop [OpPush 1, OpPush 2, OpPush 3, OpPop, OpPush 4]
         (spsc_new 3 (0 :: nat)) = ([1, 2, 4], [1], 1, r)
     \<and> [1, 2, 4] = [1] @ spsc_contents r \<and> spsc_dropped r = 1"
proof -
  let ?r = "\<lparr>q_buffer = [1, 2, 4], q_head = 0, q_tail = 1, q_dropped = 1\<rparr> :: nat SpscQueue"
  have run: "run_ops spsc_push spsc_pop [OpPush 1, OpPush 2, OpPush 3, OpPop, OpPush 4]
         (spsc_new 3 (0 :: nat)) = ([1, 2, 4], [1], 1, ?r)"
    by code_simp
  have "2 \<le> (3 :: nat)" by simp
  from spsc_history_fifo [OF this run] run show ?thesis by auto
qed

end
