(* ===== verification/Spsc_Concurrent.thy ===== *)
theory Spsc_Concurrent
  imports Spsc_Queue
begin

text \<open>
  The queue of include/llt/spsc_queue.hpp under concurrency: one thread pushes, another pops, and
  every atomic load or store of the two members is a step of its own, in any interleaving.  The
  acquire/release pairs of the source order the plain buffer accesses against the index
  publications, so interleavings of the single accesses are the executions to consider.
\<close>

text \<open>
  Program counters.  The producer holds the item and the head it loaded; after the fullness test
  it writes the slot, then publishes the new head.  The consumer holds the tail it loaded, then
  the item it read, then publishes the new tail.
\<close>

datatype 'a producer_pc =
    P_Ready
  | P_LoadTail 'a nat      \<comment> \<open>head loaded; the next access loads the tail\<close>
  | P_WriteSlot 'a nat     \<comment> \<open>not full; the next access writes the buffer\<close>
  | P_StoreHead 'a nat     \<comment> \<open>slot written; the next access publishes the head\<close>

datatype 'a consumer_pc =
    C_Ready
  | C_LoadHead nat         \<comment> \<open>tail loaded; the next access loads the head\<close>
  | C_ReadSlot nat         \<comment> \<open>not empty; the next access reads the buffer\<close>
  | C_StoreTail nat 'a     \<comment> \<open>slot read; the next access publishes the tail\<close>

text \<open>Ghost logs record the items whose push returned true and the items pop returned.\<close>

record 'a spsc_conf =
  c_queue :: "'a SpscQueue"
  c_prod :: "'a producer_pc"
  c_cons :: "'a consumer_pc"
  c_accepted :: "'a list"
  c_popped :: "'a list"

definition conf_init :: "nat \<Rightarrow> 'a \<Rightarrow> 'a spsc_conf" where
  "conf_init capacity x0 = \<lparr>c_queue = spsc_new capacity x0, c_prod = P_Ready, c_cons = C_Ready,
     c_accepted = [], c_popped = []\<rparr>"

inductive spsc_step :: "'a spsc_conf \<Rightarrow> 'a spsc_conf \<Rightarrow> bool" where
  push_load_head: "c_prod s = P_Ready \<Longrightarrow>
     spsc_step s (s\<lparr>c_prod := P_LoadTail x (q_head (c_queue s))\<rparr>)"
| push_full: "c_prod s = P_LoadTail x h \<Longrightarrow> spsc_increment (c_queue s) h = q_tail (c_queue s) \<Longrightarrow>
     spsc_step s (s\<lparr>c_queue := (c_queue s)\<lparr>q_dropped := q_dropped (c_queue s) + 1\<rparr>,
                    c_prod := P_Ready\<rparr>)"
| push_room: "c_prod s = P_LoadTail x h \<Longrightarrow> spsc_increment (c_queue s) h \<noteq> q_tail (c_queue s) \<Longrightarrow>
     spsc_step s (s\<lparr>c_prod := P_WriteSlot x h\<rparr>)"
| push_write: "c_prod s = P_WriteSlot x h \<Longrightarrow>
     spsc_step s (s\<lparr>c_queue := (c_queue s)\<lparr>q_buffer := (q_buffer (c_queue s))[h := x]\<rparr>,
                    c_prod := P_StoreHead x h\<rparr>)"
| push_store_head: "c_prod s = P_StoreHead x h \<Longrightarrow>
     spsc_step s (s\<lparr>c_queue := (c_queue s)\<lparr>q_head := spsc_increment (c_queue s) h\<rparr>,
                    c_prod := P_Ready, c_accepted := c_accepted s @ [x]\<rparr>)"
| pop_load_tail: "c_cons s = C_Ready \<Longrightarrow>
     spsc_step s (s\<lparr>c_cons := C_LoadHead (q_tail (c_queue s))\<rparr>)"
| pop_empty: "c_cons s = C_LoadHead t \<Longrightarrow> t = q_head (c_queue s) \<Longrightarrow>
     spsc_step s (s\<lparr>c_cons := C_Ready\<rparr>)"
| pop_nonempty: "c_cons s = C_LoadHead t \<Longrightarrow> t \<noteq> q_head (c_queue s) \<Longrightarrow>
     spsc_step s (s\<lparr>c_cons := C_ReadSlot t\<rparr>)"
| pop_read: "c_cons s = C_ReadSlot t \<Longrightarrow>
     spsc_step s (s\<lparr>c_cons := C_StoreTail t (q_buffer (c_queue s) ! t)\<rparr>)"
| pop_store_tail: "c_cons s = C_StoreTail t x \<Longrightarrow>
     spsc_step s (s\<lparr>c_queue := (c_queue s)\<lparr>q_tail := spsc_increment (c_queue s) t\<rparr>,
                    c_cons := C_Ready, c_popped := c_popped s @ [x]\<rparr>)"

inductive spsc_reachable :: "nat \<Rightarrow> 'a \<Rightarrow> 'a spsc_conf \<Rightarrow> bool" for capacity x0 where
  reach_init: "spsc_reachable capacity x0 (conf_init capacity x0)"
| reach_step: "spsc_reachable capacity x0 s \<Longrightarrow> spsc_step s t \<Longrightarrow> spsc_reachable capacity x0 t"

section \<open>The invariant\<close>

text \<open>
  What each thread knows about the queue while it is between two accesses: the index it loaded is
  still its own index, the producer's room cannot vanish, the consumer's element cannot vanish or
  change, and a written slot keeps its value until it is published.
\<close>

fun producer_knows :: "'a SpscQueue \<Rightarrow> 'a producer_pc \<Rightarrow> bool" where
  "producer_knows q P_Ready = True"
| "producer_knows q (P_LoadTail x h) = (h = q_head q)"
| "producer_knows q (P_WriteSlot x h) = (h = q_head q \<and> spsc_increment q h \<noteq> q_tail q)"
| "producer_knows q (P_StoreHead x h) =
     (h = q_head q \<and> spsc_increment q h \<noteq> q_tail q \<and> q_buffer q ! h = x)"

fun consumer_knows :: "'a SpscQueue \<Rightarrow> 'a consumer_pc \<Rightarrow> bool" where
  "consumer_knows q C_Ready = True"
| "consumer_knows q (C_LoadHead t) = (t = q_tail q)"
| "consumer_knows q (C_ReadSlot t) = (t = q_tail q \<and> t \<noteq> q_head q)"
| "consumer_knows q (C_StoreTail t x) = (t = q_tail q \<and> t \<noteq> q_head q \<and> q_buffer q ! t = x)"

definition conf_inv :: "nat \<Rightarrow> 'a spsc_conf \<Rightarrow> bool" where
  "conf_inv capacity s \<longleftrightarrow>
     spsc_inv (c_queue s) \<and> length (q_buffer (c_queue s)) = capacity
     \<and> producer_knows (c_queue s) (c_prod s) \<and> consumer_knows (c_queue s) (c_cons s)
     \<and> c_accepted s = c_popped s @ spsc_contents (c_queue s)"

lemma conf_inv_init: "2 \<le> capacity \<Longrightarrow> conf_inv capacity (conf_init capacity x0)"
  by (simp add: conf_inv_def conf_init_def spsc_new_inv spsc_new_contents)
     (simp add: spsc_new_def)

text \<open>What one thread knows survives each access of the other.\<close>

lemma consumer_knows_write:
  "consumer_knows q pc \<Longrightarrow> h = q_head q \<Longrightarrow> consumer_knows (q\<lparr>q_buffer := (q_buffer q)[h := x]\<rparr>) pc"
  by (cases pc) auto

lemma consumer_knows_head:
  "consumer_knows q pc \<Longrightarrow> h' \<noteq> q_tail q \<Longrightarrow> consumer_knows (q\<lparr>q_head := h'\<rparr>) pc"
  by (cases pc) auto

lemma producer_knows_tail:
  assumes "producer_knows q pc" and "spsc_inv q" and "q_tail q \<noteq> q_head q"
  shows "producer_knows (q\<lparr>q_tail := spsc_increment q (q_tail q)\<rparr>) pc"
proof -
  have "spsc_increment q (q_head q) \<noteq> spsc_increment q (q_tail q)"
    using assms(2,3) by (auto simp: spsc_increment_def spsc_inv_def Suc_mod_cases split: if_splits)
  with assms(1) show ?thesis
    by (cases pc) (auto simp: spsc_increment_def)
qed

lemma spsc_inv_increment:
  "spsc_inv q \<Longrightarrow> v < length (q_buffer q) \<Longrightarrow> spsc_increment q v < length (q_buffer q)"
  unfolding spsc_increment_def spsc_inv_def by (intro mod_less_divisor) linarith

lemma contents_write_head:
  "spsc_inv q \<Longrightarrow> spsc_contents (q\<lparr>q_buffer := (q_buffer q)[q_head q := x]\<rparr>) = spsc_contents q"
  by (simp add: spsc_contents_def spsc_inv_def)

lemma contents_store_head:
  "spsc_inv q \<Longrightarrow> spsc_increment q (q_head q) \<noteq> q_tail q \<Longrightarrow>
     spsc_contents (q\<lparr>q_head := spsc_increment q (q_head q)\<rparr>)
     = spsc_contents q @ [q_buffer q ! q_head q]"
  by (simp add: spsc_contents_def spsc_inv_def spsc_increment_def ring_advance_head)

lemma contents_store_tail:
  "spsc_inv q \<Longrightarrow> q_tail q \<noteq> q_head q \<Longrightarrow>
     spsc_contents q = q_buffer q ! q_tail q # spsc_contents (q\<lparr>q_tail := spsc_increment q (q_tail q)\<rparr>)"
  by (simp add: spsc_contents_def spsc_inv_def spsc_increment_def ring_advance_tail)

lemma conf_inv_step:
  assumes "spsc_step s t" and "conf_inv capacity s"
  shows "conf_inv capacity t"
  using assms
proof (induction rule: spsc_step.induct)
  case (push_load_head s x)
  then show ?case by (simp add: conf_inv_def)
next
  case (push_full s x h)
  then show ?case
    by (cases "c_cons s") (auto simp: conf_inv_def spsc_inv_def spsc_contents_def)
next
  case (push_room s x h)
  then show ?case by (simp add: conf_inv_def)
next
  case (push_write s x h)
  then show ?case
    by (auto simp: conf_inv_def contents_write_head consumer_knows_write spsc_increment_def)
       (auto simp: spsc_inv_def)
next
  case (push_store_head s x h)
  then show ?case
    by (auto simp: conf_inv_def contents_store_head consumer_knows_head)
       (auto simp: spsc_inv_def spsc_inv_increment)
next
  case (pop_load_tail s)
  then show ?case by (simp add: conf_inv_def)
next
  case (pop_empty s t)
  then show ?case by (simp add: conf_inv_def)
next
  case (pop_nonempty s t)
  then show ?case by (simp add: conf_inv_def)
next
  case (pop_read s t)
  then show ?case by (simp add: conf_inv_def)
next
  case (pop_store_tail s t x)
  then have "spsc_contents (c_queue s) = x # spsc_contents
      ((c_queue s)\<lparr>q_tail := spsc_increment (c_queue s) (q_tail (c_queue s))\<rparr>)"
    by (auto simp: conf_inv_def contents_store_tail)
  with pop_store_tail show ?case
    by (auto simp: conf_inv_def producer_knows_tail)
       (auto simp: spsc_inv_def spsc_inv_increment)
qed

lemma conf_inv_reachable:
  assumes "spsc_reachable capacity x0 s" and "2 \<le> capacity"
  shows "conf_inv capacity s"
  using assms(1)
proof (induction rule: spsc_reachable.induct)
  case reach_init
  show ?case using assms(2) by (rule conf_inv_init)
next
  case (reach_step s t)
  then show ?case by (blast intro: conf_inv_step)
qed

section \<open>Properties\<close>

text \<open>
  C6.  In every interleaving of the atomic accesses of one pushing and one popping thread, the
  items popped so far followed by the items still in the ring are exactly the accepted items in
  push order (nothing is lost, duplicated, reordered or read before it was written), and the ring
  holds at most capacity minus one items.
\<close>

theorem spsc_concurrent_fifo:
  assumes "2 \<le> capacity" and "spsc_reachable capacity x0 s"
  shows "c_accepted s = c_popped s @ spsc_contents (c_queue s)
    \<and> length (spsc_contents (c_queue s)) \<le> capacity - 1"
proof -
  have inv: "conf_inv capacity s" using assms(2,1) by (rule conf_inv_reachable)
  then have "length (spsc_contents (c_queue s)) \<le> spsc_room (c_queue s)"
    by (intro spsc.contents_bound) (simp add: conf_inv_def)
  with inv show ?thesis by (simp add: conf_inv_def spsc_room_def)
qed

text \<open>A run of the two threads up to the publication of the first item.\<close>

lemma spsc_reachable_example:
  "\<exists>s. spsc_reachable 2 (0 :: nat) s \<and> c_accepted s = [7] \<and> c_cons s = C_LoadHead 0"
proof -
  note d = conf_init_def spsc_new_def spsc_increment_def
  have "spsc_reachable 2 0 (conf_init 2 (0 :: nat))" by (rule reach_init)
  then obtain s1 where s1: "spsc_reachable 2 (0 :: nat) s1"
    "s1 = (conf_init 2 0)\<lparr>c_prod := P_LoadTail 7 0\<rparr>"
    using reach_step push_load_head [of "conf_init 2 (0 :: nat)" 7] by (fastforce simp: d)
  then obtain s2 where s2: "spsc_reachable 2 (0 :: nat) s2"
    "s2 = (conf_init 2 0)\<lparr>c_prod := P_LoadTail 7 0, c_cons := C_LoadHead 0\<rparr>"
    using reach_step [OF s1(1)] pop_load_tail [of s1] by (fastforce simp: d)
  then obtain s3 where s3: "spsc_reachable 2 (0 :: nat) s3"
    "s3 = (conf_init 2 0)\<lparr>c_prod := P_WriteSlot 7 0, c_cons := C_LoadHead 0\<rparr>"
    using reach_step [OF s2(1)] push_room [of s2 7 0] by (fastforce simp: d)
  then obtain s4 where s4: "spsc_reachable 2 (0 :: nat) s4"
    "c_prod s4 = P_StoreHead 7 0" "c_accepted s4 = []" "c_cons s4 = C_LoadHead 0"
    using reach_step [OF s3(1) push_write [of s3 7 0]] by (simp add: d)
  show ?thesis
    by (rule exI, rule conjI, rule reach_step [OF s4(1) push_store_head [OF s4(2)]]) (simp add: s4)
qed

theorem spsc_concurrent_fifo_witness:
  "\<exists>s. spsc_reachable 2 (0 :: nat) s \<and> c_accepted s = [7]
     \<and> c_accepted s = c_popped s @ spsc_contents (c_queue s)"
proof -
  obtain s where s: "spsc_reachable 2 (0 :: nat) s" "c_accepted s = [7]"
    using spsc_reachable_example by blast
  have "2 \<le> (2 :: nat)" by simp
  from spsc_concurrent_fifo [OF this s(1)] s show ?thesis by auto
qed

end
