(* ===== verification/Book_Interface.thy ===== *)
theory Book_Interface
  imports Core_Types "HOL-Library.AList" "HOL-Library.Multiset"
begin

text \<open>
  The contract of a keyed collection of quotes, shared by the per-symbol book
  (src/multi_symbol_order_book.cpp) and the per-venue book of the router
  (src/multi_venue_router.cpp): an update is accepted exactly when it is valid; an accepted update
  replaces the entry of its key and no other, a refused one changes nothing.

  Both containers are \<open>std::unordered_map\<close>s.  They are modelled as association lists with
  distinct keys in iteration order; the standard library leaves that order unspecified, so every
  statement about an iteration is proved for all reorderings of the list.
\<close>

lemma dom_alist_update [simp]:
  "dom (map_of (AList.update k v al)) = insert k (dom (map_of al))"
  by (auto simp: update_conv' split: if_splits)

lemma length_distinct_alist:
  assumes "distinct (map fst al)"
  shows "length al = card (dom (map_of al))"
  using distinct_card [OF assms] by (simp add: dom_map_of_conv_image_fst)

text \<open>The quote both books accept: a symbol, two positive prices, not crossed.\<close>

definition valid_quote :: "MarketDataUpdate \<Rightarrow> bool" where
  "valid_quote u \<longleftrightarrow> md_symbol_id u \<noteq> 0 \<and> 0 < sint (md_bid_px u) \<and> 0 < sint (md_ask_px u)
     \<and> sint (md_bid_px u) \<le> sint (md_ask_px u)"

text \<open>Applying a list of updates; the answers of the single calls, then the final book.\<close>

fun run_updates :: "('u \<Rightarrow> 'b \<Rightarrow> bool \<times> 'b) \<Rightarrow> 'u list \<Rightarrow> 'b \<Rightarrow> bool list \<times> 'b" where
  "run_updates upd [] b = ([], b)"
| "run_updates upd (u # us) b =
     (let (ok, b') = upd u b; (oks, r) = run_updates upd us b' in (ok # oks, r))"

locale quote_books =
  fixes upd :: "'u \<Rightarrow> 'b \<Rightarrow> bool \<times> 'b"
    and find :: "'k \<Rightarrow> 'b \<Rightarrow> 'v option"
    and key :: "'u \<Rightarrow> 'k"
    and entry :: "'u \<Rightarrow> 'v"
    and valid :: "'u \<Rightarrow> bool"
  assumes upd_valid: "valid u \<Longrightarrow>
      fst (upd u b) \<and> find k (snd (upd u b)) = (if k = key u then Some (entry u) else find k b)"
    and upd_invalid: "\<not> valid u \<Longrightarrow> upd u b = (False, b)"
begin

lemma upd_accepts_iff: "fst (upd u b) \<longleftrightarrow> valid u"
  using upd_valid upd_invalid by (cases "valid u") auto

lemma find_upd:
  "find k (snd (upd u b)) = (if valid u \<and> k = key u then Some (entry u) else find k b)"
  using upd_valid upd_invalid by (cases "valid u") auto

text \<open>After any updates a key holds its last valid update, or what it held before.\<close>

lemma run_last_valid:
  "find k (snd (run_updates upd us b))
   = (case filter (\<lambda>u. valid u \<and> key u = k) us of
        [] \<Rightarrow> find k b
      | v # vs \<Rightarrow> Some (entry (last (v # vs))))"
proof (induction us arbitrary: b)
  case Nil
  then show ?case by simp
next
  case (Cons u us)
  then show ?case
    by (auto simp: split_beta Let_def find_upd split: list.splits)
qed

lemma run_answers: "fst (run_updates upd us b) = map valid us"
  by (induction us arbitrary: b) (simp_all add: split_beta Let_def upd_accepts_iff)

text \<open>What every valid entry satisfies, every entry of the book satisfies.\<close>

lemma run_entries:
  assumes "\<And>u. valid u \<Longrightarrow> P (key u) (entry u)" and "\<And>k v. find k b = Some v \<Longrightarrow> P k v"
    and "find k (snd (run_updates upd us b)) = Some v"
  shows "P k v"
  using assms(2,3)
proof (induction us arbitrary: b)
  case Nil
  then show ?case by simp
next
  case (Cons u us)
  have "\<And>k v. find k (snd (upd u b)) = Some v \<Longrightarrow> P k v"
    using Cons.prems(1) assms(1) by (auto simp: find_upd split: if_splits)
  with Cons.IH [of "snd (upd u b)"] Cons.prems(2) show ?case
    by (simp add: split_beta Let_def)
qed

end

end
