(* ===== verification/Order_Book.thy ===== *)
theory Order_Book
  imports Book_Interface
begin

text \<open>
  The order books: \<open>TopOfBook\<close> of src/order_book.cpp, which keeps one quote and ignores
  updates that do not advance the exchange sequence, and \<open>MultiSymbolTopOfBook\<close> of
  src/multi_symbol_order_book.cpp, which keeps one validated quote per symbol.
\<close>

section \<open>TopOfBook\<close>

record TopOfBook =
  tob_last :: MarketDataUpdate
  tob_has_value :: bool

definition TopOfBook0 :: TopOfBook where
  "TopOfBook0 = \<lparr>tob_last = MarketDataUpdate0, tob_has_value = False\<rparr>"

definition tob_apply :: "MarketDataUpdate \<Rightarrow> TopOfBook \<Rightarrow> TopOfBook" where
  "tob_apply upd b =
     (if tob_has_value b \<and> md_exchange_sequence upd \<le> md_exchange_sequence (tob_last b) then b
      else b\<lparr>tob_last := upd, tob_has_value := True\<rparr>)"

definition tob_snapshot :: "TopOfBook \<Rightarrow> MarketDataUpdate option" where
  "tob_snapshot b = (if \<not> tob_has_value b then None else Some (tob_last b))"

text \<open>\<open>is_stale\<close> subtracts unsigned timestamps; \<open>now\<close> is the reading of \<open>now_ns()\<close>.\<close>

definition tob_is_stale :: "TimestampNs \<Rightarrow> TimestampNs \<Rightarrow> TopOfBook \<Rightarrow> bool" where
  "tob_is_stale now stale_after b =
     (if \<not> tob_has_value b then True
      else now - hdr_recv_ts_ns (md_header (tob_last b)) > stale_after)"

definition tob_last_exchange_sequence :: "TopOfBook \<Rightarrow> Sequence" where
  "tob_last_exchange_sequence b =
     (if tob_has_value b then md_exchange_sequence (tob_last b) else 0)"

definition tob_run :: "MarketDataUpdate list \<Rightarrow> TopOfBook \<Rightarrow> TopOfBook" where
  "tob_run us b = fold tob_apply us b"

lemma tob_run_snoc: "tob_run (us @ [u]) b = tob_apply u (tob_run us b)"
  by (simp add: tob_run_def)

lemma tob_run_has_value: "tob_has_value (tob_run us TopOfBook0) \<longleftrightarrow> us \<noteq> []"
  by (induction us rule: rev_induct)
     (auto simp: tob_run_snoc tob_apply_def, simp add: tob_run_def TopOfBook0_def)

text \<open>The quote held after a run is one of the updates, and no update is newer.\<close>

lemma tob_run_max:
  "us \<noteq> [] \<Longrightarrow> tob_last (tob_run us TopOfBook0) \<in> set us
     \<and> (\<forall>u\<in>set us. md_exchange_sequence u \<le> md_exchange_sequence (tob_last (tob_run us TopOfBook0)))"
proof (induction us rule: rev_induct)
  case Nil
  then show ?case by simp
next
  case (snoc u us)
  then show ?case
    by (cases "us = []")
       (auto simp: tob_run_snoc tob_apply_def tob_run_has_value,
        simp_all add: tob_run_def TopOfBook0_def tob_apply_def)
qed

text \<open>
  C29.  Out-of-order and duplicated delivery does not matter to the top of book: whenever the
  exchange sequence numbers of the delivered updates are distinct, every order of delivery leaves
  the same quote, and it is the update with the greatest sequence number.
\<close>

theorem tob_order_insensitive:
  assumes "us \<noteq> []" and "inj_on md_exchange_sequence (set us)" and "set vs = set us"
  shows "tob_snapshot (tob_run vs TopOfBook0) = tob_snapshot (tob_run us TopOfBook0)
    \<and> (\<exists>m\<in>set us. tob_snapshot (tob_run us TopOfBook0) = Some m
          \<and> (\<forall>u\<in>set us. md_exchange_sequence u \<le> md_exchange_sequence m))"
proof -
  have vs: "vs \<noteq> []" using assms(1,3) by auto
  note mu = tob_run_max [OF assms(1)] and mv = tob_run_max [OF vs, unfolded assms(3)]
  have "md_exchange_sequence (tob_last (tob_run vs TopOfBook0))
      = md_exchange_sequence (tob_last (tob_run us TopOfBook0))"
    using mu mv by (blast intro: order_antisym)
  then have "tob_last (tob_run vs TopOfBook0) = tob_last (tob_run us TopOfBook0)"
    using inj_onD [OF assms(2)] mu mv by blast
  then show ?thesis
    using mu assms(1) vs by (auto simp: tob_snapshot_def tob_run_has_value)
qed

definition sample_quote :: "Sequence \<Rightarrow> Price \<Rightarrow> Price \<Rightarrow> MarketDataUpdate" where
  "sample_quote s bid ask = MarketDataUpdate0\<lparr>md_symbol_id := 1, md_bid_px := bid,
     md_ask_px := ask, md_exchange_sequence := s\<rparr>"

theorem tob_order_insensitive_witness:
  "tob_snapshot (tob_run [sample_quote 9 100 105, sample_quote 7 90 95] TopOfBook0)
   = tob_snapshot (tob_run [sample_quote 7 90 95, sample_quote 9 100 105, sample_quote 7 90 95]
       TopOfBook0)"
proof -
  have "inj_on md_exchange_sequence
      (set [sample_quote 7 90 95, sample_quote 9 100 105, sample_quote 7 90 95])"
    by (auto simp: inj_on_def sample_quote_def)
  then show ?thesis
    using tob_order_insensitive [of "[sample_quote 7 90 95, sample_quote 9 100 105, sample_quote 7 90 95]"
        "[sample_quote 9 100 105, sample_quote 7 90 95]"]
    by auto
qed

text \<open>
  Staleness is measured on unsigned nanoseconds: with a quote that was received at or before
  the clock reading, the book is stale exactly when the quote's age exceeds the limit; a quote
  stamped in the future wraps around and is stale for every limit below the wrapped age; an empty
  book is always stale.
\<close>

theorem tob_stale_iff:
  "tob_is_stale now limit b =
     (if tob_has_value b
      then let recv = hdr_recv_ts_ns (md_header (tob_last b))
           in if recv \<le> now then unat limit < unat now - unat recv
              else unat limit < 2 ^ 64 - (unat recv - unat now)
      else True)"
proof -
  have "unat (now - r) = (if r \<le> now then unat now - unat r else 2 ^ 64 - (unat r - unat now))"
    for r :: TimestampNs
    using unsigned_less [of r, where ?'a = nat]
    by (auto simp: unat_sub_if' word_le_nat_alt)
  then show ?thesis
    by (simp add: tob_is_stale_def word_less_nat_alt Let_def)
qed

section \<open>MultiSymbolTopOfBook\<close>

record SymbolBookSnapshot =
  sbs_symbol_id :: SymbolId
  sbs_symbol :: Symbol
  sbs_bid_px :: Price
  sbs_bid_qty :: Quantity
  sbs_ask_px :: Price
  sbs_ask_qty :: Quantity
  sbs_exchange_sequence :: Sequence
  sbs_recv_ts_ns :: TimestampNs

type_synonym MultiSymbolTopOfBook = "(SymbolId \<times> SymbolBookSnapshot) list"

definition SymbolBookSnapshot0 :: SymbolBookSnapshot where
  "SymbolBookSnapshot0 = \<lparr>sbs_symbol_id = 0, sbs_symbol = Symbol_default, sbs_bid_px = 0,
     sbs_bid_qty = 0, sbs_ask_px = 0, sbs_ask_qty = 0, sbs_exchange_sequence = 0,
     sbs_recv_ts_ns = 0\<rparr>"

text \<open>
  \<open>books_[id]\<close> creates a default entry when there is none; the assignments then overwrite all of
  its members.
\<close>

definition ms_apply :: "MarketDataUpdate \<Rightarrow> MultiSymbolTopOfBook \<Rightarrow> bool \<times> MultiSymbolTopOfBook" where
  "ms_apply upd books =
     (if md_symbol_id upd = 0 then (False, books)
      else if sint (md_bid_px upd) \<le> 0 \<or> sint (md_ask_px upd) \<le> 0 then (False, books)
      else if sint (md_bid_px upd) > sint (md_ask_px upd) then (False, books)
      else
        let book = (case map_of books (md_symbol_id upd) of
                      Some bk \<Rightarrow> bk | None \<Rightarrow> SymbolBookSnapshot0);
            book' = book\<lparr>sbs_symbol_id := md_symbol_id upd, sbs_symbol := md_symbol upd,
                         sbs_bid_px := md_bid_px upd, sbs_bid_qty := md_bid_qty upd,
                         sbs_ask_px := md_ask_px upd, sbs_ask_qty := md_ask_qty upd,
                         sbs_exchange_sequence := md_exchange_sequence upd,
                         sbs_recv_ts_ns := hdr_recv_ts_ns (md_header upd)\<rparr>
        in (True, AList.update (md_symbol_id upd) book' books))"

definition ms_snapshot :: "SymbolId \<Rightarrow> MultiSymbolTopOfBook \<Rightarrow> SymbolBookSnapshot option" where
  "ms_snapshot sid books = map_of books sid"

definition ms_snapshots :: "MultiSymbolTopOfBook \<Rightarrow> SymbolBookSnapshot list" where
  "ms_snapshots books = map snd books"

definition ms_symbol_count :: "MultiSymbolTopOfBook \<Rightarrow> nat" where
  "ms_symbol_count books = length books"

definition ms_clear :: "MultiSymbolTopOfBook \<Rightarrow> MultiSymbolTopOfBook" where
  "ms_clear books = []"

definition ms_entry :: "MarketDataUpdate \<Rightarrow> SymbolBookSnapshot" where
  "ms_entry upd = \<lparr>sbs_symbol_id = md_symbol_id upd, sbs_symbol = md_symbol upd,
     sbs_bid_px = md_bid_px upd, sbs_bid_qty = md_bid_qty upd,
     sbs_ask_px = md_ask_px upd, sbs_ask_qty = md_ask_qty upd,
     sbs_exchange_sequence = md_exchange_sequence upd,
     sbs_recv_ts_ns = hdr_recv_ts_ns (md_header upd)\<rparr>"

lemma ms_apply_eq:
  "ms_apply upd books =
     (if valid_quote upd then (True, AList.update (md_symbol_id upd) (ms_entry upd) books)
      else (False, books))"
proof -
  have "bk\<lparr>sbs_symbol_id := md_symbol_id upd, sbs_symbol := md_symbol upd,
           sbs_bid_px := md_bid_px upd, sbs_bid_qty := md_bid_qty upd,
           sbs_ask_px := md_ask_px upd, sbs_ask_qty := md_ask_qty upd,
           sbs_exchange_sequence := md_exchange_sequence upd,
           sbs_recv_ts_ns := hdr_recv_ts_ns (md_header upd)\<rparr> = ms_entry upd" for bk
    by (cases bk) (simp add: ms_entry_def)
  then show ?thesis
    by (auto simp: ms_apply_def valid_quote_def Let_def not_less not_le)
qed

interpretation msbook: quote_books ms_apply ms_snapshot md_symbol_id ms_entry valid_quote
  by unfold_locales (auto simp: ms_apply_eq ms_snapshot_def update_conv')

lemma ms_run_distinct:
  "distinct (map fst b) \<Longrightarrow> distinct (map fst (snd (run_updates ms_apply us b)))"
  by (induction us arbitrary: b)
     (auto simp: split_beta Let_def ms_apply_eq intro: distinct_update)

lemma ms_run_keys:
  "dom (map_of (snd (run_updates ms_apply us b)))
   = dom (map_of b) \<union> md_symbol_id ` {u \<in> set us. valid_quote u}"
proof (induction us arbitrary: b)
  case Nil
  then show ?case by simp
next
  case (Cons u us)
  have "{x. (x = u \<or> x \<in> set us) \<and> valid_quote x}
      = (if valid_quote u then {u} else {}) \<union> {x \<in> set us. valid_quote x}" by auto
  with Cons show ?case
    by (simp add: split_beta Let_def ms_apply_eq)
qed

text \<open>
  C30.  The per-symbol book after any run of updates: each symbol holds its last valid update (not
  the one with the greatest exchange sequence), every stored quote belongs to its key and is
  positive and uncrossed, and the symbol count is the number of distinct symbols with a valid
  update.
\<close>

theorem ms_run_correct:
  "(let r = snd (run_updates ms_apply us [])
    in ms_snapshot sid r =
         (case filter (\<lambda>u. valid_quote u \<and> md_symbol_id u = sid) us of
            [] \<Rightarrow> None | v # vs \<Rightarrow> Some (ms_entry (last (v # vs))))
     \<and> (\<forall>s. ms_snapshot sid r = Some s \<longrightarrow> sbs_symbol_id s = sid \<and> 0 < sint (sbs_bid_px s)
           \<and> sint (sbs_bid_px s) \<le> sint (sbs_ask_px s))
     \<and> ms_symbol_count r = card (md_symbol_id ` {u \<in> set us. valid_quote u}))"
proof -
  let ?r = "snd (run_updates ms_apply us [])"
  have empty: "ms_snapshot sid [] = None" by (simp add: ms_snapshot_def)
  have last: "ms_snapshot sid ?r =
      (case filter (\<lambda>u. valid_quote u \<and> md_symbol_id u = sid) us of
         [] \<Rightarrow> None | v # vs \<Rightarrow> Some (ms_entry (last (v # vs))))"
    using msbook.run_last_valid [of sid us "[]"] by (simp only: empty)
  have entry: "sbs_symbol_id s = sid \<and> 0 < sint (sbs_bid_px s) \<and> sint (sbs_bid_px s) \<le> sint (sbs_ask_px s)"
    if "ms_snapshot sid ?r = Some s" for s
    by (rule msbook.run_entries [OF _ _ that, where P = "\<lambda>k v. sbs_symbol_id v = k
          \<and> 0 < sint (sbs_bid_px v) \<and> sint (sbs_bid_px v) \<le> sint (sbs_ask_px v)"])
       (auto simp: valid_quote_def ms_entry_def ms_snapshot_def)
  have "distinct (map fst ?r)" by (rule ms_run_distinct) simp
  then have "ms_symbol_count ?r = card (dom (map_of ?r))"
    by (simp add: ms_symbol_count_def length_distinct_alist)
  then have "ms_symbol_count ?r = card (md_symbol_id ` {u \<in> set us. valid_quote u})"
    by (simp add: ms_run_keys)
  with last entry show ?thesis by (simp add: Let_def)
qed

theorem ms_run_correct_witness:
  "ms_snapshot 1 (snd (run_updates ms_apply [sample_quote 9 100 105, sample_quote 7 90 95] []))
     = Some (ms_entry (sample_quote 7 90 95))
   \<and> sint (sbs_bid_px (ms_entry (sample_quote 7 90 95)))
       \<le> sint (sbs_ask_px (ms_entry (sample_quote 7 90 95)))"
  using ms_run_correct [of "[sample_quote 9 100 105, sample_quote 7 90 95]" 1]
  by (simp add: Let_def valid_quote_def sample_quote_def)

end
