(* ===== verification/Risk_Engine.thy ===== *)
theory Risk_Engine
  imports Core_Types
begin

text \<open>
  The pre-trade risk checks of src/risk.cpp.  The engine's 64-bit arithmetic is kept at its width;
  \<open>risk_spec\<close> is what the checks are meant to enforce, over unbounded integers, and the lemmas say
  when the two agree and what an overflow of the notional lets through.
\<close>

record RiskLimits =
  lim_max_position :: Quantity
  lim_max_order_qty :: Quantity
  lim_max_notional :: Price

definition RiskLimits0 :: RiskLimits where
  "RiskLimits0 = \<lparr>lim_max_position = 100, lim_max_order_qty = 10, lim_max_notional = 1000000\<rparr>"

record RiskEngine =
  rk_limits :: RiskLimits
  rk_position :: Quantity

definition risk_new :: "RiskLimits \<Rightarrow> RiskEngine" where
  "risk_new limits = \<lparr>rk_limits = limits, rk_position = 0\<rparr>"

definition signed_qty :: "Side \<Rightarrow> Quantity \<Rightarrow> Quantity" where
  "signed_qty side qty = (if side = Buy then qty else - qty)"

definition risk_check :: "RiskEngine \<Rightarrow> NewOrder \<Rightarrow> RejectReason" where
  "risk_check rk ord =
     (if sint (ord_qty ord) \<le> 0 \<or> sint (ord_qty ord) > sint (lim_max_order_qty (rk_limits rk))
      then RR_RiskLimit
      else
        let notional = ord_qty ord * ord_limit_px ord
        in if sint notional > sint (lim_max_notional (rk_limits rk)) then RR_RiskLimit
           else
             let projected = rk_position rk + signed_qty (ord_side ord) (ord_qty ord)
             in if sint (llabs projected) > sint (lim_max_position (rk_limits rk))
                then RR_RiskLimit
                else RR_None)"

definition risk_on_fill :: "Fill \<Rightarrow> Side \<Rightarrow> RiskEngine \<Rightarrow> RiskEngine" where
  "risk_on_fill fill side rk =
     rk\<lparr>rk_position := rk_position rk + signed_qty side (fill_qty fill)\<rparr>"

definition risk_position :: "RiskEngine \<Rightarrow> Quantity" where
  "risk_position rk = rk_position rk"

section \<open>The intended limits\<close>

definition signed_amount :: "Side \<Rightarrow> int \<Rightarrow> int" where
  "signed_amount side q = (if side = Buy then q else - q)"

definition risk_spec :: "RiskLimits \<Rightarrow> int \<Rightarrow> Side \<Rightarrow> int \<Rightarrow> int \<Rightarrow> bool" where
  "risk_spec lim pos side px qty \<longleftrightarrow>
     0 < qty \<and> qty \<le> sint (lim_max_order_qty lim)
     \<and> qty * px \<le> sint (lim_max_notional lim)
     \<and> \<bar>pos + signed_amount side qty\<bar> \<le> sint (lim_max_position lim)"

text \<open>
  The arithmetic of a check is defined in C++ exactly when the product, the sum and the absolute
  value are representable.
\<close>

definition risk_arith_defined :: "RiskEngine \<Rightarrow> NewOrder \<Rightarrow> bool" where
  "risk_arith_defined rk ord \<longleftrightarrow>
     s64_fits (sint (ord_qty ord) * sint (ord_limit_px ord))
     \<and> s64_fits (sint (rk_position rk) + signed_amount (ord_side ord) (sint (ord_qty ord)))
     \<and> sint (rk_position rk) + signed_amount (ord_side ord) (sint (ord_qty ord)) \<noteq> - (2 ^ 63)"

lemma risk_check_cases: "risk_check rk ord = RR_None \<or> risk_check rk ord = RR_RiskLimit"
  by (simp add: risk_check_def Let_def)

lemma sint_signed_qty:
  "0 < sint q \<Longrightarrow> sint (signed_qty side q) = signed_amount side (sint q)"
  using s64_sint_bounds [of q]
  by (simp add: signed_qty_def signed_amount_def sint_minus_fits s64_fits_def)

text \<open>
  C25.  Where its arithmetic does not overflow, the risk check accepts an order exactly when the
  order is positive, within the order size, within the notional limit, and the position it would
  lead to is within the position limit; it answers nothing but None or RiskLimit.
\<close>

theorem risk_check_exact:
  assumes "risk_arith_defined rk ord"
  shows "risk_check rk ord =
    (if risk_spec (rk_limits rk) (sint (rk_position rk)) (ord_side ord) (sint (ord_limit_px ord))
          (sint (ord_qty ord))
     then RR_None else RR_RiskLimit)"
proof (cases "0 < sint (ord_qty ord)")
  case False
  then show ?thesis by (simp add: risk_check_def risk_spec_def)
next
  case True
  let ?proj = "rk_position rk + signed_qty (ord_side ord) (ord_qty ord)"
  have mult: "sint (ord_qty ord * ord_limit_px ord) = sint (ord_qty ord) * sint (ord_limit_px ord)"
    using assms by (simp add: risk_arith_defined_def sint_mult_fits)
  have proj: "sint ?proj = sint (rk_position rk) + signed_amount (ord_side ord) (sint (ord_qty ord))"
    using assms True by (simp add: risk_arith_defined_def sint_add_fits sint_signed_qty)
  then have "sint (llabs ?proj)
      = \<bar>sint (rk_position rk) + signed_amount (ord_side ord) (sint (ord_qty ord))\<bar>"
    using assms by (simp add: sint_llabs risk_arith_defined_def)
  with True mult show ?thesis
    by (auto simp: risk_check_def risk_spec_def Let_def)
qed

definition sample_order :: "Side \<Rightarrow> Price \<Rightarrow> Quantity \<Rightarrow> NewOrder" where
  "sample_order side px q = NewOrder0\<lparr>ord_side := side, ord_limit_px := px, ord_qty := q\<rparr>"

theorem risk_check_exact_witness:
  "risk_arith_defined (risk_new RiskLimits0) (sample_order Sell 10025 7)
   \<and> risk_check (risk_new RiskLimits0) (sample_order Sell 10025 7) = RR_None"
proof -
  have defined: "risk_arith_defined (risk_new RiskLimits0) (sample_order Sell 10025 7)"
    by (simp add: risk_arith_defined_def sample_order_def risk_new_def s64_fits_def
        signed_amount_def)
  have "risk_spec RiskLimits0 0 Sell 10025 7"
    by (simp add: risk_spec_def RiskLimits0_def signed_amount_def)
  with risk_check_exact [OF defined] defined show ?thesis
    by (simp add: sample_order_def risk_new_def)
qed



text \<open>Within these bounds on price and position no overflow can happen.\<close>

lemma risk_arith_defined_bounds:
  assumes "\<bar>sint (ord_qty ord)\<bar> \<le> 1000000" and "\<bar>sint (ord_limit_px ord)\<bar> \<le> 1000000000000"
    and "\<bar>sint (rk_position rk)\<bar> \<le> 1000000000000"
  shows "risk_arith_defined rk ord"
proof -
  have "\<bar>sint (ord_qty ord) * sint (ord_limit_px ord)\<bar> \<le> 1000000 * 1000000000000"
    using assms(1,2) by (simp only: abs_mult) (intro mult_mono; simp)
  with assms show ?thesis
    by (auto simp: risk_arith_defined_def s64_fits_def signed_amount_def)
qed

text \<open>Fills move the position by the signed fill quantity.\<close>

lemma risk_on_fill_position:
  "s64_fits (sint (rk_position rk) + signed_amount side (sint (fill_qty f))) \<Longrightarrow>
   0 < sint (fill_qty f) \<Longrightarrow>
   sint (risk_position (risk_on_fill f side rk))
     = sint (risk_position rk) + signed_amount side (sint (fill_qty f))"
  by (simp add: risk_position_def risk_on_fill_def sint_add_fits sint_signed_qty)

end
