(* ===== verification/Order_Manager.thy ===== *)
theory Order_Manager
  imports Risk_Engine
begin

text \<open>
  The order manager of src/oms.cpp: it numbers every signal, risk-checks the order it makes of it,
  and keeps the identifiers of the orders it let through.  \<open>t1\<close> and \<open>t2\<close> are the clock readings of
  a call, in the order of the code.
\<close>

record OrderManager =
  om_node_id :: NodeId
  om_risk :: RiskEngine
  om_next_client_order_id :: ClientOrderId
  om_sequence :: Sequence
  om_live_orders :: "ClientOrderId set"

definition oms_new :: "NodeId \<Rightarrow> RiskLimits \<Rightarrow> OrderManager" where
  "oms_new node_id limits = \<lparr>om_node_id = node_id, om_risk = risk_new limits,
     om_next_client_order_id = 1, om_sequence = 0, om_live_orders = {}\<rparr>"

definition oms_make_order :: "TimestampNs \<Rightarrow> Signal \<Rightarrow> OrderManager \<Rightarrow> NewOrder" where
  "oms_make_order t1 s om =
     NewOrder0\<lparr>ord_header := MessageHeader0\<lparr>hdr_type := MT_NewOrder,
                 hdr_source_node := om_node_id om, hdr_destination_node := 4,
                 hdr_sequence := om_sequence om + 1, hdr_send_ts_ns := t1\<rparr>,
               ord_client_order_id := om_next_client_order_id om,
               ord_symbol_id := sig_symbol_id s, ord_side := sig_side s,
               ord_limit_px := sig_limit_px s, ord_qty := sig_qty s\<rparr>"

definition oms_on_signal ::
  "TimestampNs \<Rightarrow> TimestampNs \<Rightarrow> Signal \<Rightarrow> OrderManager \<Rightarrow> Envelope option \<times> OrderManager" where
  "oms_on_signal t1 t2 s om =
     (let order = oms_make_order t1 s om;
          om1 = om\<lparr>om_sequence := om_sequence om + 1,
                   om_next_client_order_id := om_next_client_order_id om + 1\<rparr>;
          reject_reason = risk_check (om_risk om1) order
      in if reject_reason \<noteq> RR_None
         then
           let om2 = om1\<lparr>om_sequence := om_sequence om1 + 1\<rparr>;
               reject = Reject0\<lparr>rej_header := MessageHeader0\<lparr>hdr_type := MT_Reject,
                                  hdr_source_node := om_node_id om,
                                  hdr_destination_node := hdr_source_node (sig_header s),
                                  hdr_sequence := om_sequence om2, hdr_send_ts_ns := t2\<rparr>,
                                rej_client_order_id := ord_client_order_id order,
                                rej_reason := reject_reason\<rparr>
           in (Some (reject_env reject), om2)
         else
           (Some (new_order_env order),
            om1\<lparr>om_live_orders := insert (ord_client_order_id order) (om_live_orders om1)\<rparr>))"

definition oms_on_gateway_ack :: "Ack \<Rightarrow> OrderManager \<Rightarrow> Envelope option \<times> OrderManager" where
  "oms_on_gateway_ack a om = (Some (ack_env a), om)"

definition oms_on_gateway_reject :: "Reject \<Rightarrow> OrderManager \<Rightarrow> Envelope option \<times> OrderManager" where
  "oms_on_gateway_reject r om =
     (Some (reject_env r), om\<lparr>om_live_orders := om_live_orders om - {rej_client_order_id r}\<rparr>)"

section \<open>Histories of calls\<close>

datatype oms_event =
    EvSignal TimestampNs TimestampNs Signal
  | EvAck Ack
  | EvReject Reject

fun oms_step :: "oms_event \<Rightarrow> OrderManager \<Rightarrow> Envelope option \<times> OrderManager" where
  "oms_step (EvSignal t1 t2 s) om = oms_on_signal t1 t2 s om"
| "oms_step (EvAck a) om = oms_on_gateway_ack a om"
| "oms_step (EvReject r) om = oms_on_gateway_reject r om"

fun oms_run :: "oms_event list \<Rightarrow> OrderManager \<Rightarrow> Envelope option list \<times> OrderManager" where
  "oms_run [] om = ([], om)"
| "oms_run (ev # evs) om =
     (let (out, om') = oms_step ev om; (outs, r) = oms_run evs om' in (out # outs, r))"

fun is_signal :: "oms_event \<Rightarrow> bool" where
  "is_signal (EvSignal _ _ _) = True"
| "is_signal _ = False"

text \<open>The client order identifier a message answers for.\<close>

fun payload_client_id :: "Payload \<Rightarrow> ClientOrderId option" where
  "payload_client_id (P_NewOrder ord) = Some (ord_client_order_id ord)"
| "payload_client_id (P_Ack a) = Some (ack_client_order_id a)"
| "payload_client_id (P_Reject r) = Some (rej_client_order_id r)"
| "payload_client_id (P_Fill f) = Some (fill_client_order_id f)"
| "payload_client_id _ = None"

text \<open>The identifiers assigned to the signals of a history, in order.\<close>

fun assigned_ids :: "oms_event list \<Rightarrow> Envelope option list \<Rightarrow> ClientOrderId list" where
  "assigned_ids (ev # evs) (Some e # outs) =
     (if is_signal ev then case_option [] (\<lambda>i. [i]) (payload_client_id (env_payload e)) else [])
     @ assigned_ids evs outs"
| "assigned_ids (ev # evs) (None # outs) = assigned_ids evs outs"
| "assigned_ids _ _ = []"

lemma oms_on_signal_cases:
  obtains (accepted) ord where
    "risk_check (om_risk om) (oms_make_order t1 s om) = RR_None"
    "ord = oms_make_order t1 s om"
    "oms_on_signal t1 t2 s om = (Some (new_order_env ord),
       om\<lparr>om_sequence := om_sequence om + 1,
          om_next_client_order_id := om_next_client_order_id om + 1,
          om_live_orders := insert (om_next_client_order_id om) (om_live_orders om)\<rparr>)"
  | (rejected) r where
    "risk_check (om_risk om) (oms_make_order t1 s om) = RR_RiskLimit"
    "rej_client_order_id r = om_next_client_order_id om" "rej_reason r = RR_RiskLimit"
    "oms_on_signal t1 t2 s om = (Some (reject_env r),
       om\<lparr>om_sequence := om_sequence om + 2,
          om_next_client_order_id := om_next_client_order_id om + 1\<rparr>)"
proof (cases "risk_check (om_risk om) (oms_make_order t1 s om) = RR_None")
  case True
  with accepted show ?thesis
    by (simp add: oms_on_signal_def Let_def oms_make_order_def)
next
  case False
  with risk_check_cases have "risk_check (om_risk om) (oms_make_order t1 s om) = RR_RiskLimit"
    by blast
  then show ?thesis
    using rejected [of "Reject0\<lparr>rej_header := MessageHeader0\<lparr>hdr_type := MT_Reject,
        hdr_source_node := om_node_id om, hdr_destination_node := hdr_source_node (sig_header s),
        hdr_sequence := om_sequence om + 2, hdr_send_ts_ns := t2\<rparr>,
        rej_client_order_id := om_next_client_order_id om, rej_reason := RR_RiskLimit\<rparr>"]
    by (simp add: oms_on_signal_def Let_def oms_make_order_def)
qed

text \<open>Frame facts of a step: the risk engine never changes.\<close>

lemma oms_step_risk: "om_risk (snd (oms_step ev om)) = om_risk om"
proof (cases ev)
  case (EvSignal t1 t2 s)
  then show ?thesis by (cases rule: oms_on_signal_cases [where om = om and ?t1.0 = t1 and ?t2.0 = t2 and s = s]) simp_all
qed (simp_all add: oms_on_gateway_ack_def oms_on_gateway_reject_def)

lemma oms_step_next_id:
  "om_next_client_order_id (snd (oms_step ev om))
   = om_next_client_order_id om + (if is_signal ev then 1 else 0)"
proof (cases ev)
  case (EvSignal t1 t2 s)
  then show ?thesis by (cases rule: oms_on_signal_cases [where om = om and ?t1.0 = t1 and ?t2.0 = t2 and s = s]) simp_all
qed (simp_all add: oms_on_gateway_ack_def oms_on_gateway_reject_def)

lemma oms_step_assigned:
  "assigned_ids (ev # evs) (fst (oms_step ev om) # outs)
   = (if is_signal ev then [om_next_client_order_id om] else []) @ assigned_ids evs outs"
proof (cases ev)
  case (EvSignal t1 t2 s)
  then show ?thesis
    by (cases rule: oms_on_signal_cases [where om = om and ?t1.0 = t1 and ?t2.0 = t2 and s = s])
       (simp_all add: oms_make_order_def)
qed (simp_all add: oms_on_gateway_ack_def oms_on_gateway_reject_def)

lemma oms_run_Cons:
  "oms_run (ev # evs) om =
     (fst (oms_step ev om) # fst (oms_run evs (snd (oms_step ev om))),
      snd (oms_run evs (snd (oms_step ev om))))"
  by (simp add: split_beta Let_def)

declare oms_run.simps(2) [simp del]

lemma oms_run_risk: "om_risk (snd (oms_run evs om)) = om_risk om"
  by (induction evs arbitrary: om) (simp_all add: oms_run_Cons oms_step_risk)

lemma oms_run_next_id:
  "om_next_client_order_id (snd (oms_run evs om))
   = om_next_client_order_id om + of_nat (length (filter is_signal evs))"
  by (induction evs arbitrary: om) (simp_all add: oms_run_Cons oms_step_next_id)

lemma oms_run_assigned:
  "assigned_ids evs (fst (oms_run evs om))
   = map (\<lambda>i. om_next_client_order_id om + of_nat i) [0..<length (filter is_signal evs)]"
proof (induction evs arbitrary: om)
  case Nil
  then show ?case by simp
next
  case (Cons ev evs)
  then show ?case
    by (simp add: oms_run_Cons oms_step_assigned oms_step_next_id map_of_nat_shift upt_conv_Cons
        del: upt_Suc)
qed

section \<open>Properties\<close>

text \<open>
  Order identifiers are unique: over any history of signals, acknowledgements and rejects with
  fewer than 2 to the power 64 minus 1 signals, the identifiers the manager assigns are 1, 2, 3 and
  so on in the order of the signals, whether an order is accepted or refused.
\<close>

theorem oms_ids_sequential:
  assumes "length (filter is_signal evs) < 2 ^ 64 - 1"
  shows "map unat (assigned_ids evs (fst (oms_run evs (oms_new node limits))))
      = [1..<Suc (length (filter is_signal evs))]
    \<and> distinct (assigned_ids evs (fst (oms_run evs (oms_new node limits))))"
proof -
  let ?n = "length (filter is_signal evs)"
  have "unat (1 + of_nat i :: u64) = Suc i" if "i < ?n" for i
  proof -
    have "unat (of_nat (Suc i) :: u64) = Suc i mod 2 ^ 64" by (simp only: unat_of_nat) simp
    also have "\<dots> = Suc i" using that assms by (intro mod_less) simp
    finally show ?thesis by simp
  qed
  then have ids: "map unat (assigned_ids evs (fst (oms_run evs (oms_new node limits))))
      = map Suc [0..<?n]"
    by (simp add: oms_run_assigned oms_new_def)
  also have "\<dots> = [1..<Suc ?n]" by (simp add: map_Suc_upt)
  finally show ?thesis using distinct_map by (metis distinct_upt)
qed

definition sample_signal :: "Side \<Rightarrow> Price \<Rightarrow> Quantity \<Rightarrow> Signal" where
  "sample_signal side px q = Signal0\<lparr>sig_side := side, sig_limit_px := px, sig_qty := q\<rparr>"

theorem oms_ids_sequential_witness:
  "map unat (assigned_ids [EvSignal 5 6 (sample_signal Buy 100 1), EvSignal 7 8 (sample_signal Sell 100 50)]
     (fst (oms_run [EvSignal 5 6 (sample_signal Buy 100 1), EvSignal 7 8 (sample_signal Sell 100 50)]
        (oms_new 3 RiskLimits0)))) = [1, 2]"
  using oms_ids_sequential [of "[EvSignal 5 6 (sample_signal Buy 100 1),
      EvSignal 7 8 (sample_signal Sell 100 50)]" 3 RiskLimits0]
  by (simp add: upt_rec)

text \<open>
  The orders of a history that left the manager (the NewOrder envelopes it returned).
\<close>

definition released_orders :: "Envelope option list \<Rightarrow> NewOrder list" where
  "released_orders outs =
     List.map_filter (\<lambda>out. Option.bind out (\<lambda>e. payload_new_order (env_payload e))) outs"

lemma released_orders_simps [simp]:
  "released_orders [] = []"
  "released_orders (Some (new_order_env ord) # outs) = ord # released_orders outs"
  "released_orders (Some (reject_env r) # outs) = released_orders outs"
  "released_orders (Some (ack_env a) # outs) = released_orders outs"
  by (simp_all add: released_orders_def map_filter_simps)

lemma oms_step_released:
  "released_orders (fst (oms_step ev om) # outs) = released_orders outs
   \<or> (\<exists>ord. released_orders (fst (oms_step ev om) # outs) = ord # released_orders outs
        \<and> risk_check (om_risk om) ord = RR_None)"
proof (cases ev)
  case (EvSignal t1 t2 s)
  then show ?thesis
    by (cases rule: oms_on_signal_cases [where om = om and ?t1.0 = t1 and ?t2.0 = t2 and s = s]) simp_all
qed (simp_all add: oms_on_gateway_ack_def oms_on_gateway_reject_def)

lemma oms_run_released:
  "ord \<in> set (released_orders (fst (oms_run evs om))) \<Longrightarrow> risk_check (om_risk om) ord = RR_None"
proof (induction evs arbitrary: om)
  case Nil
  then show ?case by simp
next
  case (Cons ev evs)
  let ?om = "snd (oms_step ev om)"
  have "risk_check (om_risk om) ord = RR_None"
    if "ord \<in> set (released_orders (fst (oms_run evs ?om)))"
    using Cons.IH [OF that] by (simp add: oms_step_risk)
  with Cons.prems oms_step_released [of ev om "fst (oms_run evs ?om)"]
  show ?case by (auto simp: oms_run_Cons)
qed



text \<open>
  The position limit never accumulates: no operation of the manager reports a fill to its
  risk engine, so after any history the engine's position is still flat, and a one-lot order the
  manager accepted at the start is accepted again however many orders went out before.
\<close>

lemma oms_position_never_moves:
  "risk_position (om_risk (snd (oms_run evs (oms_new node limits)))) = 0
   \<and> risk_check (om_risk (snd (oms_run evs (oms_new node limits)))) ord
     = risk_check (om_risk (oms_new node limits)) ord"
  by (simp add: oms_run_risk risk_position_def oms_new_def risk_new_def)

section \<open>Refinement: the order ledger\<close>

text \<open>
  What the live-order set promises, as a ledger: each assigned identifier is outstanding, was
  refused by the risk check, or was rejected by the gateway.  Acknowledgements leave an order
  outstanding.
\<close>

datatype order_status = Outstanding | Refused | GatewayRejected

type_synonym ledger = "ClientOrderId \<rightharpoonup> order_status"

fun ledger_step :: "oms_event \<Rightarrow> Envelope option \<Rightarrow> ledger \<Rightarrow> ledger" where
  "ledger_step (EvSignal _ _ _) (Some e) l =
     (case env_payload e of
        P_NewOrder ord \<Rightarrow> l(ord_client_order_id ord \<mapsto> Outstanding)
      | P_Reject r \<Rightarrow> l(rej_client_order_id r \<mapsto> Refused)
      | _ \<Rightarrow> l)"
| "ledger_step (EvReject r) _ l =
     (if l (rej_client_order_id r) = Some Outstanding
      then l(rej_client_order_id r \<mapsto> GatewayRejected) else l)"
| "ledger_step _ _ l = l"

fun ledger_run :: "oms_event list \<Rightarrow> Envelope option list \<Rightarrow> ledger \<Rightarrow> ledger" where
  "ledger_run (ev # evs) (out # outs) l = ledger_run evs outs (ledger_step ev out l)"
| "ledger_run _ _ l = l"

definition ledger_rel :: "OrderManager \<Rightarrow> ledger \<Rightarrow> bool" where
  "ledger_rel om l \<longleftrightarrow>
     om_live_orders om = {i. l i = Some Outstanding}
     \<and> (\<forall>i. l i \<noteq> None \<longrightarrow> unat i < unat (om_next_client_order_id om))"

lemma ledger_rel_step:
  assumes rel: "ledger_rel om l" and small: "unat (om_next_client_order_id om) < 2 ^ 64 - 1"
  shows "ledger_rel (snd (oms_step ev om)) (ledger_step ev (fst (oms_step ev om)) l)"
proof (cases ev)
  case (EvSignal t1 t2 s)
  let ?n = "om_next_client_order_id om"
  have fresh: "l ?n = None" using rel by (auto simp: ledger_rel_def)
  have bound: "unat i < unat (?n + 1)" if "i = ?n \<or> l i \<noteq> None" for i
    using that rel small by (auto simp: ledger_rel_def unat_plus_one_u64 less_Suc_eq)
  show ?thesis
  proof (cases rule: oms_on_signal_cases [where om = om and ?t1.0 = t1 and ?t2.0 = t2 and s = s])
    case (accepted ord)
    then have "ord_client_order_id ord = ?n" by (simp add: oms_make_order_def)
    with accepted EvSignal rel fresh bound show ?thesis
      by (auto simp: ledger_rel_def)
  next
    case (rejected r)
    with EvSignal rel fresh bound show ?thesis
      by (auto simp: ledger_rel_def)
  qed
next
  case (EvAck a)
  with rel show ?thesis by (simp add: oms_on_gateway_ack_def)
next
  case (EvReject r)
  with rel show ?thesis by (auto simp: oms_on_gateway_reject_def ledger_rel_def)
qed

lemma ledger_rel_run:
  "ledger_rel om l \<Longrightarrow>
   unat (om_next_client_order_id om) + length (filter is_signal evs) < 2 ^ 64 \<Longrightarrow>
   ledger_rel (snd (oms_run evs om)) (ledger_run evs (fst (oms_run evs om)) l)"
proof (induction evs arbitrary: om l)
  case Nil
  then show ?case by simp
next
  case (Cons ev evs)
  let ?om = "snd (oms_step ev om)" and ?l = "ledger_step ev (fst (oms_step ev om)) l"
  show ?case
  proof (cases "is_signal ev")
    case True
    then have small: "unat (om_next_client_order_id om) < 2 ^ 64 - 1"
      using Cons.prems(2) by simp
    then have "unat (om_next_client_order_id ?om) + length (filter is_signal evs) < 2 ^ 64"
      using Cons.prems(2) True by (simp add: oms_step_next_id unat_plus_one_u64)
    with Cons.IH [of ?om ?l] ledger_rel_step [OF Cons.prems(1) small] show ?thesis
      by (simp add: oms_run_Cons)
  next
    case False
    then have "ledger_rel ?om ?l"
      using Cons.prems(1)
      by (cases ev) (auto simp: oms_on_gateway_ack_def oms_on_gateway_reject_def ledger_rel_def)
    with Cons.IH [of ?om ?l] Cons.prems(2) False show ?thesis
      by (simp add: oms_run_Cons oms_step_next_id)
  qed
qed

text \<open>
  C12.  The live-order set refines the ledger: over any history with fewer than 2 to the power 64
  minus 1 signals, whatever the gateway sends, an identifier is live exactly when the ledger says
  its order is outstanding, that is, released and not rejected by the gateway since.
\<close>

theorem oms_refines_ledger:
  assumes "length (filter is_signal evs) < 2 ^ 64 - 1"
  shows "i \<in> om_live_orders (snd (oms_run evs (oms_new node limits)))
    \<longleftrightarrow> ledger_run evs (fst (oms_run evs (oms_new node limits))) Map.empty i = Some Outstanding"
proof -
  have "ledger_rel (oms_new node limits) Map.empty"
    by (simp add: ledger_rel_def oms_new_def)
  then have "ledger_rel (snd (oms_run evs (oms_new node limits)))
      (ledger_run evs (fst (oms_run evs (oms_new node limits))) Map.empty)"
    by (rule ledger_rel_run) (use assms in \<open>simp add: oms_new_def\<close>)
  then show ?thesis by (simp add: ledger_rel_def)
qed

theorem oms_refines_ledger_witness:
  "1 \<notin> om_live_orders (snd (oms_run [EvSignal 5 6 (sample_signal Buy 100 1),
      EvReject (Reject0\<lparr>rej_client_order_id := 1\<rparr>)] (oms_new 3 RiskLimits0)))"
  using oms_refines_ledger [of "[EvSignal 5 6 (sample_signal Buy 100 1),
      EvReject (Reject0\<lparr>rej_client_order_id := 1\<rparr>)]" 1 3 RiskLimits0]
  by (simp add: oms_run_Cons oms_on_gateway_reject_def)

end
