(* ===== verification/Strategy_Engine.thy ===== *)
theory Strategy_Engine
  imports Order_Book
begin

text \<open>
  The strategy of src/strategy.cpp: it applies an update to its top of book and signals a one-lot
  buy one tick above the bid whenever the spread of the book is at least four ticks.  \<open>t\<close> is the
  clock reading taken when a signal is made.
\<close>

record StrategyEngine =
  str_node_id :: NodeId
  str_book :: TopOfBook
  str_signal_sequence :: Sequence

definition strategy_new :: "NodeId \<Rightarrow> StrategyEngine" where
  "strategy_new node_id =
     \<lparr>str_node_id = node_id, str_book = TopOfBook0, str_signal_sequence = 0\<rparr>"

definition strategy_on_market_data ::
  "TimestampNs \<Rightarrow> MarketDataUpdate \<Rightarrow> StrategyEngine \<Rightarrow> Signal option \<times> StrategyEngine" where
  "strategy_on_market_data t upd st =
     (let st1 = st\<lparr>str_book := tob_apply upd (str_book st)\<rparr>
      in case tob_snapshot (str_book st1) of
           None \<Rightarrow> (None, st1)
         | Some tob \<Rightarrow>
             let spread = md_ask_px tob - md_bid_px tob
             in if sint spread \<le> 0 then (None, st1)
                else if sint spread \<ge> 4
                then
                  let st2 = st1\<lparr>str_signal_sequence := str_signal_sequence st1 + 1\<rparr>;
                      signal = Signal0\<lparr>sig_header := MessageHeader0\<lparr>hdr_type := MT_Signal,
                                         hdr_source_node := str_node_id st,
                                         hdr_destination_node := 3,
                                         hdr_sequence := str_signal_sequence st2,
                                         hdr_send_ts_ns := t\<rparr>,
                                       sig_symbol_id := md_symbol_id tob, sig_side := Buy,
                                       sig_limit_px := md_bid_px tob + 1, sig_qty := 1,
                                       sig_confidence_bps := 7500\<rparr>
                  in (Some signal, st2)
                else (None, st1))"

text \<open>The quote the strategy decides on: the update, unless the book holds a newer one.\<close>

definition strategy_view :: "MarketDataUpdate \<Rightarrow> StrategyEngine \<Rightarrow> MarketDataUpdate" where
  "strategy_view upd st = tob_last (tob_apply upd (str_book st))"

lemma tob_snapshot_apply: "tob_snapshot (tob_apply u b) = Some (tob_last (tob_apply u b))"
  by (simp add: tob_snapshot_def tob_apply_def)

lemma strategy_on_market_data_eq:
  "strategy_on_market_data t upd st =
     (let q = strategy_view upd st; st1 = st\<lparr>str_book := tob_apply upd (str_book st)\<rparr>
      in if 4 \<le> sint (md_ask_px q - md_bid_px q)
         then (Some \<lparr>sig_header = \<lparr>hdr_type = MT_Signal, hdr_source_node = str_node_id st,
                       hdr_destination_node = 3, hdr_sequence = str_signal_sequence st + 1,
                       hdr_send_ts_ns = t, hdr_recv_ts_ns = 0\<rparr>,
                     sig_symbol_id = md_symbol_id q, sig_side = Buy,
                     sig_limit_px = md_bid_px q + 1, sig_qty = 1, sig_confidence_bps = 7500\<rparr>,
               st1\<lparr>str_signal_sequence := str_signal_sequence st + 1\<rparr>)
         else (None, st1))"
  by (simp add: strategy_on_market_data_def tob_snapshot_apply strategy_view_def Let_def
      message_defaults)

text \<open>A quote the strategy acts on, and the two outcomes of an update.\<close>

definition wide_quote :: "MarketDataUpdate \<Rightarrow> bool" where
  "wide_quote q \<longleftrightarrow> 4 \<le> sint (md_ask_px q - md_bid_px q)"

lemma strategy_cases:
  obtains (narrow) "\<not> wide_quote (strategy_view u st)"
    "strategy_on_market_data t u st = (None, st\<lparr>str_book := tob_apply u (str_book st)\<rparr>)"
  | (wide) s where "wide_quote (strategy_view u st)"
    "strategy_on_market_data t u st = (Some s, st\<lparr>str_book := tob_apply u (str_book st),
       str_signal_sequence := str_signal_sequence st + 1\<rparr>)"
    "sig_side s = Buy" "sig_qty s = 1" "sig_limit_px s = md_bid_px (strategy_view u st) + 1"
    "sig_symbol_id s = md_symbol_id (strategy_view u st)"
  by (cases "wide_quote (strategy_view u st)")
     (auto simp: strategy_on_market_data_eq wide_quote_def Let_def)

lemma strategy_book:
  "str_book (snd (strategy_on_market_data t upd st)) = tob_apply upd (str_book st)"
  by (simp add: strategy_on_market_data_eq Let_def)

text \<open>
  The strategy signals exactly when the quote it decides on is at least four ticks wide, and
  every signal is a buy of one lot priced strictly inside that spread, whenever the spread is
  representable.
\<close>

lemma strategy_signal_inside_spread:
  assumes "q = strategy_view upd st" and "s64_fits (sint (md_ask_px q) - sint (md_bid_px q))"
  shows "case fst (strategy_on_market_data t upd st) of
      None \<Rightarrow> sint (md_ask_px q) - sint (md_bid_px q) < 4
    | Some s \<Rightarrow> 4 \<le> sint (md_ask_px q) - sint (md_bid_px q)
        \<and> sig_side s = Buy \<and> sig_qty s = 1 \<and> sig_symbol_id s = md_symbol_id q
        \<and> sint (md_bid_px q) < sint (sig_limit_px s) \<and> sint (sig_limit_px s) < sint (md_ask_px q)"
proof (cases "4 \<le> sint (md_ask_px q - md_bid_px q)")
  case True
  have spread: "4 \<le> sint (md_ask_px q) - sint (md_bid_px q)"
    using True assms(2) by (simp add: sint_diff_fits)
  then have "sint (md_bid_px q + 1) = sint (md_bid_px q) + 1"
    using s64_sint_bounds [of "md_ask_px q"] s64_sint_bounds [of "md_bid_px q"]
    by (subst sint_add_fits) (simp_all add: s64_fits_def)
  with True spread assms(1) show ?thesis
    by (simp add: strategy_on_market_data_eq Let_def)
next
  case False
  with assms show ?thesis
    by (simp add: strategy_on_market_data_eq Let_def sint_diff_fits)
qed

theorem strategy_signal_inside_spread_witness:
  "case fst (strategy_on_market_data 7 (sample_quote 1 10000 10005) (strategy_new 2)) of
      None \<Rightarrow> False | Some s \<Rightarrow> 10000 < sint (sig_limit_px s) \<and> sint (sig_limit_px s) < 10005"
  using strategy_signal_inside_spread [OF refl,
      of "sample_quote 1 10000 10005" "strategy_new 2" 7]
  by (simp add: strategy_view_def strategy_new_def tob_apply_def TopOfBook0_def sample_quote_def
      s64_fits_def split: option.splits)

text \<open>Running the strategy over a feed; \<open>ts\<close> gives the clock reading of each call.\<close>

fun strategy_run ::
  "(TimestampNs \<times> MarketDataUpdate) list \<Rightarrow> StrategyEngine \<Rightarrow> Signal option list \<times> StrategyEngine"
where
  "strategy_run [] st = ([], st)"
| "strategy_run ((t, u) # us) st =
     (let (sig, st') = strategy_on_market_data t u st; (sigs, r) = strategy_run us st'
      in (sig # sigs, r))"

text \<open>
  A duplicated or out-of-order update is not filtered by the strategy: the book ignores it,
  but the engine decides again on the quote it already holds, so redelivering any update that made
  it signal makes it signal once more, with the same price and a new sequence number.
\<close>

lemma strategy_duplicate_signals_again:
  assumes "strategy_on_market_data t upd st = (Some s, st')"
    and "md_exchange_sequence old \<le> md_exchange_sequence (strategy_view upd st)"
  shows "\<exists>s'. fst (strategy_on_market_data t' old st') = Some s'
    \<and> sig_limit_px s' = sig_limit_px s \<and> sig_qty s' = sig_qty s
    \<and> hdr_sequence (sig_header s') = hdr_sequence (sig_header s) + 1
    \<and> str_book (snd (strategy_on_market_data t' old st')) = str_book st'"
proof -
  have book: "str_book st' = tob_apply upd (str_book st)"
    using strategy_book [of t upd st] assms(1) by simp
  then have ignored: "tob_apply old (str_book st') = str_book st'"
    using assms(2) by (auto simp: tob_apply_def strategy_view_def)
  with book have "strategy_view old st' = strategy_view upd st"
    by (simp add: strategy_view_def)
  with assms(1) ignored show ?thesis
    by (auto simp: strategy_on_market_data_eq Let_def split: if_splits)
qed

theorem strategy_duplicate_signals_again_witness:
  "\<exists>s st' s'. strategy_on_market_data 1 (sample_quote 5 100 110) (strategy_new 2) = (Some s, st')
     \<and> fst (strategy_on_market_data 2 (sample_quote 5 100 110) st') = Some s'
     \<and> sig_limit_px s' = sig_limit_px s"
proof -
  obtain s st' where run:
    "strategy_on_market_data 1 (sample_quote 5 100 110) (strategy_new 2) = (Some s, st')"
    by (simp add: strategy_on_market_data_eq strategy_view_def Let_def strategy_new_def
        tob_apply_def TopOfBook0_def sample_quote_def)
  moreover have "strategy_view (sample_quote 5 100 110) (strategy_new 2) = sample_quote 5 100 110"
    by (simp add: strategy_view_def strategy_new_def tob_apply_def TopOfBook0_def)
  ultimately show ?thesis
    using strategy_duplicate_signals_again [OF run, of "sample_quote 5 100 110" 2] by auto
qed

end
