(* ===== verification/Gateway_Interface.thy ===== *)
theory Gateway_Interface
  imports Order_Manager
begin

text \<open>
  The contract between the order manager and an exchange gateway: a gateway answers an order with
  one acknowledgement or reject that carries the order's client identifier.  The client is the
  submit step of the program's loops: send the order, and feed the answer to the manager.
\<close>

text \<open>Feeding a gateway answer to the manager, as every loop of the program does.\<close>

definition oms_absorb :: "Envelope \<Rightarrow> OrderManager \<Rightarrow> OrderManager" where
  "oms_absorb e om =
     (if env_type e = MT_Ack then
        (case payload_ack (env_payload e) of
           Some a \<Rightarrow> snd (oms_on_gateway_ack a om) | None \<Rightarrow> om)
      else if env_type e = MT_Reject then
        (case payload_reject (env_payload e) of
           Some r \<Rightarrow> snd (oms_on_gateway_reject r om) | None \<Rightarrow> om)
      else om)"

definition submit_order ::
  "(TimestampNs \<Rightarrow> NewOrder \<Rightarrow> 'g \<Rightarrow> Envelope option \<times> 'g)
   \<Rightarrow> TimestampNs \<Rightarrow> NewOrder \<Rightarrow> OrderManager \<times> 'g \<Rightarrow> OrderManager \<times> 'g" where
  "submit_order send t ord = (\<lambda>(om, g).
     case send t ord g of
       (None, g') \<Rightarrow> (om, g')
     | (Some e, g') \<Rightarrow> (oms_absorb e om, g'))"

locale order_gateway =
  fixes send :: "TimestampNs \<Rightarrow> NewOrder \<Rightarrow> 'g \<Rightarrow> Envelope option \<times> 'g"
  assumes answers: "\<exists>e. fst (send t ord g) = Some e \<and> well_tagged e
      \<and> (env_type e = MT_Ack \<or> env_type e = MT_Reject)
      \<and> payload_client_id (env_payload e) = Some (ord_client_order_id ord)"
begin

lemma answer_cases:
  obtains (acked) a where "fst (send t ord g) = Some (ack_env a)"
    "ack_client_order_id a = ord_client_order_id ord"
  | (refused) r where "fst (send t ord g) = Some (reject_env r)"
    "rej_client_order_id r = ord_client_order_id ord"
proof -
  obtain e where e: "fst (send t ord g) = Some e" "well_tagged e"
    "env_type e = MT_Ack \<or> env_type e = MT_Reject"
    "payload_client_id (env_payload e) = Some (ord_client_order_id ord)"
    using answers by blast
  show thesis
  proof (cases "env_type e = MT_Ack")
    case True
    with e(2) obtain a where "env_payload e = P_Ack a"
      using well_tagged_accessors(4) by blast
    with True have "e = ack_env a" by (cases e) (simp add: ack_env_def Envelope0_def)
    with e acked show ?thesis by simp
  next
    case False
    with e(2,3) obtain r where "env_payload e = P_Reject r"
      using well_tagged_accessors(5) by blast
    with False e(3) have "e = reject_env r" by (cases e) (simp add: reject_env_def Envelope0_def)
    with e refused show ?thesis by simp
  qed
qed

text \<open>After a submit the order is live exactly when it was live before and was acknowledged.\<close>

lemma submit_live:
  "om_live_orders (fst (submit_order send t ord (om, g)))
   = (if (\<exists>a. fst (send t ord g) = Some (ack_env a)) then om_live_orders om
      else om_live_orders om - {ord_client_order_id ord})"
proof (cases rule: answer_cases [of t ord g])
  case (acked a)
  then show ?thesis
    by (auto simp: submit_order_def oms_absorb_def oms_on_gateway_ack_def split_beta)
next
  case (refused r)
  then have "fst (send t ord g) \<noteq> Some (ack_env a)" for a
    by (auto simp: ack_env_def reject_env_def Envelope0_def)
  with refused show ?thesis
    by (auto simp: submit_order_def oms_absorb_def oms_on_gateway_reject_def split_beta)
qed

lemma submit_frame:
  "om_risk (fst (submit_order send t ord (om, g))) = om_risk om
   \<and> om_next_client_order_id (fst (submit_order send t ord (om, g))) = om_next_client_order_id om
   \<and> snd (submit_order send t ord (om, g)) = snd (send t ord g)"
  by (cases rule: answer_cases [of t ord g])
     (auto simp: submit_order_def oms_absorb_def oms_on_gateway_reject_def
       oms_on_gateway_ack_def split_beta)

end

end
