(* ===== verification/Exchange_Gateway.thy ===== *)
theory Exchange_Gateway
  imports Gateway_Interface
begin

text \<open>
  The simulated exchange gateway of src/exchange_gateway.cpp: while available it acknowledges every
  order with the next exchange identifier, while unavailable it rejects every order.  It provides
  the gateway contract of \<open>Gateway_Interface\<close>.
\<close>

record ExchangeGateway =
  gw_node_id :: NodeId
  gw_available :: bool
  gw_next_exchange_order_id :: OrderId
  gw_sequence :: Sequence

definition gateway_new :: "NodeId \<Rightarrow> ExchangeGateway" where
  "gateway_new node_id = \<lparr>gw_node_id = node_id, gw_available = True,
     gw_next_exchange_order_id = 1000, gw_sequence = 0\<rparr>"

definition gateway_set_available :: "bool \<Rightarrow> ExchangeGateway \<Rightarrow> ExchangeGateway" where
  "gateway_set_available available g = g\<lparr>gw_available := available\<rparr>"

definition gateway_send_order ::
  "TimestampNs \<Rightarrow> NewOrder \<Rightarrow> ExchangeGateway \<Rightarrow> Envelope option \<times> ExchangeGateway" where
  "gateway_send_order t ord g =
     (if \<not> gw_available g
      then
        let g1 = g\<lparr>gw_sequence := gw_sequence g + 1\<rparr>;
            reject = Reject0\<lparr>rej_header := MessageHeader0\<lparr>hdr_type := MT_Reject,
                               hdr_source_node := gw_node_id g,
                               hdr_destination_node := hdr_source_node (ord_header ord),
                               hdr_sequence := gw_sequence g1, hdr_send_ts_ns := t\<rparr>,
                             rej_client_order_id := ord_client_order_id ord,
                             rej_reason := RR_GatewayUnavailable\<rparr>
        in (Some (reject_env reject), g1)
      else
        let g1 = g\<lparr>gw_sequence := gw_sequence g + 1\<rparr>;
            g2 = g1\<lparr>gw_next_exchange_order_id := gw_next_exchange_order_id g1 + 1\<rparr>;
            ack = Ack0\<lparr>ack_header := MessageHeader0\<lparr>hdr_type := MT_Ack,
                         hdr_source_node := gw_node_id g,
                         hdr_destination_node := hdr_source_node (ord_header ord),
                         hdr_sequence := gw_sequence g1, hdr_send_ts_ns := t\<rparr>,
                       ack_client_order_id := ord_client_order_id ord,
                       ack_exchange_order_id := gw_next_exchange_order_id g1,
                       ack_state := OS_Accepted\<rparr>
        in (Some (ack_env ack), g2))"

interpretation sim: order_gateway gateway_send_order
  by unfold_locales (simp add: gateway_send_order_def Let_def)

text \<open>A gateway that is up acknowledges.\<close>

lemma gateway_available_acks:
  assumes "gw_available g"
  obtains a g' where "gateway_send_order t ord g = (Some (ack_env a), g')"
    "ack_client_order_id a = ord_client_order_id ord" "gw_available g'"
  using assms by (simp add: gateway_send_order_def Let_def)

text \<open>Sending a list of orders; availability may change between them.\<close>

fun gateway_run ::
  "(TimestampNs \<times> bool \<times> NewOrder) list \<Rightarrow> ExchangeGateway \<Rightarrow> Envelope option list \<times> ExchangeGateway"
where
  "gateway_run [] g = ([], g)"
| "gateway_run ((t, up, ord) # os) g =
     (let (e, g') = gateway_send_order t ord (gateway_set_available up g);
          (es, r) = gateway_run os g'
      in (e # es, r))"

fun ack_exchange_ids :: "Envelope option list \<Rightarrow> OrderId list" where
  "ack_exchange_ids [] = []"
| "ack_exchange_ids (out # outs) =
     (case out of
        Some e \<Rightarrow> (case env_payload e of P_Ack a \<Rightarrow> [ack_exchange_order_id a] | _ \<Rightarrow> [])
      | None \<Rightarrow> []) @ ack_exchange_ids outs"

text \<open>The answer an order gets from a gateway that is up or down.\<close>

definition proper_answer :: "TimestampNs \<times> bool \<times> NewOrder \<Rightarrow> Envelope option \<Rightarrow> bool" where
  "proper_answer = (\<lambda>(t, up, ord) out.
     (case out of
        None \<Rightarrow> False
      | Some e \<Rightarrow>
          (case env_payload e of
             P_Ack a \<Rightarrow> up \<and> e = ack_env a \<and> ack_client_order_id a = ord_client_order_id ord
               \<and> ack_state a = OS_Accepted
           | P_Reject r \<Rightarrow> \<not> up \<and> e = reject_env r
               \<and> rej_client_order_id r = ord_client_order_id ord
               \<and> rej_reason r = RR_GatewayUnavailable
           | _ \<Rightarrow> False)))"

lemma gateway_send_proper:
  "proper_answer (t, up, ord) (fst (gateway_send_order t ord (gateway_set_available up g)))"
  by (simp add: proper_answer_def gateway_send_order_def gateway_set_available_def Let_def)

lemma gateway_run_ids:
  "ack_exchange_ids (fst (gateway_run os g))
   = map (\<lambda>i. gw_next_exchange_order_id g + of_nat i) [0..<length (filter (\<lambda>(_, up, _). up) os)]"
proof (induction os arbitrary: g)
  case Nil
  then show ?case by simp
next
  case (Cons x os)
  obtain t up ord where x: "x = (t, up, ord)" by (cases x)
  with x show ?case
    by (simp add: split_beta Let_def Cons gateway_send_order_def gateway_set_available_def
        map_of_nat_shift upt_conv_Cons del: upt_Suc)
qed

text \<open>
  The gateway answers each order exactly once, in order, with the order's own client
  identifier: an acknowledgement if it was available at that moment and a GatewayUnavailable reject
  otherwise; and the exchange identifiers of the acknowledgements are 1000, 1001 and so on, without
  a gap for the rejected orders.
\<close>

theorem gateway_answers_in_order:
  "list_all2 proper_answer os (fst (gateway_run os (gateway_new node)))
   \<and> ack_exchange_ids (fst (gateway_run os (gateway_new node)))
     = map (\<lambda>i. 1000 + of_nat i) [0..<length (filter (\<lambda>(_, up, _). up) os)]"
proof -
  have "list_all2 proper_answer os (fst (gateway_run os g))" for g
    by (induction os arbitrary: g) (auto simp: split_beta Let_def gateway_send_proper)
  then show ?thesis by (simp add: gateway_run_ids gateway_new_def)
qed

text \<open>
  One trading step end to end: when a signal is accepted and its order is submitted to the
  simulated gateway, the order's identifier is live afterwards if the gateway was available and
  not live if it was unavailable; no other identifier is affected.
\<close>

theorem signal_submit_live:
  assumes "oms_on_signal t1 t2 s om = (Some (new_order_env ord), om')"
  shows "om_live_orders (fst (submit_order gateway_send_order t3 ord (om', g)))
    = (if gw_available g then insert (ord_client_order_id ord) (om_live_orders om)
       else om_live_orders om - {ord_client_order_id ord})"
proof -
  have "om_live_orders om' = insert (ord_client_order_id ord) (om_live_orders om)"
    using assms
    by (cases rule: oms_on_signal_cases [where om = om and ?t1.0 = t1 and ?t2.0 = t2 and s = s])
       (auto simp: oms_make_order_def new_order_env_def reject_env_def Envelope0_def)
  moreover have "(\<exists>a. fst (gateway_send_order t3 ord g) = Some (ack_env a)) \<longleftrightarrow> gw_available g"
    by (auto simp: gateway_send_order_def Let_def ack_env_def reject_env_def Envelope0_def)
  ultimately show ?thesis
    by (auto simp: sim.submit_live)
qed

theorem signal_submit_live_witness:
  "\<exists>ord om'. oms_on_signal 1 2 (sample_signal Buy 100 1) (oms_new 3 RiskLimits0)
       = (Some (new_order_env ord), om')
     \<and> om_live_orders (fst (submit_order gateway_send_order 3 ord (om', gateway_new 4))) = {1}"
proof -
  let ?om = "oms_new 3 RiskLimits0" and ?s = "sample_signal Buy 100 1"
  have "risk_check (om_risk ?om) (oms_make_order 1 ?s ?om) = RR_None"
    by (simp add: risk_check_def oms_make_order_def sample_signal_def oms_new_def risk_new_def
        RiskLimits0_def llabs_def signed_qty_def)
  then obtain om' where run:
    "oms_on_signal 1 2 ?s ?om = (Some (new_order_env (oms_make_order 1 ?s ?om)), om')"
    by (simp add: oms_on_signal_def Let_def oms_new_def)
  from signal_submit_live [OF run, of 3 "gateway_new 4"] run show ?thesis
    by (auto simp: gateway_new_def oms_new_def oms_make_order_def)
qed

end
