(* ===== verification/Node_Health.thy ===== *)
theory Node_Health
  imports Core_Types
begin

text \<open>
  Clocks and liveness: the stopwatch of src/time.cpp and the heartbeat bookkeeping of src/node.cpp.
  The monotonic clock is outside the program; each call of \<open>now_ns()\<close> is an argument that holds
  its reading.  Subtraction of readings is unsigned and wraps.
\<close>

section \<open>LatencyTimer\<close>

record LatencyTimer =
  lt_start_ns :: TimestampNs

definition latency_timer_new :: "TimestampNs \<Rightarrow> LatencyTimer" where
  "latency_timer_new now = \<lparr>lt_start_ns = now\<rparr>"

definition latency_timer_elapsed_ns :: "TimestampNs \<Rightarrow> LatencyTimer \<Rightarrow> TimestampNs" where
  "latency_timer_elapsed_ns now timer = now - lt_start_ns timer"

lemma latency_timer_elapsed:
  "start \<le> now \<Longrightarrow>
   unat (latency_timer_elapsed_ns now (latency_timer_new start)) = unat now - unat start"
  by (simp add: latency_timer_elapsed_ns_def latency_timer_new_def unat_sub_if' word_le_nat_alt)

section \<open>NodeHealth\<close>

record NodeHealth =
  nh_id :: NodeId
  nh_role :: NodeRole
  nh_last_peer_seen_ns :: TimestampNs
  nh_sequence :: Sequence

definition node_health_new :: "NodeId \<Rightarrow> NodeRole \<Rightarrow> NodeHealth" where
  "node_health_new nid role =
     \<lparr>nh_id = nid, nh_role = role, nh_last_peer_seen_ns = 0, nh_sequence = 0\<rparr>"

text \<open>\<open>heartbeat()\<close> reads the clock twice: once for the header, once for the body.\<close>

definition node_heartbeat :: "TimestampNs \<Rightarrow> TimestampNs \<Rightarrow> NodeHealth \<Rightarrow> Heartbeat \<times> NodeHealth" where
  "node_heartbeat t1 t2 h =
     (let h1 = h\<lparr>nh_sequence := nh_sequence h + 1\<rparr>
      in (Heartbeat0\<lparr>hb_header := MessageHeader0\<lparr>hdr_type := MT_Heartbeat,
                       hdr_source_node := nh_id h, hdr_sequence := nh_sequence h1,
                       hdr_send_ts_ns := t1\<rparr>,
                     hb_role := nh_role h, hb_last_seen_ns := t2\<rparr>, h1))"

definition node_observe_heartbeat :: "Heartbeat \<Rightarrow> NodeHealth \<Rightarrow> NodeHealth" where
  "node_observe_heartbeat hb h = h\<lparr>nh_last_peer_seen_ns := hdr_recv_ts_ns (hb_header hb)\<rparr>"

definition node_is_peer_stale :: "TimestampNs \<Rightarrow> TimestampNs \<Rightarrow> NodeHealth \<Rightarrow> bool" where
  "node_is_peer_stale now stale_after h =
     (if nh_last_peer_seen_ns h = 0 then True
      else now - nh_last_peer_seen_ns h > stale_after)"

fun node_heartbeats :: "(TimestampNs \<times> TimestampNs) list \<Rightarrow> NodeHealth \<Rightarrow> Heartbeat list \<times> NodeHealth" where
  "node_heartbeats [] h = ([], h)"
| "node_heartbeats ((t1, t2) # ts) h =
     (let (hb, h') = node_heartbeat t1 t2 h; (hbs, r) = node_heartbeats ts h' in (hb # hbs, r))"

definition node_observe_all :: "Heartbeat list \<Rightarrow> NodeHealth \<Rightarrow> NodeHealth" where
  "node_observe_all hbs h = fold node_observe_heartbeat hbs h"

lemma node_heartbeats_sequence:
  "map (\<lambda>hb. hdr_sequence (hb_header hb)) (fst (node_heartbeats ts h))
   = map (\<lambda>i. nh_sequence h + 1 + of_nat i) [0..<length ts]"
proof (induction ts arbitrary: h)
  case Nil
  then show ?case by simp
next
  case (Cons t ts)
  have "map (\<lambda>hb. hdr_sequence (hb_header hb)) (fst (node_heartbeats (t # ts) h))
      = (nh_sequence h + 1) # map (\<lambda>i. nh_sequence h + 1 + 1 + of_nat i) [0..<length ts]"
    using Cons [of "snd (node_heartbeat (fst t) (snd t) h)"]
    by (cases t) (simp add: node_heartbeat_def Let_def split_beta)
  also have "\<dots> = map (\<lambda>i. nh_sequence h + 1 + of_nat i) [0..<length (t # ts)]"
    by (subst map_of_nat_shift) (simp add: upt_conv_Cons del: upt_Suc)
  finally show ?case .
qed

lemma node_observe_last:
  "hbs \<noteq> [] \<Longrightarrow>
   nh_last_peer_seen_ns (node_observe_all hbs h) = hdr_recv_ts_ns (hb_header (last hbs))"
  by (induction hbs arbitrary: h) (auto simp: node_observe_all_def node_observe_heartbeat_def)

text \<open>
  Peer liveness: a node that observed heartbeats judges its peer by the last one observed;
  it is fresh exactly when that heartbeat carries a receive stamp other than 0 and its age does not
  exceed the limit, provided the stamp is not in the future.  A node that observed nothing, or
  whose last heartbeat was never stamped on receipt, reports a stale peer whatever the limit.
\<close>

theorem peer_fresh_iff:
  assumes "hbs \<noteq> [] \<longrightarrow> hdr_recv_ts_ns (hb_header (last hbs)) \<le> now"
  shows "\<not> node_is_peer_stale now limit (node_observe_all hbs (node_health_new nid role)) \<longleftrightarrow>
    hbs \<noteq> [] \<and> hdr_recv_ts_ns (hb_header (last hbs)) \<noteq> 0
    \<and> unat now - unat (hdr_recv_ts_ns (hb_header (last hbs))) \<le> unat limit"
proof (cases "hbs = []")
  case True
  then show ?thesis
    by (simp add: node_is_peer_stale_def node_observe_all_def node_health_new_def)
next
  case False
  let ?r = "hdr_recv_ts_ns (hb_header (last hbs))"
  have "unat (now - ?r) = unat now - unat ?r"
    using assms False by (simp add: unat_sub_if' word_le_nat_alt)
  with False show ?thesis
    by (simp add: node_is_peer_stale_def node_observe_last word_less_nat_alt not_less)
qed

theorem peer_fresh_iff_witness:
  "\<not> node_is_peer_stale 1500 600
     (node_observe_all [Heartbeat0\<lparr>hb_header := MessageHeader0\<lparr>hdr_recv_ts_ns := 1000\<rparr>\<rparr>]
        (node_health_new 2 NR_Strategy))"
  using peer_fresh_iff [of "[Heartbeat0\<lparr>hb_header := MessageHeader0\<lparr>hdr_recv_ts_ns := 1000\<rparr>\<rparr>]"
      1500 600 2 NR_Strategy]
  by simp

end
