(* ===== verification/Venue_Router.thy ===== *)
theory Venue_Router
  imports Book_Interface
begin

text \<open>
  The smart order router of src/multi_venue_router.cpp: one quote per venue and symbol, and a
  routing decision that takes the lowest ask for a buy and the highest bid for every other side.
  The container is an \<open>std::unordered_map\<close>: a list of entries with distinct keys, in the order an
  iteration visits them.
\<close>

section \<open>Venues and normalized updates\<close>

datatype MarketDataVenue = Binance | Coinbase | Polygon | Hyperliquid | SimulatedItch

fun venue_byte :: "MarketDataVenue \<Rightarrow> byte" where
  "venue_byte Binance = 1"
| "venue_byte Coinbase = 2"
| "venue_byte Polygon = 3"
| "venue_byte Hyperliquid = 4"
| "venue_byte SimulatedItch = 5"

fun to_string_venue :: "MarketDataVenue \<Rightarrow> string" where
  "to_string_venue Binance = ''Binance''"
| "to_string_venue Coinbase = ''Coinbase''"
| "to_string_venue Polygon = ''Polygon''"
| "to_string_venue Hyperliquid = ''Hyperliquid''"
| "to_string_venue SimulatedItch = ''SimulatedItch''"

record NormalizedMarketData =
  nmd_venue :: MarketDataVenue
  nmd_update :: MarketDataUpdate

section \<open>The router\<close>

record VenueBookKey =
  vbk_venue :: MarketDataVenue
  vbk_symbol_id :: SymbolId

definition venue_book_key_hash :: "VenueBookKey \<Rightarrow> u64" where
  "venue_book_key_hash key =
     push_bit 8 (ucast (vbk_symbol_id key)) XOR ucast (venue_byte (vbk_venue key))"

record VenueTopOfBook =
  vtob_venue :: MarketDataVenue
  vtob_symbol_id :: SymbolId
  vtob_symbol :: Symbol
  vtob_bid_px :: Price
  vtob_bid_qty :: Quantity
  vtob_ask_px :: Price
  vtob_ask_qty :: Quantity
  vtob_exchange_sequence :: Sequence
  vtob_recv_ts_ns :: TimestampNs

record RouteDecision =
  rt_routeable :: bool
  rt_venue :: MarketDataVenue
  rt_symbol_id :: SymbolId
  rt_symbol :: Symbol
  rt_side :: Side
  rt_limit_px :: Price
  rt_qty :: Quantity
  rt_reason :: string

definition RouteDecision0 :: RouteDecision where
  "RouteDecision0 = \<lparr>rt_routeable = False, rt_venue = Coinbase, rt_symbol_id = 0,
     rt_symbol = Symbol_default, rt_side = Buy, rt_limit_px = 0, rt_qty = 0, rt_reason = []\<rparr>"

type_synonym MultiVenueRouter = "(VenueBookKey \<times> VenueTopOfBook) list"

definition router_update :: "NormalizedMarketData \<Rightarrow> MultiVenueRouter \<Rightarrow> bool \<times> MultiVenueRouter" where
  "router_update md books =
     (let u = nmd_update md
      in if md_symbol_id u = 0 then (False, books)
         else if sint (md_bid_px u) \<le> 0 \<or> sint (md_ask_px u) \<le> 0
                 \<or> sint (md_bid_px u) > sint (md_ask_px u) then (False, books)
         else
           let key = \<lparr>vbk_venue = nmd_venue md, vbk_symbol_id = md_symbol_id u\<rparr>
           in (True, AList.update key
                 \<lparr>vtob_venue = nmd_venue md, vtob_symbol_id = md_symbol_id u,
                  vtob_symbol = md_symbol u, vtob_bid_px = md_bid_px u,
                  vtob_bid_qty = md_bid_qty u, vtob_ask_px = md_ask_px u,
                  vtob_ask_qty = md_ask_qty u,
                  vtob_exchange_sequence = md_exchange_sequence u,
                  vtob_recv_ts_ns = hdr_recv_ts_ns (md_header u)\<rparr> books))"

text \<open>The two search loops; \<open>best\<close> is the loop's variable.\<close>

fun best_ask_loop :: "SymbolId \<Rightarrow> MultiVenueRouter \<Rightarrow> VenueTopOfBook option \<Rightarrow> VenueTopOfBook option" where
  "best_ask_loop sid [] best = best"
| "best_ask_loop sid ((k, book) # books) best =
     (if vtob_symbol_id book \<noteq> sid then best_ask_loop sid books best
      else if (case best of None \<Rightarrow> True | Some b \<Rightarrow> sint (vtob_ask_px book) < sint (vtob_ask_px b))
           then best_ask_loop sid books (Some book)
           else best_ask_loop sid books best)"

definition best_ask :: "SymbolId \<Rightarrow> MultiVenueRouter \<Rightarrow> VenueTopOfBook option" where
  "best_ask sid books = best_ask_loop sid books None"

fun best_bid_loop :: "SymbolId \<Rightarrow> MultiVenueRouter \<Rightarrow> VenueTopOfBook option \<Rightarrow> VenueTopOfBook option" where
  "best_bid_loop sid [] best = best"
| "best_bid_loop sid ((k, book) # books) best =
     (if vtob_symbol_id book \<noteq> sid then best_bid_loop sid books best
      else if (case best of None \<Rightarrow> True | Some b \<Rightarrow> sint (vtob_bid_px book) > sint (vtob_bid_px b))
           then best_bid_loop sid books (Some book)
           else best_bid_loop sid books best)"

definition best_bid :: "SymbolId \<Rightarrow> MultiVenueRouter \<Rightarrow> VenueTopOfBook option" where
  "best_bid sid books = best_bid_loop sid books None"

definition route_signal :: "Signal \<Rightarrow> MultiVenueRouter \<Rightarrow> RouteDecision" where
  "route_signal s books =
     (if sig_side s = Buy
      then (case best_ask (sig_symbol_id s) books of
              None \<Rightarrow> RouteDecision0\<lparr>rt_routeable := False, rt_symbol_id := sig_symbol_id s,
                        rt_side := sig_side s, rt_qty := sig_qty s,
                        rt_reason := ''no ask venue available''\<rparr>
            | Some venue \<Rightarrow> RouteDecision0\<lparr>rt_routeable := True, rt_venue := vtob_venue venue,
                        rt_symbol_id := sig_symbol_id s, rt_symbol := vtob_symbol venue,
                        rt_side := sig_side s, rt_limit_px := vtob_ask_px venue,
                        rt_qty := sig_qty s, rt_reason := ''routed to lowest live ask''\<rparr>)
      else (case best_bid (sig_symbol_id s) books of
              None \<Rightarrow> RouteDecision0\<lparr>rt_routeable := False, rt_symbol_id := sig_symbol_id s,
                        rt_side := sig_side s, rt_qty := sig_qty s,
                        rt_reason := ''no bid venue available''\<rparr>
            | Some venue \<Rightarrow> RouteDecision0\<lparr>rt_routeable := True, rt_venue := vtob_venue venue,
                        rt_symbol_id := sig_symbol_id s, rt_symbol := vtob_symbol venue,
                        rt_side := sig_side s, rt_limit_px := vtob_bid_px venue,
                        rt_qty := sig_qty s, rt_reason := ''routed to highest live bid''\<rparr>))"

definition router_books :: "MultiVenueRouter \<Rightarrow> VenueTopOfBook list" where
  "router_books books = map snd books"

section \<open>The router as a book of quotes\<close>

definition router_find :: "VenueBookKey \<Rightarrow> MultiVenueRouter \<Rightarrow> VenueTopOfBook option" where
  "router_find key books = map_of books key"

definition nmd_key :: "NormalizedMarketData \<Rightarrow> VenueBookKey" where
  "nmd_key md = \<lparr>vbk_venue = nmd_venue md, vbk_symbol_id = md_symbol_id (nmd_update md)\<rparr>"

definition router_entry :: "NormalizedMarketData \<Rightarrow> VenueTopOfBook" where
  "router_entry md = (let u = nmd_update md in
     \<lparr>vtob_venue = nmd_venue md, vtob_symbol_id = md_symbol_id u, vtob_symbol = md_symbol u,
      vtob_bid_px = md_bid_px u, vtob_bid_qty = md_bid_qty u, vtob_ask_px = md_ask_px u,
      vtob_ask_qty = md_ask_qty u, vtob_exchange_sequence = md_exchange_sequence u,
      vtob_recv_ts_ns = hdr_recv_ts_ns (md_header u)\<rparr>)"

definition valid_nmd :: "NormalizedMarketData \<Rightarrow> bool" where
  "valid_nmd md = valid_quote (nmd_update md)"

lemma router_update_eq:
  "router_update md books =
     (if valid_nmd md then (True, AList.update (nmd_key md) (router_entry md) books)
      else (False, books))"
  by (auto simp: router_update_def valid_nmd_def valid_quote_def nmd_key_def router_entry_def Let_def)

interpretation venues: quote_books router_update router_find nmd_key router_entry valid_nmd
  by unfold_locales (auto simp: router_update_eq router_find_def update_conv')

text \<open>Well-formed routers: distinct keys, and every entry filed under its own venue and symbol.\<close>

definition router_wf :: "MultiVenueRouter \<Rightarrow> bool" where
  "router_wf books \<longleftrightarrow> distinct (map fst books)
     \<and> list_all (\<lambda>(k, b). k = \<lparr>vbk_venue = vtob_venue b, vbk_symbol_id = vtob_symbol_id b\<rparr>) books"

lemma set_alist_update:
  "x \<in> set (AList.update k v al) \<Longrightarrow> x = (k, v) \<or> x \<in> set al"
  by (induction al) (auto split: if_splits)

lemma router_update_wf: "router_wf books \<Longrightarrow> router_wf (snd (router_update md books))"
  by (auto simp: router_wf_def router_update_eq list_all_iff nmd_key_def router_entry_def Let_def
      intro: distinct_update dest!: set_alist_update)

lemma router_run_wf: "router_wf books \<Longrightarrow> router_wf (snd (run_updates router_update us books))"
  by (induction us arbitrary: books) (auto simp: split_beta Let_def dest: router_update_wf)

lemma router_wf_find:
  "router_wf books \<Longrightarrow> (k, b) \<in> set books \<longleftrightarrow> router_find k books = Some b"
  by (simp add: router_wf_def router_find_def)

section \<open>The search loops\<close>

text \<open>
  Both loops keep the first entry of the symbol whose cost is least; the cost of a bid is its
  negation.
\<close>

fun pick :: "('b \<Rightarrow> bool) \<Rightarrow> ('b \<Rightarrow> int) \<Rightarrow> ('k \<times> 'b) list \<Rightarrow> 'b option \<Rightarrow> 'b option" where
  "pick P cost [] best = best"
| "pick P cost ((k, b) # bs) best =
     pick P cost bs
       (if P b \<and> (case best of None \<Rightarrow> True | Some r \<Rightarrow> cost b < cost r) then Some b else best)"

lemma best_ask_loop_pick:
  "best_ask_loop sid books best
   = pick (\<lambda>b. vtob_symbol_id b = sid) (\<lambda>b. sint (vtob_ask_px b)) books best"
  by (induction sid books best rule: best_ask_loop.induct) auto

lemma best_bid_loop_pick:
  "best_bid_loop sid books best
   = pick (\<lambda>b. vtob_symbol_id b = sid) (\<lambda>b. - sint (vtob_bid_px b)) books best"
  by (induction sid books best rule: best_bid_loop.induct) (auto split: option.splits)

lemma pick_some:
  "\<exists>r. pick P cost bs (Some b) = Some r \<and> cost r \<le> cost b \<and> (r = b \<or> (r \<in> snd ` set bs \<and> P r))"
proof (induction bs arbitrary: b)
  case Nil
  then show ?case by simp
next
  case (Cons x bs)
  obtain k c where x: "x = (k, c)" by (cases x)
  show ?case
  proof (cases "P c \<and> cost c < cost b")
    case True
    with Cons [of c] x show ?thesis by force
  next
    case False
    with Cons [of b] x show ?thesis by auto
  qed
qed

lemma pick_le_best: "pick P cost bs (Some b) = Some r \<Longrightarrow> cost r \<le> cost b"
  using pick_some [of P cost bs b] by auto

lemma pick_le:
  "pick P cost bs best = Some r \<Longrightarrow> (k, c) \<in> set bs \<Longrightarrow> P c \<Longrightarrow> cost r \<le> cost c"
proof (induction bs arbitrary: best)
  case Nil
  then show ?case by simp
next
  case (Cons x bs)
  obtain k' d where x: "x = (k', d)" by (cases x)
  define best' where
    "best' = (if P d \<and> (case best of None \<Rightarrow> True | Some r \<Rightarrow> cost d < cost r) then Some d else best)"
  have run: "pick P cost bs best' = Some r" using Cons.prems(1) x by (simp add: best'_def)
  show ?case
  proof (cases "(k, c) \<in> set bs")
    case True
    then show ?thesis using Cons.IH [OF run] Cons.prems(3) by blast
  next
    case False
    then have "c = d" using Cons.prems(2) x by simp
    with Cons.prems(3) have "\<exists>b. best' = Some b \<and> cost b \<le> cost c"
      by (cases best) (auto simp: best'_def not_less)
    then obtain b where b: "best' = Some b" "cost b \<le> cost c" by blast
    with run pick_le_best have "cost r \<le> cost b" by fast
    then show ?thesis using b(2) by (rule order_trans)
  qed
qed

lemma pick_None: "pick P cost bs None = None \<longleftrightarrow> (\<forall>b\<in>snd ` set bs. \<not> P b)"
proof (induction bs)
  case Nil
  then show ?case by simp
next
  case (Cons x bs)
  then show ?case
    using pick_some [of P cost bs "snd x"] by (cases x) auto
qed

lemma pick_in: "pick P cost bs None = Some r \<Longrightarrow> r \<in> snd ` set bs \<and> P r"
proof (induction bs)
  case Nil
  then show ?case by simp
next
  case (Cons x bs)
  then show ?case
    using pick_some [of P cost bs "snd x"] by (cases x) (auto split: if_splits)
qed

lemmas pick_facts = pick_None pick_in pick_le

lemma best_ask_facts:
  "best_ask sid bs = None \<longleftrightarrow> (\<forall>b\<in>snd ` set bs. vtob_symbol_id b \<noteq> sid)"
  "best_ask sid bs = Some r \<Longrightarrow> r \<in> snd ` set bs \<and> vtob_symbol_id r = sid"
  "best_ask sid bs = Some r \<Longrightarrow> c \<in> snd ` set bs \<Longrightarrow> vtob_symbol_id c = sid
     \<Longrightarrow> sint (vtob_ask_px r) \<le> sint (vtob_ask_px c)"
  unfolding best_ask_def best_ask_loop_pick
  by (rule pick_None, erule pick_in, auto dest: pick_le)

lemma best_bid_facts:
  "best_bid sid bs = None \<longleftrightarrow> (\<forall>b\<in>snd ` set bs. vtob_symbol_id b \<noteq> sid)"
  "best_bid sid bs = Some r \<Longrightarrow> r \<in> snd ` set bs \<and> vtob_symbol_id r = sid"
  "best_bid sid bs = Some r \<Longrightarrow> c \<in> snd ` set bs \<Longrightarrow> vtob_symbol_id c = sid
     \<Longrightarrow> sint (vtob_bid_px c) \<le> sint (vtob_bid_px r)"
  unfolding best_bid_def best_bid_loop_pick
  by (rule pick_None, erule pick_in, auto dest: pick_le)

section \<open>Properties\<close>

text \<open>
  The abstract state of the router is a function of the feed: the last valid update each venue
  sent for a symbol.
\<close>

definition last_quote ::
  "NormalizedMarketData list \<Rightarrow> MarketDataVenue \<Rightarrow> SymbolId \<Rightarrow> MarketDataUpdate option" where
  "last_quote us v sid =
     (case filter (\<lambda>md. valid_nmd md \<and> nmd_key md = \<lparr>vbk_venue = v, vbk_symbol_id = sid\<rparr>) us of
        [] \<Rightarrow> None | x # xs \<Rightarrow> Some (nmd_update (last (x # xs))))"

lemma last_quote_find:
  "router_find \<lparr>vbk_venue = v, vbk_symbol_id = sid\<rparr> (snd (run_updates router_update us []))
   = map_option (\<lambda>u. router_entry \<lparr>nmd_venue = v, nmd_update = u\<rparr>) (last_quote us v sid)"
proof -
  let ?P = "\<lambda>md. valid_nmd md \<and> nmd_key md = \<lparr>vbk_venue = v, vbk_symbol_id = sid\<rparr>"
  have entry: "router_entry md = router_entry \<lparr>nmd_venue = v, nmd_update = nmd_update md\<rparr>"
    if "?P md" for md
    using that by (cases md) (simp add: nmd_key_def)
  have "?P (last (x # xs))" if eq: "filter ?P us = x # xs" for x xs
    using last_filter [OF eq] .
  with entry show ?thesis
    using venues.run_last_valid [of "\<lparr>vbk_venue = v, vbk_symbol_id = sid\<rparr>" us "[]"]
    by (simp add: router_find_def last_quote_def split: list.splits)
qed

lemma last_quote_symbol:
  assumes "last_quote us v sid = Some u"
  shows "md_symbol_id u = sid"
proof -
  let ?xs = "filter (\<lambda>md. valid_nmd md \<and> nmd_key md = \<lparr>vbk_venue = v, vbk_symbol_id = sid\<rparr>) us"
  have "?xs \<noteq> []" and u: "u = nmd_update (last ?xs)"
    using assms by (auto simp: last_quote_def split: list.splits)
  then have "last ?xs \<in> set ?xs" by (intro last_in_set)
  then show ?thesis by (simp add: u nmd_key_def)
qed

text \<open>The entries an iteration over the container visits are the last quotes.\<close>

lemma visited_iff:
  assumes "mset bs = mset (snd (run_updates router_update us []))"
  shows "b \<in> snd ` set bs \<longleftrightarrow>
    (\<exists>v sid u. last_quote us v sid = Some u \<and> b = router_entry \<lparr>nmd_venue = v, nmd_update = u\<rparr>
       \<and> md_symbol_id u = sid)"
proof -
  let ?r = "snd (run_updates router_update us [])"
  have wf: "router_wf ?r" by (rule router_run_wf) (simp add: router_wf_def)
  have "set bs = set ?r" using assms by (metis set_mset_mset)
  then have "b \<in> snd ` set bs \<longleftrightarrow> (\<exists>k. router_find k ?r = Some b)"
    using router_wf_find [OF wf, of _ b] by (simp add: image_iff Bex_def)
  also have "\<dots> \<longleftrightarrow> (\<exists>v sid. router_find \<lparr>vbk_venue = v, vbk_symbol_id = sid\<rparr> ?r = Some b)"
    by (metis VenueBookKey.cases)
  also have "\<dots> \<longleftrightarrow> (\<exists>v sid u. last_quote us v sid = Some u
      \<and> b = router_entry \<lparr>nmd_venue = v, nmd_update = u\<rparr>)"
    by (auto simp: last_quote_find)
  finally show ?thesis
    using last_quote_symbol by blast
qed

lemma visited_quote:
  assumes "mset bs = mset (snd (run_updates router_update us []))"
    and "r \<in> snd ` set bs" and "vtob_symbol_id r = sid"
  shows "\<exists>q. last_quote us (vtob_venue r) sid = Some q
    \<and> vtob_ask_px r = md_ask_px q \<and> vtob_bid_px r = md_bid_px q"
  using assms(2,3) by (auto simp: visited_iff [OF assms(1)] router_entry_def Let_def)

lemma quote_visited:
  assumes "mset bs = mset (snd (run_updates router_update us []))"
    and "last_quote us v sid = Some q"
  obtains r where "r \<in> snd ` set bs" "vtob_symbol_id r = sid"
    "vtob_ask_px r = md_ask_px q" "vtob_bid_px r = md_bid_px q"
proof
  let ?r = "router_entry \<lparr>nmd_venue = v, nmd_update = q\<rparr>"
  show "?r \<in> snd ` set bs"
    unfolding visited_iff [OF assms(1)] using assms(2) last_quote_symbol by blast
  show "vtob_symbol_id ?r = sid" "vtob_ask_px ?r = md_ask_px q" "vtob_bid_px ?r = md_bid_px q"
    using last_quote_symbol [OF assms(2)] by (simp_all add: router_entry_def Let_def)
qed

lemma best_ask_quote:
  assumes "mset bs = mset (snd (run_updates router_update us []))"
  shows "case best_ask sid bs of
      None \<Rightarrow> \<forall>v. last_quote us v sid = None
    | Some r \<Rightarrow> \<exists>q. last_quote us (vtob_venue r) sid = Some q \<and> vtob_ask_px r = md_ask_px q
        \<and> (\<forall>v q'. last_quote us v sid = Some q' \<longrightarrow> sint (md_ask_px q) \<le> sint (md_ask_px q'))"
proof (cases "best_ask sid bs")
  case None
  have "last_quote us v sid = None" for v
  proof (rule ccontr)
    assume "last_quote us v sid \<noteq> None"
    then obtain q where "last_quote us v sid = Some q" by blast
    from quote_visited [OF assms this] None show False
      unfolding best_ask_facts(1) by metis
  qed
  with None show ?thesis by simp
next
  case (Some r)
  obtain q where q: "last_quote us (vtob_venue r) sid = Some q" "vtob_ask_px r = md_ask_px q"
    using visited_quote [OF assms] best_ask_facts(2) [OF Some] by blast
  have "sint (md_ask_px q) \<le> sint (md_ask_px q')" if "last_quote us v sid = Some q'" for v q'
    using quote_visited [OF assms that] best_ask_facts(3) [OF Some] q(2) by metis
  with q Some show ?thesis by auto
qed

lemma best_bid_quote:
  assumes "mset bs = mset (snd (run_updates router_update us []))"
  shows "case best_bid sid bs of
      None \<Rightarrow> \<forall>v. last_quote us v sid = None
    | Some r \<Rightarrow> \<exists>q. last_quote us (vtob_venue r) sid = Some q \<and> vtob_bid_px r = md_bid_px q
        \<and> (\<forall>v q'. last_quote us v sid = Some q' \<longrightarrow> sint (md_bid_px q') \<le> sint (md_bid_px q))"
proof (cases "best_bid sid bs")
  case None
  have "last_quote us v sid = None" for v
  proof (rule ccontr)
    assume "last_quote us v sid \<noteq> None"
    then obtain q where "last_quote us v sid = Some q" by blast
    from quote_visited [OF assms this] None show False
      unfolding best_bid_facts(1) by metis
  qed
  with None show ?thesis by simp
next
  case (Some r)
  obtain q where q: "last_quote us (vtob_venue r) sid = Some q" "vtob_bid_px r = md_bid_px q"
    using visited_quote [OF assms] best_bid_facts(2) [OF Some] by blast
  have "sint (md_bid_px q') \<le> sint (md_bid_px q)" if "last_quote us v sid = Some q'" for v q'
    using quote_visited [OF assms that] best_bid_facts(3) [OF Some] q(2) by metis
  with q Some show ?thesis by auto
qed

text \<open>
  C22.  Best execution: whatever order the container is iterated in, a signal is routed exactly
  when some venue has a valid quote for its symbol, and then to a venue whose last valid quote
  holds the routed price, the lowest ask of all venues for a buy and the highest bid for any other
  side; size and side of the signal are kept.
\<close>

theorem route_best_execution:
  assumes "mset bs = mset (snd (run_updates router_update us []))"
  shows "(let d = route_signal s bs; sid = sig_symbol_id s
    in rt_symbol_id d = sid \<and> rt_side d = sig_side s \<and> rt_qty d = sig_qty s
     \<and> (if rt_routeable d
        then \<exists>q. last_quote us (rt_venue d) sid = Some q
          \<and> rt_limit_px d = (if sig_side s = Buy then md_ask_px q else md_bid_px q)
          \<and> (\<forall>v q'. last_quote us v sid = Some q' \<longrightarrow>
                (if sig_side s = Buy then sint (md_ask_px q) \<le> sint (md_ask_px q')
                 else sint (md_bid_px q') \<le> sint (md_bid_px q)))
        else \<forall>v. last_quote us v sid = None))"
proof (cases "sig_side s = Buy")
  case True
  then show ?thesis
    using best_ask_quote [OF assms, of "sig_symbol_id s"]
    by (cases "best_ask (sig_symbol_id s) bs")
       (simp_all add: route_signal_def RouteDecision0_def Let_def)
next
  case False
  then show ?thesis
    using best_bid_quote [OF assms, of "sig_symbol_id s"]
    by (cases "best_bid (sig_symbol_id s) bs")
       (simp_all add: route_signal_def RouteDecision0_def Let_def)
qed

definition venue_quote :: "MarketDataVenue \<Rightarrow> Price \<Rightarrow> Price \<Rightarrow> NormalizedMarketData" where
  "venue_quote v bid ask = \<lparr>nmd_venue = v, nmd_update = MarketDataUpdate0\<lparr>md_symbol_id := 1,
     md_bid_px := bid, md_ask_px := ask\<rparr>\<rparr>"

theorem route_best_execution_witness:
  "(let d = route_signal (Signal0\<lparr>sig_symbol_id := 1\<rparr>)
       (rev (snd (run_updates router_update
          [venue_quote Binance 100 105, venue_quote Coinbase 101 104] [])))
    in rt_routeable d \<and> rt_limit_px d = 104)"
proof -
  let ?us = "[venue_quote Binance 100 105, venue_quote Coinbase 101 104]"
  let ?r = "snd (run_updates router_update ?us [])"
  have q: "last_quote ?us Coinbase 1 = Some (nmd_update (venue_quote Coinbase 101 104))"
    "last_quote ?us Binance 1 = Some (nmd_update (venue_quote Binance 100 105))"
    "last_quote ?us Polygon 1 = None" "last_quote ?us Hyperliquid 1 = None"
    "last_quote ?us SimulatedItch 1 = None"
    by (simp_all add: last_quote_def venue_quote_def nmd_key_def valid_nmd_def valid_quote_def)
  have side: "sig_side (Signal0\<lparr>sig_symbol_id := 1\<rparr>) = Buy" by (simp add: Signal0_def)
  let ?d = "route_signal (Signal0\<lparr>sig_symbol_id := 1\<rparr>) (rev ?r)"
  have "mset (rev ?r) = mset ?r" by simp
  from route_best_execution [OF this, of "Signal0\<lparr>sig_symbol_id := 1\<rparr>"] side
  have d: "if rt_routeable ?d
      then \<exists>q. last_quote ?us (rt_venue ?d) 1 = Some q \<and> rt_limit_px ?d = md_ask_px q
        \<and> (\<forall>v q'. last_quote ?us v 1 = Some q' \<longrightarrow> sint (md_ask_px q) \<le> sint (md_ask_px q'))
      else (\<forall>v. last_quote ?us v 1 = None)"
    by (simp add: Let_def split: if_splits)
  then have routeable: "rt_routeable ?d" using q(1) by (auto split: if_splits)
  with d obtain q where "last_quote ?us (rt_venue ?d) 1 = Some q" "rt_limit_px ?d = md_ask_px q"
    "\<And>v q'. last_quote ?us v 1 = Some q' \<Longrightarrow> sint (md_ask_px q) \<le> sint (md_ask_px q')"
    by auto
  with this(3) [OF q(1)] q have "rt_limit_px ?d = 104"
    by (cases "rt_venue ?d") (auto simp: venue_quote_def)
  with routeable show ?thesis by (simp add: Let_def)
qed

text \<open>
  Ties are broken by the iteration order alone: of two venues that quote the same symbol at
  the same ask and bid, buys and sells go to the one the container visits first, so the order of an
  \<open>std::unordered_map\<close>, which no rule of the program fixes, decides the venue of the order.
\<close>

theorem route_tie_by_iteration_order:
  "(let a = router_entry (venue_quote v bid ask); b = router_entry (venue_quote w bid ask);
        ka = nmd_key (venue_quote v bid ask); kb = nmd_key (venue_quote w bid ask);
        s = Signal0\<lparr>sig_symbol_id := 1, sig_side := side\<rparr>
    in rt_venue (route_signal s [(ka, a), (kb, b)]) = v
     \<and> rt_venue (route_signal s [(kb, b), (ka, a)]) = w)"
  by (simp add: Let_def route_signal_def best_ask_def best_bid_def router_entry_def
      venue_quote_def RouteDecision0_def Signal0_def)

end
