(* ===== verification/Kill_Switch.thy ===== *)
theory Kill_Switch
  imports Effects
begin

text \<open>
  The kill switch of src/kill_switch.cpp.  First the operations as they run one at a time; then the
  latch of \<open>trigger\<close> under concurrency, where the compare-and-exchange and the two stores that
  follow it are separate steps of the calling thread.  Whether the halt file exists is an argument
  of the check, and so is each clock reading.
\<close>

section \<open>Reasons, limits and state\<close>

datatype KillSwitchReason =
    KS_None | KS_ManualOperatorHalt | KS_MaxRoutesExceeded | KS_MaxRejectsExceeded
  | KS_GatewayDisconnect | KS_Unknown | KS_Other byte

fun ks_reason_byte :: "KillSwitchReason \<Rightarrow> byte" where
  "ks_reason_byte KS_None = 0"
| "ks_reason_byte KS_ManualOperatorHalt = 1"
| "ks_reason_byte KS_MaxRoutesExceeded = 2"
| "ks_reason_byte KS_MaxRejectsExceeded = 3"
| "ks_reason_byte KS_GatewayDisconnect = 4"
| "ks_reason_byte KS_Unknown = 255"
| "ks_reason_byte (KS_Other b) = b"

definition ks_reason_of_byte :: "byte \<Rightarrow> KillSwitchReason" where
  "ks_reason_of_byte b =
     (if b = 0 then KS_None else if b = 1 then KS_ManualOperatorHalt
      else if b = 2 then KS_MaxRoutesExceeded else if b = 3 then KS_MaxRejectsExceeded
      else if b = 4 then KS_GatewayDisconnect else if b = 255 then KS_Unknown else KS_Other b)"

fun to_string_ks_reason :: "KillSwitchReason \<Rightarrow> string" where
  "to_string_ks_reason KS_None = ''None''"
| "to_string_ks_reason KS_ManualOperatorHalt = ''ManualOperatorHalt''"
| "to_string_ks_reason KS_MaxRoutesExceeded = ''MaxRoutesExceeded''"
| "to_string_ks_reason KS_MaxRejectsExceeded = ''MaxRejectsExceeded''"
| "to_string_ks_reason KS_GatewayDisconnect = ''GatewayDisconnect''"
| "to_string_ks_reason _ = ''Unknown''"

record KillSwitchLimits =
  ksl_max_routes_per_run :: u64
  ksl_max_rejects_per_run :: u64
  ksl_max_gateway_disconnects :: u64

definition KillSwitchLimits0 :: KillSwitchLimits where
  "KillSwitchLimits0 = \<lparr>ksl_max_routes_per_run = 100000, ksl_max_rejects_per_run = 100,
     ksl_max_gateway_disconnects = 5\<rparr>"

record KillSwitchState =
  kss_trading_enabled :: bool
  kss_reason :: KillSwitchReason
  kss_triggered_ts_ns :: TimestampNs
  kss_routes_seen :: u64
  kss_rejects_seen :: u64
  kss_gateway_disconnects :: u64

text \<open>The reason is stored as a 64-bit integer and cast back to the enumeration by the snapshot.\<close>

record KillSwitch =
  ks_limits :: KillSwitchLimits
  ks_enabled :: bool
  ks_reason :: u64
  ks_triggered_ts_ns :: TimestampNs
  ks_routes_seen :: u64
  ks_rejects_seen :: u64
  ks_gateway_disconnects :: u64

definition kill_switch_new :: "KillSwitchLimits \<Rightarrow> KillSwitch" where
  "kill_switch_new limits = \<lparr>ks_limits = limits, ks_enabled = True,
     ks_reason = ucast (ks_reason_byte KS_None), ks_triggered_ts_ns = 0,
     ks_routes_seen = 0, ks_rejects_seen = 0, ks_gateway_disconnects = 0\<rparr>"

section \<open>Operations\<close>

definition ks_check_manual_halt_file :: "bool \<Rightarrow> KillSwitchReason option" where
  "ks_check_manual_halt_file halt_exists =
     (if halt_exists then Some KS_ManualOperatorHalt else None)"

definition ks_trigger ::
  "TimestampNs \<Rightarrow> KillSwitchReason \<Rightarrow> KillSwitch \<Rightarrow> effect list \<times> KillSwitch" where
  "ks_trigger t reason k =
     (if ks_enabled k
      then ([Log Error ''kill_switch'' (to_string_ks_reason reason)],
            k\<lparr>ks_enabled := False, ks_reason := ucast (ks_reason_byte reason),
              ks_triggered_ts_ns := t\<rparr>)
      else ([], k))"

definition ks_trading_enabled ::
  "TimestampNs \<Rightarrow> bool \<Rightarrow> KillSwitch \<Rightarrow> bool \<times> effect list \<times> KillSwitch" where
  "ks_trading_enabled t halt_exists k =
     (let (es, k1) = (case ks_check_manual_halt_file halt_exists of
                        Some reason \<Rightarrow> ks_trigger t reason k
                      | None \<Rightarrow> ([], k))
      in (ks_enabled k1, es, k1))"

definition ks_on_route :: "TimestampNs \<Rightarrow> KillSwitch \<Rightarrow> effect list \<times> KillSwitch" where
  "ks_on_route t k =
     (let count = ks_routes_seen k + 1; k1 = k\<lparr>ks_routes_seen := count\<rparr>
      in if count > ksl_max_routes_per_run (ks_limits k)
         then ks_trigger t KS_MaxRoutesExceeded k1 else ([], k1))"

definition ks_on_reject :: "TimestampNs \<Rightarrow> KillSwitch \<Rightarrow> effect list \<times> KillSwitch" where
  "ks_on_reject t k =
     (let count = ks_rejects_seen k + 1; k1 = k\<lparr>ks_rejects_seen := count\<rparr>
      in if count > ksl_max_rejects_per_run (ks_limits k)
         then ks_trigger t KS_MaxRejectsExceeded k1 else ([], k1))"

definition ks_on_gateway_disconnect :: "TimestampNs \<Rightarrow> KillSwitch \<Rightarrow> effect list \<times> KillSwitch" where
  "ks_on_gateway_disconnect t k =
     (let count = ks_gateway_disconnects k + 1; k1 = k\<lparr>ks_gateway_disconnects := count\<rparr>
      in if count > ksl_max_gateway_disconnects (ks_limits k)
         then ks_trigger t KS_GatewayDisconnect k1 else ([], k1))"

definition ks_reset :: "KillSwitch \<Rightarrow> effect list \<times> KillSwitch" where
  "ks_reset k =
     ([Log Warn ''kill_switch'' ''kill switch reset''],
      k\<lparr>ks_routes_seen := 0, ks_rejects_seen := 0, ks_gateway_disconnects := 0,
        ks_reason := ucast (ks_reason_byte KS_None), ks_triggered_ts_ns := 0,
        ks_enabled := True\<rparr>)"

definition ks_snapshot :: "KillSwitch \<Rightarrow> KillSwitchState" where
  "ks_snapshot k = \<lparr>kss_trading_enabled = ks_enabled k,
     kss_reason = ks_reason_of_byte (ucast (ks_reason k)),
     kss_triggered_ts_ns = ks_triggered_ts_ns k, kss_routes_seen = ks_routes_seen k,
     kss_rejects_seen = ks_rejects_seen k, kss_gateway_disconnects = ks_gateway_disconnects k\<rparr>"

section \<open>Histories and their specification\<close>

datatype ks_event =
    KE_Check bool | KE_Route | KE_Reject | KE_Disconnect | KE_Trigger KillSwitchReason

definition ks_step :: "TimestampNs \<times> ks_event \<Rightarrow> KillSwitch \<Rightarrow> KillSwitch" where
  "ks_step = (\<lambda>(t, ev) k. case ev of
     KE_Check halt \<Rightarrow> snd (snd (ks_trading_enabled t halt k))
   | KE_Route \<Rightarrow> snd (ks_on_route t k)
   | KE_Reject \<Rightarrow> snd (ks_on_reject t k)
   | KE_Disconnect \<Rightarrow> snd (ks_on_gateway_disconnect t k)
   | KE_Trigger reason \<Rightarrow> snd (ks_trigger t reason k))"

definition ks_run :: "(TimestampNs \<times> ks_event) list \<Rightarrow> KillSwitch \<Rightarrow> KillSwitch" where
  "ks_run evs k = fold ks_step evs k"

text \<open>
  The specification counts in natural numbers: \<open>event_trip\<close> says whether an event is a cause to
  halt, given how many events of its kind came before, and \<open>first_trip\<close> finds the first cause.
\<close>

definition event_trip :: "KillSwitchLimits \<Rightarrow> (ks_event \<Rightarrow> nat) \<Rightarrow> ks_event \<Rightarrow> KillSwitchReason option" where
  "event_trip l before ev = (case ev of
     KE_Check halt \<Rightarrow> if halt then Some KS_ManualOperatorHalt else None
   | KE_Route \<Rightarrow> if unat (ksl_max_routes_per_run l) \<le> before KE_Route
        then Some KS_MaxRoutesExceeded else None
   | KE_Reject \<Rightarrow> if unat (ksl_max_rejects_per_run l) \<le> before KE_Reject
        then Some KS_MaxRejectsExceeded else None
   | KE_Disconnect \<Rightarrow> if unat (ksl_max_gateway_disconnects l) \<le> before KE_Disconnect
        then Some KS_GatewayDisconnect else None
   | KE_Trigger reason \<Rightarrow> Some reason)"

fun first_trip ::
  "KillSwitchLimits \<Rightarrow> (ks_event \<Rightarrow> nat) \<Rightarrow> (TimestampNs \<times> ks_event) list
   \<Rightarrow> (KillSwitchReason \<times> TimestampNs) option" where
  "first_trip l before [] = None"
| "first_trip l before ((t, ev) # evs) =
     (case event_trip l before ev of
        Some reason \<Rightarrow> Some (reason, t)
      | None \<Rightarrow> first_trip l (before(ev := Suc (before ev))) evs)"

definition occurs :: "ks_event \<Rightarrow> (TimestampNs \<times> ks_event) list \<Rightarrow> nat" where
  "occurs ev evs = length (filter (\<lambda>x. snd x = ev) evs)"

lemma occurs_simps [simp]:
  "occurs ev [] = 0" "occurs ev (x # xs) = (if snd x = ev then 1 else 0) + occurs ev xs"
  by (simp_all add: occurs_def)

text \<open>Counters and the halted state along a run.\<close>

lemma ks_step_counters [simp]:
  "ks_limits (ks_step x k) = ks_limits k"
  "ks_routes_seen (ks_step x k) = ks_routes_seen k + (if snd x = KE_Route then 1 else 0)"
  "ks_rejects_seen (ks_step x k) = ks_rejects_seen k + (if snd x = KE_Reject then 1 else 0)"
  "ks_gateway_disconnects (ks_step x k)
     = ks_gateway_disconnects k + (if snd x = KE_Disconnect then 1 else 0)"
  by (cases x; cases "snd x"; simp add: ks_step_def ks_trading_enabled_def ks_on_route_def
      ks_on_reject_def ks_on_gateway_disconnect_def ks_trigger_def ks_check_manual_halt_file_def
      Let_def)+

lemma ks_run_simps [simp]: "ks_run [] k = k" "ks_run (x # xs) k = ks_run xs (ks_step x k)"
  by (simp_all add: ks_run_def)

lemma ks_run_counters:
  "ks_limits (ks_run evs k) = ks_limits k
   \<and> ks_routes_seen (ks_run evs k) = ks_routes_seen k + of_nat (occurs KE_Route evs)
   \<and> ks_rejects_seen (ks_run evs k) = ks_rejects_seen k + of_nat (occurs KE_Reject evs)
   \<and> ks_gateway_disconnects (ks_run evs k)
       = ks_gateway_disconnects k + of_nat (occurs KE_Disconnect evs)"
  by (induction evs arbitrary: k) simp_all

lemma ks_step_latched:
  "\<not> ks_enabled k \<Longrightarrow> \<not> ks_enabled (ks_step x k) \<and> ks_reason (ks_step x k) = ks_reason k
     \<and> ks_triggered_ts_ns (ks_step x k) = ks_triggered_ts_ns k"
  by (cases x; cases "snd x"; simp add: ks_step_def ks_trading_enabled_def ks_on_route_def
      ks_on_reject_def ks_on_gateway_disconnect_def ks_trigger_def ks_check_manual_halt_file_def
      Let_def)

lemma ks_run_latched:
  "\<not> ks_enabled k \<Longrightarrow> \<not> ks_enabled (ks_run evs k) \<and> ks_reason (ks_run evs k) = ks_reason k
     \<and> ks_triggered_ts_ns (ks_run evs k) = ks_triggered_ts_ns k"
  by (induction evs arbitrary: k) (auto simp: ks_step_latched)

definition ks_tracks :: "(ks_event \<Rightarrow> nat) \<Rightarrow> KillSwitch \<Rightarrow> bool" where
  "ks_tracks before k \<longleftrightarrow> unat (ks_routes_seen k) = before KE_Route
     \<and> unat (ks_rejects_seen k) = before KE_Reject
     \<and> unat (ks_gateway_disconnects k) = before KE_Disconnect"

lemma ks_step_trip:
  assumes "ks_enabled k" and "ks_tracks before k" and "before ev < 2 ^ 64 - 1"
  shows "(case event_trip (ks_limits k) before ev of
      Some reason \<Rightarrow> \<not> ks_enabled (ks_step (t, ev) k)
        \<and> ks_reason (ks_step (t, ev) k) = ucast (ks_reason_byte reason)
        \<and> ks_triggered_ts_ns (ks_step (t, ev) k) = t
    | None \<Rightarrow> ks_enabled (ks_step (t, ev) k) \<and> ks_reason (ks_step (t, ev) k) = ks_reason k
        \<and> ks_triggered_ts_ns (ks_step (t, ev) k) = ks_triggered_ts_ns k)"
  using assms
  by (cases ev)
     (auto simp: event_trip_def ks_step_def ks_trading_enabled_def ks_on_route_def ks_on_reject_def
        ks_on_gateway_disconnect_def ks_trigger_def ks_check_manual_halt_file_def ks_tracks_def
        word_less_nat_alt unat_plus_one_u64 Let_def)

lemma ks_step_tracks:
  assumes "ks_tracks before k" and "before ev < 2 ^ 64 - 1"
  shows "ks_tracks (before(ev := Suc (before ev))) (ks_step (t, ev) k)"
  using assms by (cases ev) (auto simp: ks_tracks_def unat_plus_one_u64)

lemma ks_run_first_trip:
  assumes "ks_enabled k" and "ks_tracks before k" and "\<And>ev. before ev + length evs < 2 ^ 64"
  shows "case first_trip (ks_limits k) before evs of
      None \<Rightarrow> ks_enabled (ks_run evs k) \<and> ks_reason (ks_run evs k) = ks_reason k
        \<and> ks_triggered_ts_ns (ks_run evs k) = ks_triggered_ts_ns k
    | Some (reason, t) \<Rightarrow> \<not> ks_enabled (ks_run evs k)
        \<and> ks_reason (ks_run evs k) = ucast (ks_reason_byte reason)
        \<and> ks_triggered_ts_ns (ks_run evs k) = t"
  using assms
proof (induction evs arbitrary: k before)
  case Nil
  then show ?case by simp
next
  case (Cons x evs)
  obtain t ev where x: "x = (t, ev)" by (cases x)
  have small: "before ev < 2 ^ 64 - 1" using Cons.prems(3) [of ev] by simp
  note step = ks_step_trip [OF Cons.prems(1,2) small, of t]
  show ?case
  proof (cases "event_trip (ks_limits k) before ev")
    case (Some reason)
    with step ks_run_latched [of "ks_step (t, ev) k" evs] x show ?thesis by simp
  next
    case None
    have "(before(ev := Suc (before ev))) e + length evs < 2 ^ 64" for e
      using Cons.prems(3) [of e] by (auto simp: fun_upd_apply)
    from Cons.IH [OF _ ks_step_tracks [OF Cons.prems(2) small] this, of t] step None
    show ?thesis unfolding x ks_run_simps by (simp del: fun_upd_apply split: option.splits prod.splits)
  qed
qed

lemma ks_reset_fresh: "snd (ks_reset k) = kill_switch_new (ks_limits k)"
  by (cases k) (simp add: ks_reset_def kill_switch_new_def)

lemma ks_reason_roundtrip [simp]:
  "ks_reason_of_byte (ucast (ucast b :: u64)) = ks_reason_of_byte b"
proof -
  have "ucast (ucast b :: u64) = b"
    by (rule bit_word_eqI) (simp add: bit_simps)
  then show ?thesis by simp
qed

text \<open>
  C23.  The switch latches the first cause: after any history of checks, routes, rejects,
  disconnects and manual triggers since construction or the last reset (shorter than 2 to the power
  64), trading is enabled exactly when no event was a cause to halt, and otherwise reason and time
  stamp are those of the first cause, whatever happened later (removing the halt file included);
  the counters are the numbers of events.
\<close>

theorem kill_switch_first_cause:
  assumes "length evs < 2 ^ 64"
    and "k = snd (ks_reset (ks_run earlier (kill_switch_new limits)))"
  shows "(let s = ks_snapshot (ks_run evs k)
    in (case first_trip limits (\<lambda>_. 0) evs of
          None \<Rightarrow> kss_trading_enabled s \<and> kss_reason s = KS_None \<and> kss_triggered_ts_ns s = 0
        | Some (reason, t) \<Rightarrow> \<not> kss_trading_enabled s
            \<and> kss_reason s = ks_reason_of_byte (ks_reason_byte reason) \<and> kss_triggered_ts_ns s = t)
     \<and> unat (kss_routes_seen s) = occurs KE_Route evs
     \<and> unat (kss_rejects_seen s) = occurs KE_Reject evs
     \<and> unat (kss_gateway_disconnects s) = occurs KE_Disconnect evs)"
proof -
  have k: "k = kill_switch_new limits"
    using ks_run_counters [of earlier "kill_switch_new limits"]
    by (simp add: assms(2) ks_reset_fresh kill_switch_new_def)
  have "occurs e evs < 2 ^ 64" for e
    unfolding occurs_def using length_filter_le assms(1) by (rule le_less_trans)
  then have count: "unat (of_nat (occurs e evs) :: u64) = occurs e evs" for e
    by (rule unat_of_nat_u64)
  have start: "ks_enabled k" "ks_tracks (\<lambda>_. 0) k" "ks_limits k = limits" "ks_reason k = 0"
    "ks_triggered_ts_ns k = 0" "ks_routes_seen k = 0" "ks_rejects_seen k = 0"
    "ks_gateway_disconnects k = 0"
    by (simp_all add: k kill_switch_new_def ks_tracks_def)
  have "ks_reason_of_byte 0 = KS_None" by (simp add: ks_reason_of_byte_def)
  with ks_run_first_trip [OF start(1,2), of evs] ks_run_counters [of evs k] assms(1) count start
  show ?thesis
    by (cases "first_trip limits (\<lambda>_. 0) evs") (auto simp: ks_snapshot_def Let_def)
qed

theorem kill_switch_first_cause_witness:
  "\<not> kss_trading_enabled (ks_snapshot (ks_run [(10, KE_Check True), (11, KE_Check False)]
      (snd (ks_reset (ks_run [] (kill_switch_new KillSwitchLimits0))))))"
  using kill_switch_first_cause [OF _ refl,
      of "[(10, KE_Check True), (11, KE_Check False)]" "[]" KillSwitchLimits0]
  by (simp add: Let_def event_trip_def)

section \<open>The guarded route loop\<close>

text \<open>
  The loop of apps/kill_switch_demo.cpp, and the way every user of the switch guards a route:
  check, then report the route.  The count is the number of \<open>order_sent\<close> lines; \<open>ts\<close> holds the
  clock readings of the attempts, and the halt file does not exist.
\<close>

fun ks_guarded_routes :: "TimestampNs list \<Rightarrow> KillSwitch \<Rightarrow> nat \<times> KillSwitch" where
  "ks_guarded_routes [] k = (0, k)"
| "ks_guarded_routes (t # ts) k =
     (case ks_trading_enabled t False k of
        (enabled, _, k1) \<Rightarrow>
          if \<not> enabled then (0, k1)
          else (let (_, k2) = ks_on_route t k1; (n, r) = ks_guarded_routes ts k2
                in (Suc n, r)))"

definition kill_switch_demo :: "TimestampNs list \<Rightarrow> nat \<times> KillSwitchState" where
  "kill_switch_demo ts =
     (let (n, k) = ks_guarded_routes ts (kill_switch_new \<lparr>ksl_max_routes_per_run = 3,
         ksl_max_rejects_per_run = 2, ksl_max_gateway_disconnects = 1\<rparr>)
      in (n, ks_snapshot k))"

lemma ks_guarded_routes_halted: "\<not> ks_enabled k \<Longrightarrow> ks_guarded_routes ts k = (0, k)"
  by (cases ts) (simp_all add: ks_trading_enabled_def ks_check_manual_halt_file_def Let_def)

lemma ks_guarded_routes_count:
  assumes "ks_enabled k" and "unat (ks_routes_seen k) \<le> unat (ksl_max_routes_per_run (ks_limits k))"
    and "unat (ks_routes_seen k) + length ts < 2 ^ 64"
  shows "fst (ks_guarded_routes ts k)
    = min (length ts) (Suc (unat (ksl_max_routes_per_run (ks_limits k)) - unat (ks_routes_seen k)))"
  using assms
proof (induction ts arbitrary: k)
  case Nil
  then show ?case by simp
next
  case (Cons t ts)
  let ?max = "ksl_max_routes_per_run (ks_limits k)"
  have next_count: "unat (ks_routes_seen k + 1) = Suc (unat (ks_routes_seen k))"
    using Cons.prems(3) by (simp add: unat_plus_one_u64)
  show ?case
  proof (cases "unat (ks_routes_seen k) = unat ?max")
    case True
    then have "ks_routes_seen k + 1 > ?max" by (simp add: word_less_nat_alt next_count)
    with Cons.prems(1) True show ?thesis
      by (simp add: ks_trading_enabled_def ks_check_manual_halt_file_def ks_on_route_def
          ks_trigger_def ks_guarded_routes_halted Let_def)
  next
    case False
    with Cons.prems(2) have "\<not> ks_routes_seen k + 1 > ?max"
      by (simp add: word_less_nat_alt next_count)
    with Cons.prems False next_count show ?thesis
      by (simp add: ks_trading_enabled_def ks_check_manual_halt_file_def ks_on_route_def
          Cons.IH Let_def split_beta)
  qed
qed

text \<open>
  The route limit lets one route more than the limit through: of \<open>n\<close> guarded attempts from a
  fresh switch, exactly the smaller of \<open>n\<close> and the limit plus one are routed, because the count is
  compared after the route was admitted.
\<close>

theorem kill_switch_routes_admitted:
  assumes "length ts < 2 ^ 64"
  shows "fst (ks_guarded_routes ts (kill_switch_new limits))
    = min (length ts) (Suc (unat (ksl_max_routes_per_run limits)))"
  using assms by (subst ks_guarded_routes_count) (simp_all add: kill_switch_new_def)

theorem kill_switch_routes_admitted_witness:
  "fst (kill_switch_demo [1, 2, 3, 4, 5]) = 4"
  using kill_switch_routes_admitted [of "[1, 2, 3, 4, 5]" "\<lparr>ksl_max_routes_per_run = 3,
         ksl_max_rejects_per_run = 2, ksl_max_gateway_disconnects = 1\<rparr>"]
  by (simp add: kill_switch_demo_def Let_def split_beta)

section \<open>Concurrent triggers\<close>

text \<open>
  Several threads call \<open>trigger\<close> at once.  A thread has called, has won the compare-and-exchange,
  has stored the reason, has stored the time stamp and logged, or has lost.
\<close>

datatype trigger_pc =
    TP_Call KillSwitchReason TimestampNs
  | TP_Won KillSwitchReason TimestampNs
  | TP_Stored KillSwitchReason TimestampNs
  | TP_Logged KillSwitchReason TimestampNs
  | TP_Lost KillSwitchReason TimestampNs

record trigger_conf =
  tc_enabled :: bool
  tc_reason :: u64
  tc_triggered_ts_ns :: TimestampNs
  tc_threads :: "trigger_pc list"

definition trigger_start :: "(KillSwitchReason \<times> TimestampNs) list \<Rightarrow> trigger_conf" where
  "trigger_start calls = \<lparr>tc_enabled = True, tc_reason = 0, tc_triggered_ts_ns = 0,
     tc_threads = map (\<lambda>(r, t). TP_Call r t) calls\<rparr>"

inductive trigger_step :: "trigger_conf \<Rightarrow> trigger_conf \<Rightarrow> bool" where
  cas_wins: "i < length (tc_threads c) \<Longrightarrow> tc_threads c ! i = TP_Call r t \<Longrightarrow> tc_enabled c \<Longrightarrow>
     trigger_step c (c\<lparr>tc_enabled := False, tc_threads := (tc_threads c)[i := TP_Won r t]\<rparr>)"
| cas_fails: "i < length (tc_threads c) \<Longrightarrow> tc_threads c ! i = TP_Call r t \<Longrightarrow> \<not> tc_enabled c \<Longrightarrow>
     trigger_step c (c\<lparr>tc_threads := (tc_threads c)[i := TP_Lost r t]\<rparr>)"
| store_reason: "i < length (tc_threads c) \<Longrightarrow> tc_threads c ! i = TP_Won r t \<Longrightarrow>
     trigger_step c (c\<lparr>tc_reason := ucast (ks_reason_byte r),
                       tc_threads := (tc_threads c)[i := TP_Stored r t]\<rparr>)"
| store_time: "i < length (tc_threads c) \<Longrightarrow> tc_threads c ! i = TP_Stored r t \<Longrightarrow>
     trigger_step c (c\<lparr>tc_triggered_ts_ns := t,
                       tc_threads := (tc_threads c)[i := TP_Logged r t]\<rparr>)"

fun pc_call :: "trigger_pc \<Rightarrow> KillSwitchReason \<times> TimestampNs" where
  "pc_call (TP_Call r t) = (r, t)"
| "pc_call (TP_Won r t) = (r, t)"
| "pc_call (TP_Stored r t) = (r, t)"
| "pc_call (TP_Logged r t) = (r, t)"
| "pc_call (TP_Lost r t) = (r, t)"

fun pc_loser :: "trigger_pc \<Rightarrow> bool" where
  "pc_loser (TP_Call r t) = True"
| "pc_loser (TP_Lost r t) = True"
| "pc_loser _ = False"

fun pc_done :: "trigger_pc \<Rightarrow> bool" where
  "pc_done (TP_Logged r t) = True"
| "pc_done (TP_Lost r t) = True"
| "pc_done _ = False"

fun pc_waiting :: "trigger_pc \<Rightarrow> bool" where
  "pc_waiting (TP_Call r t) = True"
| "pc_waiting _ = False"

text \<open>What the shared fields hold while the winner is at a given point.\<close>

definition winner_state :: "trigger_pc \<Rightarrow> u64 \<Rightarrow> TimestampNs \<Rightarrow> bool" where
  "winner_state pc reason ts = (case pc of
     TP_Won r t \<Rightarrow> reason = 0 \<and> ts = 0
   | TP_Stored r t \<Rightarrow> reason = ucast (ks_reason_byte r) \<and> ts = 0
   | TP_Logged r t \<Rightarrow> reason = ucast (ks_reason_byte r) \<and> ts = t
   | _ \<Rightarrow> False)"

definition trigger_inv :: "(KillSwitchReason \<times> TimestampNs) list \<Rightarrow> trigger_conf \<Rightarrow> bool" where
  "trigger_inv calls c \<longleftrightarrow> map pc_call (tc_threads c) = calls
     \<and> (if tc_enabled c
        then list_all pc_waiting (tc_threads c) \<and> tc_reason c = 0 \<and> tc_triggered_ts_ns c = 0
        else \<exists>w<length (tc_threads c).
               winner_state (tc_threads c ! w) (tc_reason c) (tc_triggered_ts_ns c)
             \<and> (\<forall>j<length (tc_threads c). j \<noteq> w \<longrightarrow> pc_loser (tc_threads c ! j)))"

lemma map_pc_call_update:
  "pc_call pc = pc_call (ts ! i) \<Longrightarrow> map pc_call (ts[i := pc]) = map pc_call ts"
  by (cases "i < length ts") (simp_all add: map_update list_update_same_conv list_update_beyond)

lemma pc_waiting_loser: "pc_waiting pc \<Longrightarrow> pc_loser pc"
  by (cases pc) simp_all

lemma trigger_inv_start: "trigger_inv calls (trigger_start calls)"
  by (auto simp: trigger_inv_def trigger_start_def list_all_iff comp_def split_beta)

lemma trigger_inv_step:
  assumes "trigger_inv calls c" and "trigger_step c c'"
  shows "trigger_inv calls c'"
  using assms(2,1)
proof (cases rule: trigger_step.cases)
  case (cas_wins i r t)
  with assms(1) have "list_all pc_waiting (tc_threads c)" and calls: "map pc_call (tc_threads c) = calls"
    by (auto simp: trigger_inv_def)
  then have "\<forall>j<length (tc_threads c). pc_loser (tc_threads c ! j)"
    by (simp add: list_all_length pc_waiting_loser)
  moreover have "map pc_call ((tc_threads c)[i := TP_Won r t]) = calls"
    using calls cas_wins by (simp add: map_pc_call_update)
  ultimately show ?thesis
    using cas_wins assms(1)
    by (auto simp: trigger_inv_def winner_state_def nth_list_update intro!: exI [of _ i])
next
  case (cas_fails i r t)
  with assms(1) obtain w where w: "w < length (tc_threads c)"
    "winner_state (tc_threads c ! w) (tc_reason c) (tc_triggered_ts_ns c)"
    "\<forall>j<length (tc_threads c). j \<noteq> w \<longrightarrow> pc_loser (tc_threads c ! j)"
    and calls: "map pc_call (tc_threads c) = calls"
    by (auto simp: trigger_inv_def)
  have "i \<noteq> w" using w(2) cas_fails by (auto simp: winner_state_def)
  moreover have "map pc_call ((tc_threads c)[i := TP_Lost r t]) = calls"
    using calls cas_fails by (simp add: map_pc_call_update)
  ultimately show ?thesis
    using cas_fails w by (auto simp: trigger_inv_def nth_list_update intro!: exI [of _ w])
next
  case (store_reason i r t)
  have off: "\<not> tc_enabled c"
    using assms(1) store_reason
    by (auto simp: trigger_inv_def list_all_length split: if_splits dest!: spec [of _ i])
  with assms(1) obtain w where w: "w < length (tc_threads c)"
    "winner_state (tc_threads c ! w) (tc_reason c) (tc_triggered_ts_ns c)"
    "\<forall>j<length (tc_threads c). j \<noteq> w \<longrightarrow> pc_loser (tc_threads c ! j)"
    and calls: "map pc_call (tc_threads c) = calls"
    by (auto simp: trigger_inv_def)
  have "i = w" using w(3) store_reason by force
  moreover have "map pc_call ((tc_threads c)[i := TP_Stored r t]) = calls"
    using calls store_reason by (simp add: map_pc_call_update)
  ultimately show ?thesis
    using store_reason w off
    by (auto simp: trigger_inv_def winner_state_def nth_list_update intro!: exI [of _ w])
next
  case (store_time i r t)
  have off: "\<not> tc_enabled c"
    using assms(1) store_time
    by (auto simp: trigger_inv_def list_all_length split: if_splits dest!: spec [of _ i])
  with assms(1) obtain w where w: "w < length (tc_threads c)"
    "winner_state (tc_threads c ! w) (tc_reason c) (tc_triggered_ts_ns c)"
    "\<forall>j<length (tc_threads c). j \<noteq> w \<longrightarrow> pc_loser (tc_threads c ! j)"
    and calls: "map pc_call (tc_threads c) = calls"
    by (auto simp: trigger_inv_def)
  have "i = w" using w(3) store_time by force
  moreover have "map pc_call ((tc_threads c)[i := TP_Logged r t]) = calls"
    using calls store_time by (simp add: map_pc_call_update)
  ultimately show ?thesis
    using store_time w off
    by (auto simp: trigger_inv_def winner_state_def nth_list_update intro!: exI [of _ w])
qed

text \<open>
  C28.  Concurrent triggers: however the steps of the callers interleave, the switch stays enabled
  only while nobody has passed the compare-and-exchange, a halted switch has exactly one winner,
  and once every caller has returned (at least one called) trading is off and reason and time stamp
  are those of one and the same call.  Before the winner's first store a reader can see trading off
  with no reason.
\<close>

theorem concurrent_trigger_latches:
  assumes "trigger_step\<^sup>*\<^sup>* (trigger_start calls) c"
  shows "(if tc_enabled c then list_all pc_waiting (tc_threads c)
      else \<exists>w<length (tc_threads c). \<not> pc_loser (tc_threads c ! w)
         \<and> (\<forall>j<length (tc_threads c). j \<noteq> w \<longrightarrow> pc_loser (tc_threads c ! j)))
   \<and> (calls \<noteq> [] \<and> list_all pc_done (tc_threads c) \<longrightarrow>
        \<not> tc_enabled c \<and> (\<exists>(r, t)\<in>set calls. tc_reason c = ucast (ks_reason_byte r)
           \<and> tc_triggered_ts_ns c = t))"
proof -
  have inv: "trigger_inv calls c"
    using assms by induction (auto intro: trigger_inv_start trigger_inv_step)
  have "\<not> tc_enabled c \<and> (\<exists>(r, t)\<in>set calls. tc_reason c = ucast (ks_reason_byte r)
           \<and> tc_triggered_ts_ns c = t)"
    if ne: "calls \<noteq> []" and fin: "list_all pc_done (tc_threads c)"
  proof -
    have off: "\<not> tc_enabled c"
    proof
      assume "tc_enabled c"
      with inv have "list_all pc_waiting (tc_threads c)" "tc_threads c \<noteq> []"
        using ne by (auto simp: trigger_inv_def)
      with fin show False by (cases "tc_threads c"; cases "hd (tc_threads c)") auto
    qed
    with inv obtain w where w: "w < length (tc_threads c)"
      "winner_state (tc_threads c ! w) (tc_reason c) (tc_triggered_ts_ns c)"
      and calls: "map pc_call (tc_threads c) = calls"
      by (auto simp: trigger_inv_def)
    have "pc_done (tc_threads c ! w)" using fin w(1) by (simp add: list_all_length)
    with w(2) obtain r t where "tc_threads c ! w = TP_Logged r t"
      "tc_reason c = ucast (ks_reason_byte r)" "tc_triggered_ts_ns c = t"
      by (cases "tc_threads c ! w") (auto simp: winner_state_def)
    moreover from this(1) w(1) calls have "(r, t) \<in> set calls"
      by (metis length_map nth_map nth_mem pc_call.simps(4))
    ultimately show ?thesis using off by blast
  qed
  moreover have "\<not> pc_loser pc" if "winner_state pc r t" for pc r t
    using that by (cases pc) (auto simp: winner_state_def)
  ultimately show ?thesis
    using inv unfolding trigger_inv_def by (smt (verit, best))
qed

theorem concurrent_trigger_latches_witness:
  "\<exists>c. trigger_step\<^sup>*\<^sup>* (trigger_start [(KS_MaxRoutesExceeded, 5), (KS_GatewayDisconnect, 6)]) c
     \<and> tc_reason c = 0
     \<and> (\<exists>w<length (tc_threads c). \<not> pc_loser (tc_threads c ! w))"
proof -
  let ?c = "\<lparr>tc_enabled = False, tc_reason = 0, tc_triggered_ts_ns = 0,
    tc_threads = [TP_Call KS_MaxRoutesExceeded 5, TP_Won KS_GatewayDisconnect 6]\<rparr>"
  have "trigger_step (trigger_start [(KS_MaxRoutesExceeded, 5), (KS_GatewayDisconnect, 6)]) ?c"
    using trigger_step.cas_wins [of 1 "trigger_start [(KS_MaxRoutesExceeded, 5), (KS_GatewayDisconnect, 6)]"]
    by (simp add: trigger_start_def)
  then have run: "trigger_step\<^sup>*\<^sup>* (trigger_start [(KS_MaxRoutesExceeded, 5), (KS_GatewayDisconnect, 6)]) ?c"
    by blast
  from concurrent_trigger_latches [OF run]
  have "\<exists>w<length (tc_threads ?c). \<not> pc_loser (tc_threads ?c ! w)" by auto
  with run show ?thesis by (intro exI [of _ ?c]) simp
qed

end
