(* ===== verification/Wire_Layout.thy ===== *)
theory Wire_Layout
  imports Core_Types
begin

text \<open>
  Object representations.  The transport, the journal and the replay log move the bytes of the
  structs of include/llt/types.hpp; this theory gives those bytes for the little-endian 64-bit
  targets of the build: every field at its offset, and padding where the alignment of the next
  field asks for it.  Padding is indeterminate: its values are a parameter, a function of the offset
  in the object.

  Every struct has its image and the reading of an image; reading an image gives the struct back
  when its enumerations are canonical, whatever the padding holds.
\<close>

section \<open>Images of the structs\<close>

definition bytes_of_header :: "(nat \<Rightarrow> byte) \<Rightarrow> MessageHeader \<Rightarrow> byte list" where
  "bytes_of_header pad h =
     [msg_type_byte (hdr_type h)] @ pads pad 1 3 @ le32 (hdr_source_node h)
     @ le32 (hdr_destination_node h) @ pads pad 12 4 @ le64 (hdr_sequence h)
     @ le64 (hdr_send_ts_ns h) @ le64 (hdr_recv_ts_ns h)"

definition header_of_bytes :: "byte list \<Rightarrow> MessageHeader" where
  "header_of_bytes bs = \<lparr>hdr_type = msg_type_of_byte (rd8 0 bs), hdr_source_node = rd32 4 bs,
     hdr_destination_node = rd32 8 bs, hdr_sequence = rd64 16 bs, hdr_send_ts_ns = rd64 24 bs,
     hdr_recv_ts_ns = rd64 32 bs\<rparr>"

definition bytes_of_market_data :: "(nat \<Rightarrow> byte) \<Rightarrow> MarketDataUpdate \<Rightarrow> byte list" where
  "bytes_of_market_data pad m =
     bytes_of_header pad (md_header m) @ le32 (md_symbol_id m) @ map byte_of_char (md_symbol m)
     @ pads pad 60 4 @ le64 (md_bid_px m) @ le64 (md_bid_qty m) @ le64 (md_ask_px m)
     @ le64 (md_ask_qty m) @ le64 (md_exchange_sequence m)"

definition market_data_of_bytes :: "byte list \<Rightarrow> MarketDataUpdate" where
  "market_data_of_bytes bs = \<lparr>md_header = header_of_bytes bs, md_symbol_id = rd32 40 bs,
     md_symbol = map char_of_byte (field 44 16 bs), md_bid_px = rd64 64 bs, md_bid_qty = rd64 72 bs,
     md_ask_px = rd64 80 bs, md_ask_qty = rd64 88 bs, md_exchange_sequence = rd64 96 bs\<rparr>"

definition bytes_of_signal :: "(nat \<Rightarrow> byte) \<Rightarrow> Signal \<Rightarrow> byte list" where
  "bytes_of_signal pad s =
     bytes_of_header pad (sig_header s) @ le32 (sig_symbol_id s) @ [side_byte (sig_side s)]
     @ pads pad 45 3 @ le64 (sig_limit_px s) @ le64 (sig_qty s) @ le32 (sig_confidence_bps s)
     @ pads pad 68 4"

definition signal_of_bytes :: "byte list \<Rightarrow> Signal" where
  "signal_of_bytes bs = \<lparr>sig_header = header_of_bytes bs, sig_symbol_id = rd32 40 bs,
     sig_side = side_of_byte (rd8 44 bs), sig_limit_px = rd64 48 bs, sig_qty = rd64 56 bs,
     sig_confidence_bps = rd32 64 bs\<rparr>"

definition bytes_of_new_order :: "(nat \<Rightarrow> byte) \<Rightarrow> NewOrder \<Rightarrow> byte list" where
  "bytes_of_new_order pad ord =
     bytes_of_header pad (ord_header ord) @ le64 (ord_client_order_id ord)
     @ le32 (ord_symbol_id ord) @ [side_byte (ord_side ord)] @ pads pad 53 3
     @ le64 (ord_limit_px ord) @ le64 (ord_qty ord)"

definition new_order_of_bytes :: "byte list \<Rightarrow> NewOrder" where
  "new_order_of_bytes bs = \<lparr>ord_header = header_of_bytes bs, ord_client_order_id = rd64 40 bs,
     ord_symbol_id = rd32 48 bs, ord_side = side_of_byte (rd8 52 bs), ord_limit_px = rd64 56 bs,
     ord_qty = rd64 64 bs\<rparr>"

definition bytes_of_ack :: "(nat \<Rightarrow> byte) \<Rightarrow> Ack \<Rightarrow> byte list" where
  "bytes_of_ack pad a =
     bytes_of_header pad (ack_header a) @ le64 (ack_client_order_id a)
     @ le64 (ack_exchange_order_id a) @ [order_state_byte (ack_state a)] @ pads pad 57 7"

definition ack_of_bytes :: "byte list \<Rightarrow> Ack" where
  "ack_of_bytes bs = \<lparr>ack_header = header_of_bytes bs, ack_client_order_id = rd64 40 bs,
     ack_exchange_order_id = rd64 48 bs, ack_state = order_state_of_byte (rd8 56 bs)\<rparr>"

definition bytes_of_reject :: "(nat \<Rightarrow> byte) \<Rightarrow> Reject \<Rightarrow> byte list" where
  "bytes_of_reject pad r =
     bytes_of_header pad (rej_header r) @ le64 (rej_client_order_id r)
     @ [reject_reason_byte (rej_reason r)] @ pads pad 49 7"

definition reject_of_bytes :: "byte list \<Rightarrow> Reject" where
  "reject_of_bytes bs = \<lparr>rej_header = header_of_bytes bs, rej_client_order_id = rd64 40 bs,
     rej_reason = reject_reason_of_byte (rd8 48 bs)\<rparr>"

definition bytes_of_fill :: "(nat \<Rightarrow> byte) \<Rightarrow> Fill \<Rightarrow> byte list" where
  "bytes_of_fill pad f =
     bytes_of_header pad (fill_header f) @ le64 (fill_client_order_id f)
     @ le64 (fill_exchange_order_id f) @ le64 (fill_px f) @ le64 (fill_qty f)"

definition fill_of_bytes :: "byte list \<Rightarrow> Fill" where
  "fill_of_bytes bs = \<lparr>fill_header = header_of_bytes bs, fill_client_order_id = rd64 40 bs,
     fill_exchange_order_id = rd64 48 bs, fill_px = rd64 56 bs, fill_qty = rd64 64 bs\<rparr>"

definition bytes_of_heartbeat :: "(nat \<Rightarrow> byte) \<Rightarrow> Heartbeat \<Rightarrow> byte list" where
  "bytes_of_heartbeat pad hb =
     bytes_of_header pad (hb_header hb) @ [node_role_byte (hb_role hb)] @ pads pad 41 7
     @ le64 (hb_last_seen_ns hb)"

definition heartbeat_of_bytes :: "byte list \<Rightarrow> Heartbeat" where
  "heartbeat_of_bytes bs = \<lparr>hb_header = header_of_bytes bs, hb_role = node_role_of_byte (rd8 40 bs),
     hb_last_seen_ns = rd64 48 bs\<rparr>"

definition bytes_of_risk_state :: "(nat \<Rightarrow> byte) \<Rightarrow> RiskState \<Rightarrow> byte list" where
  "bytes_of_risk_state pad r =
     bytes_of_header pad (rs_header r) @ le64 (rs_current_position r) @ le64 (rs_max_position r)
     @ [if rs_trading_enabled r then 1 else 0] @ pads pad 57 7"

definition risk_state_of_bytes :: "byte list \<Rightarrow> RiskState" where
  "risk_state_of_bytes bs = \<lparr>rs_header = header_of_bytes bs, rs_current_position = rd64 40 bs,
     rs_max_position = rd64 48 bs, rs_trading_enabled = (rd8 56 bs \<noteq> 0)\<rparr>"

section \<open>Reading an image back\<close>

lemma length_bytes_of_header [simp, layout_simps]: "length (bytes_of_header pad h) = 40"
  by (simp add: bytes_of_header_def)

lemma header_of_bytes_of [simp]:
  assumes "canonical_type (hdr_type h)"
  shows "header_of_bytes (bytes_of_header pad h @ rest) = h"
  using assms by (cases h) (simp add: header_of_bytes_def bytes_of_header_def canonical_type_def)

lemma length_images [simp, layout_simps]:
  "length (md_symbol m) = SYMBOL_LEN \<Longrightarrow> length (bytes_of_market_data pad m) = 104"
  "length (bytes_of_signal pad s) = 72"
  "length (bytes_of_new_order pad ord) = 72"
  "length (bytes_of_ack pad a) = 64"
  "length (bytes_of_reject pad r) = 56"
  "length (bytes_of_fill pad f) = 72"
  "length (bytes_of_heartbeat pad hb) = 56"
  "length (bytes_of_risk_state pad rs) = 64"
  by (simp_all add: bytes_of_market_data_def bytes_of_signal_def bytes_of_new_order_def
      bytes_of_ack_def bytes_of_reject_def bytes_of_fill_def bytes_of_heartbeat_def
      bytes_of_risk_state_def SYMBOL_LEN_def)

lemma market_data_of_bytes_of:
  assumes "canonical_type (hdr_type (md_header m))" "length (md_symbol m) = SYMBOL_LEN"
  shows "market_data_of_bytes (bytes_of_market_data pad m @ rest) = m"
  using assms
  by (cases m) (simp add: market_data_of_bytes_def bytes_of_market_data_def SYMBOL_LEN_def
      field_skip field_here comp_def)

lemma signal_of_bytes_of:
  assumes "canonical_type (hdr_type (sig_header s))" "canonical_side (sig_side s)"
  shows "signal_of_bytes (bytes_of_signal pad s @ rest) = s"
  using assms
  by (cases s) (simp add: signal_of_bytes_def bytes_of_signal_def canonical_side_def)

lemma new_order_of_bytes_of:
  assumes "canonical_type (hdr_type (ord_header ord))" "canonical_side (ord_side ord)"
  shows "new_order_of_bytes (bytes_of_new_order pad ord @ rest) = ord"
  using assms
  by (cases ord) (simp add: new_order_of_bytes_def bytes_of_new_order_def canonical_side_def)

lemma ack_of_bytes_of:
  assumes "canonical_type (hdr_type (ack_header a))" "canonical_order_state (ack_state a)"
  shows "ack_of_bytes (bytes_of_ack pad a @ rest) = a"
  using assms
  by (cases a) (simp add: ack_of_bytes_def bytes_of_ack_def canonical_order_state_def)

lemma reject_of_bytes_of:
  assumes "canonical_type (hdr_type (rej_header r))" "canonical_reason (rej_reason r)"
  shows "reject_of_bytes (bytes_of_reject pad r @ rest) = r"
  using assms
  by (cases r) (simp add: reject_of_bytes_def bytes_of_reject_def canonical_reason_def)

lemma fill_of_bytes_of:
  assumes "canonical_type (hdr_type (fill_header f))"
  shows "fill_of_bytes (bytes_of_fill pad f @ rest) = f"
  using assms by (cases f) (simp add: fill_of_bytes_def bytes_of_fill_def)

lemma heartbeat_of_bytes_of:
  assumes "canonical_type (hdr_type (hb_header hb))" "canonical_role (hb_role hb)"
  shows "heartbeat_of_bytes (bytes_of_heartbeat pad hb @ rest) = hb"
  using assms
  by (cases hb) (simp add: heartbeat_of_bytes_def bytes_of_heartbeat_def canonical_role_def)

lemma risk_state_of_bytes_of:
  assumes "canonical_type (hdr_type (rs_header r))"
  shows "risk_state_of_bytes (bytes_of_risk_state pad r @ rest) = r"
  using assms
  by (cases r) (simp add: risk_state_of_bytes_def bytes_of_risk_state_def)

section \<open>The union and the envelope\<close>

text \<open>
  The union is as large as its largest member, \<open>MarketDataUpdate\<close>; the bytes behind a shorter
  member are padding of the union.
\<close>

definition union_size :: nat where "union_size = 104"

fun bytes_of_payload :: "(nat \<Rightarrow> byte) \<Rightarrow> Payload \<Rightarrow> byte list" where
  "bytes_of_payload pad P_Empty = []"
| "bytes_of_payload pad (P_MarketData m) = bytes_of_market_data pad m"
| "bytes_of_payload pad (P_Signal s) = bytes_of_signal pad s"
| "bytes_of_payload pad (P_NewOrder ord) = bytes_of_new_order pad ord"
| "bytes_of_payload pad (P_Ack a) = bytes_of_ack pad a"
| "bytes_of_payload pad (P_Reject r) = bytes_of_reject pad r"
| "bytes_of_payload pad (P_Fill f) = bytes_of_fill pad f"
| "bytes_of_payload pad (P_Heartbeat hb) = bytes_of_heartbeat pad hb"
| "bytes_of_payload pad (P_RiskState rs) = bytes_of_risk_state pad rs"

definition union_image :: "(nat \<Rightarrow> byte) \<Rightarrow> Payload \<Rightarrow> byte list" where
  "union_image pad p = bytes_of_payload pad p
     @ pads pad (length (bytes_of_payload pad p)) (union_size - length (bytes_of_payload pad p))"

text \<open>\<open>payload_size_for_type\<close>, and the member a type selects (\<open>payload_ptr\<close>, \<open>mutable_payload_ptr\<close>).\<close>

fun payload_size_for_type :: "MsgType \<Rightarrow> nat" where
  "payload_size_for_type MT_MarketData = 104"
| "payload_size_for_type MT_Signal = 72"
| "payload_size_for_type MT_NewOrder = 72"
| "payload_size_for_type MT_Ack = 64"
| "payload_size_for_type MT_Fill = 72"
| "payload_size_for_type MT_Reject = 56"
| "payload_size_for_type MT_Heartbeat = 56"
| "payload_size_for_type MT_RiskState = 64"
| "payload_size_for_type _ = 0"

fun has_payload_ptr :: "MsgType \<Rightarrow> bool" where
  "has_payload_ptr MT_MarketData = True"
| "has_payload_ptr MT_Signal = True"
| "has_payload_ptr MT_NewOrder = True"
| "has_payload_ptr MT_Ack = True"
| "has_payload_ptr MT_Fill = True"
| "has_payload_ptr MT_Reject = True"
| "has_payload_ptr MT_Heartbeat = True"
| "has_payload_ptr MT_RiskState = True"
| "has_payload_ptr _ = False"

fun payload_of_bytes :: "MsgType \<Rightarrow> byte list \<Rightarrow> Payload" where
  "payload_of_bytes MT_MarketData bs = P_MarketData (market_data_of_bytes bs)"
| "payload_of_bytes MT_Signal bs = P_Signal (signal_of_bytes bs)"
| "payload_of_bytes MT_NewOrder bs = P_NewOrder (new_order_of_bytes bs)"
| "payload_of_bytes MT_Ack bs = P_Ack (ack_of_bytes bs)"
| "payload_of_bytes MT_Fill bs = P_Fill (fill_of_bytes bs)"
| "payload_of_bytes MT_Reject bs = P_Reject (reject_of_bytes bs)"
| "payload_of_bytes MT_Heartbeat bs = P_Heartbeat (heartbeat_of_bytes bs)"
| "payload_of_bytes MT_RiskState bs = P_RiskState (risk_state_of_bytes bs)"
| "payload_of_bytes _ bs = P_Empty"

text \<open>The bytes at the payload pointer: the first bytes of the union, whichever member is active.\<close>

definition payload_image :: "(nat \<Rightarrow> byte) \<Rightarrow> Envelope \<Rightarrow> byte list" where
  "payload_image pad e =
     take (payload_size_for_type (env_type e)) (union_image pad (env_payload e))"

text \<open>The whole envelope: the type, seven bytes of padding, the union.\<close>

definition envelope_size :: nat where "envelope_size = 112"

definition bytes_of_envelope :: "(nat \<Rightarrow> byte) \<Rightarrow> Envelope \<Rightarrow> byte list" where
  "bytes_of_envelope pad e =
     [msg_type_byte (env_type e)] @ pads pad 1 7 @ union_image (\<lambda>i. pad (8 + i)) (env_payload e)"

definition envelope_of_bytes :: "byte list \<Rightarrow> Envelope" where
  "envelope_of_bytes bs = (let t = msg_type_of_byte (rd8 0 bs)
     in \<lparr>env_type = t, env_payload = payload_of_bytes t (drop 8 bs)\<rparr>)"

text \<open>Values an image determines: sixteen-character symbols and enumerators in every field.\<close>

fun canonical_payload :: "Payload \<Rightarrow> bool" where
  "canonical_payload P_Empty = True"
| "canonical_payload (P_MarketData m) =
     (canonical_type (hdr_type (md_header m)) \<and> length (md_symbol m) = SYMBOL_LEN)"
| "canonical_payload (P_Signal s) =
     (canonical_type (hdr_type (sig_header s)) \<and> canonical_side (sig_side s))"
| "canonical_payload (P_NewOrder ord) =
     (canonical_type (hdr_type (ord_header ord)) \<and> canonical_side (ord_side ord))"
| "canonical_payload (P_Ack a) =
     (canonical_type (hdr_type (ack_header a)) \<and> canonical_order_state (ack_state a))"
| "canonical_payload (P_Reject r) =
     (canonical_type (hdr_type (rej_header r)) \<and> canonical_reason (rej_reason r))"
| "canonical_payload (P_Fill f) = canonical_type (hdr_type (fill_header f))"
| "canonical_payload (P_Heartbeat hb) =
     (canonical_type (hdr_type (hb_header hb)) \<and> canonical_role (hb_role hb))"
| "canonical_payload (P_RiskState rs) = canonical_type (hdr_type (rs_header rs))"

text \<open>A message: an envelope whose type names its member, with a canonical payload.\<close>

definition is_message :: "Envelope \<Rightarrow> bool" where
  "is_message e \<longleftrightarrow> well_tagged e \<and> canonical_payload (env_payload e) \<and> env_payload e \<noteq> P_Empty"

lemma unat_payload_size [simp]:
  "unat (of_nat (payload_size_for_type t) :: u32) = payload_size_for_type t"
  by (cases t) simp_all

lemma has_payload_ptr_iff: "has_payload_ptr t \<longleftrightarrow> payload_size_for_type t \<noteq> 0"
  by (cases t) simp_all

lemma length_bytes_of_payload:
  "canonical_payload p \<Longrightarrow> length (bytes_of_payload pad p) = payload_size_for_type (payload_type p)"
  by (cases p) simp_all

lemma payload_size_bound: "payload_size_for_type t \<le> union_size"
  by (cases t) (simp_all add: union_size_def)

lemma length_union_image:
  "canonical_payload p \<Longrightarrow> length (union_image pad p) = union_size"
  using payload_size_bound [of "payload_type p"]
  by (simp add: union_image_def length_bytes_of_payload)

lemma payload_of_bytes_of:
  "canonical_payload p \<Longrightarrow> payload_of_bytes (payload_type p) (bytes_of_payload pad p @ rest) = p"
  by (cases p) (simp_all add: market_data_of_bytes_of signal_of_bytes_of new_order_of_bytes_of
      ack_of_bytes_of reject_of_bytes_of fill_of_bytes_of heartbeat_of_bytes_of
      risk_state_of_bytes_of)

lemma is_message_type:
  "is_message e \<Longrightarrow> payload_type (env_payload e) = env_type e \<and> canonical_type (env_type e)
     \<and> payload_size_for_type (env_type e) \<noteq> 0 \<and> has_payload_ptr (env_type e)"
  by (cases "env_payload e")
     (auto simp: is_message_def well_tagged_def dest!: arg_cong [of _ _ canonical_type] sym)

lemma payload_image_message:
  assumes "is_message e"
  shows "payload_image pad e = bytes_of_payload pad (env_payload e)"
    and "length (payload_image pad e) = payload_size_for_type (env_type e)"
    and "payload_of_bytes (env_type e) (payload_image pad e @ rest) = env_payload e"
proof -
  have c: "canonical_payload (env_payload e)" and t: "payload_type (env_payload e) = env_type e"
    using assms is_message_type by (auto simp: is_message_def)
  show img: "payload_image pad e = bytes_of_payload pad (env_payload e)"
    using length_bytes_of_payload [OF c, of pad]
    by (simp add: payload_image_def union_image_def t)
  show "length (payload_image pad e) = payload_size_for_type (env_type e)"
    by (simp add: img length_bytes_of_payload [OF c] t)
  show "payload_of_bytes (env_type e) (payload_image pad e @ rest) = env_payload e"
    using payload_of_bytes_of [OF c, of pad rest] by (simp add: img t)
qed

lemma length_bytes_of_envelope:
  "is_message e \<Longrightarrow> length (bytes_of_envelope pad e) = envelope_size"
  by (simp add: bytes_of_envelope_def length_union_image is_message_def union_size_def
      envelope_size_def)

lemma envelope_of_bytes_of:
  assumes "is_message e"
  shows "envelope_of_bytes (bytes_of_envelope pad e @ rest) = e"
proof -
  have "msg_type_of_byte (msg_type_byte (env_type e)) = env_type e"
    using is_message_type [OF assms] by (simp add: canonical_type_def)
  moreover have "payload_of_bytes (env_type e)
      (union_image (\<lambda>i. pad (8 + i)) (env_payload e) @ rest) = env_payload e"
    using payload_of_bytes_of [of "env_payload e" "\<lambda>i. pad (8 + i)"] is_message_type [OF assms] assms
    by (simp add: union_image_def is_message_def)
  ultimately show ?thesis
    by (cases e) (simp add: envelope_of_bytes_def bytes_of_envelope_def Let_def)
qed

section \<open>The checksum\<close>

text \<open>
  \<open>checksum_bytes\<close>, \<open>journal_checksum\<close> and \<open>replay_checksum\<close> are the same 32-bit FNV-1a loop.
\<close>

definition fnv_step :: "u32 \<Rightarrow> byte \<Rightarrow> u32" where
  "fnv_step hash b = (hash XOR ucast b) * 16777619"

definition checksum_bytes :: "byte list \<Rightarrow> u32" where
  "checksum_bytes bs = foldl fnv_step 2166136261 bs"

text \<open>The FNV prime is odd, so multiplying by it can be undone.\<close>

lemma fnv_prime_cancel: "x * 16777619 = y * (16777619 :: u32) \<Longrightarrow> x = y"
proof -
  have inv: "z * 16777619 * 899433627 = z" for z :: u32
  proof -
    have "(16777619 * 899433627 :: u32) = 1" by simp
    then show ?thesis by (simp only: mult.assoc mult_1_right)
  qed
  assume "x * 16777619 = y * 16777619"
  then have "x * 16777619 * 899433627 = y * 16777619 * 899433627" by simp
  then show "x = y" by (simp only: inv)
qed

lemma fnv_step_inj_state:
  assumes "fnv_step h b = fnv_step h' b"
  shows "h = h'"
proof -
  have "h XOR ucast b = h' XOR ucast b"
    using assms unfolding fnv_step_def by (rule fnv_prime_cancel)
  then have "(h XOR ucast b) XOR ucast b = (h' XOR ucast b) XOR ucast b" by simp
  then show ?thesis by (simp only: xor.assoc xor_self_eq xor.right_neutral)
qed

lemma fnv_step_inj_byte:
  assumes "fnv_step h b = fnv_step h b'"
  shows "b = b'"
proof -
  have "h XOR ucast b = h XOR (ucast b' :: u32)"
    using assms unfolding fnv_step_def by (rule fnv_prime_cancel)
  then have "h XOR (h XOR ucast b) = h XOR (h XOR (ucast b' :: u32))" by simp
  then have "(ucast b :: u32) = ucast b'"
    by (simp only: xor.assoc [symmetric] xor_self_eq xor.left_neutral)
  then have "(ucast (ucast b :: u32) :: byte) = ucast (ucast b' :: u32)" by simp
  moreover have "(ucast (ucast c :: u32) :: byte) = c" for c :: byte
    by (rule bit_word_eqI) (simp add: bit_simps)
  ultimately show ?thesis by simp
qed

lemma fnv_fold_inj: "foldl fnv_step h bs = foldl fnv_step h' bs \<Longrightarrow> h = h'"
  by (induction bs arbitrary: h h') (auto dest: fnv_step_inj_state)

lemma checksum_detects:
  assumes "i < length bs" and "bs ! i \<noteq> b"
  shows "checksum_bytes (bs[i := b]) \<noteq> checksum_bytes bs"
proof
  assume eq: "checksum_bytes (bs[i := b]) = checksum_bytes bs"
  let ?h = "foldl fnv_step 2166136261 (take i bs)"
  have "bs = take i bs @ bs ! i # drop (Suc i) bs"
    using assms(1) by (rule id_take_nth_drop)
  then have "checksum_bytes bs = foldl fnv_step (fnv_step ?h (bs ! i)) (drop (Suc i) bs)"
    by (metis checksum_bytes_def foldl_append foldl_Cons)
  moreover have "checksum_bytes (bs[i := b]) = foldl fnv_step (fnv_step ?h b) (drop (Suc i) bs)"
    using assms(1) by (simp add: checksum_bytes_def upd_conv_take_nth_drop)
  ultimately have "fnv_step ?h (bs ! i) = fnv_step ?h b"
    using eq fnv_fold_inj by metis
  with assms(2) show False using fnv_step_inj_byte by metis
qed

text \<open>
  The checksum detects every change of a single byte: two byte strings of any length that
  differ in exactly one position have different checksums.
\<close>

theorem checksum_detects_one_byte:
  assumes "i < length bs" and "bs ! i \<noteq> b"
  shows "checksum_bytes (bs[i := b]) \<noteq> checksum_bytes bs"
  using assms by (rule checksum_detects)

theorem checksum_detects_one_byte_witness:
  "checksum_bytes ([0, 0, 7][1 := 255]) \<noteq> checksum_bytes [0, 0, 7]"
  using checksum_detects_one_byte [of 1 "[0, 0, 7]" 255] by simp

end
