(* ===== verification/Tcp_Transport.thy ===== *)
theory Tcp_Transport
  imports Framed_Log "HOL-Library.Multiset"
begin

text \<open>
  The binary TCP transport of src/tcp_transport.cpp: framing, sending and receiving of envelopes
  over a byte stream, and the ownership of file descriptors by connections.  A stream is the list of
  bytes the peer will deliver; how the operating system cuts it into calls is a parameter (see
  \<open>send_exact\<close> and \<open>recv_exact\<close>).  It provides the \<open>record_log\<close> contract.
\<close>

definition TCP_MAGIC :: u32 where "TCP_MAGIC = 0x4C4C5431"
definition TCP_VERSION :: u16 where "TCP_VERSION = 1"
definition TCP_MAX_PAYLOAD_SIZE :: nat where "TCP_MAX_PAYLOAD_SIZE = 4096"

section \<open>The frame header\<close>

text \<open>The header is packed: 25 bytes without padding.\<close>

record TcpFrameHeader =
  tfh_magic :: u32
  tfh_version :: u16
  tfh_header_size :: u16
  tfh_type :: MsgType
  tfh_payload_size :: u32
  tfh_sequence :: Sequence
  tfh_checksum :: u32

definition tcp_header_size :: nat where "tcp_header_size = 25"

definition bytes_of_tcp_header :: "TcpFrameHeader \<Rightarrow> byte list" where
  "bytes_of_tcp_header h = le32 (tfh_magic h) @ le16 (tfh_version h) @ le16 (tfh_header_size h)
     @ [msg_type_byte (tfh_type h)] @ le32 (tfh_payload_size h) @ le64 (tfh_sequence h)
     @ le32 (tfh_checksum h)"

definition tcp_header_of_bytes :: "byte list \<Rightarrow> TcpFrameHeader" where
  "tcp_header_of_bytes bs = \<lparr>tfh_magic = rd32 0 bs, tfh_version = rd16 4 bs,
     tfh_header_size = rd16 6 bs, tfh_type = msg_type_of_byte (rd8 8 bs),
     tfh_payload_size = rd32 9 bs, tfh_sequence = rd64 13 bs, tfh_checksum = rd32 21 bs\<rparr>"

lemma length_bytes_of_tcp_header [simp, layout_simps]:
  "length (bytes_of_tcp_header h) = tcp_header_size"
  by (simp add: bytes_of_tcp_header_def tcp_header_size_def)

lemma tcp_header_of_bytes_of [simp]:
  assumes "canonical_type (tfh_type h)"
  shows "tcp_header_of_bytes (bytes_of_tcp_header h) = h"
  using assms
  by (cases h) (simp add: tcp_header_of_bytes_def bytes_of_tcp_header_def canonical_type_def)

section \<open>Sending and receiving\<close>

text \<open>Result: the returned flag, the bytes that left, the effects, the answers left.\<close>

definition tcp_frame_header :: "byte list \<Rightarrow> MsgType \<Rightarrow> Sequence \<Rightarrow> TcpFrameHeader" where
  "tcp_frame_header payload t seq = \<lparr>tfh_magic = TCP_MAGIC, tfh_version = TCP_VERSION,
     tfh_header_size = of_nat tcp_header_size, tfh_type = t,
     tfh_payload_size = of_nat (payload_size_for_type t), tfh_sequence = seq,
     tfh_checksum = checksum_bytes payload\<rparr>"

definition tcp_send_envelope ::
  "int list \<Rightarrow> (nat \<Rightarrow> byte) \<Rightarrow> Envelope \<Rightarrow> Sequence \<Rightarrow> int
   \<Rightarrow> bool \<times> byte list \<times> effect list \<times> int list" where
  "tcp_send_envelope os pad e seq fd =
     (if \<not> 0 \<le> fd then (False, [], [], os)
      else
        let payload = payload_image pad e
        in if \<not> has_payload_ptr (env_type e) \<or> payload_size_for_type (env_type e) = 0
           then (False, [],
                 [Log Warn ''tcp_transport'' ''attempted to send invalid envelope''], os)
           else
             case send_exact os (bytes_of_tcp_header (tcp_frame_header payload (env_type e) seq)) of
               (False, out, os1) \<Rightarrow>
                 (False, out, [Log Warn ''tcp_transport'' ''failed to send TCP frame header''], os1)
             | (True, out, os1) \<Rightarrow>
                 (case send_exact os1 payload of
                    (False, out2, os2) \<Rightarrow>
                      (False, out @ out2,
                       [Log Warn ''tcp_transport'' ''failed to send TCP frame payload''], os2)
                  | (True, out2, os2) \<Rightarrow> (True, out @ out2, [], os2)))"

text \<open>Result: the envelope, the effects, the rest of the stream, the answers left.\<close>

definition tcp_recv_envelope ::
  "nat list \<Rightarrow> int \<Rightarrow> byte list \<Rightarrow> Envelope option \<times> effect list \<times> byte list \<times> nat list" where
  "tcp_recv_envelope os fd stream =
     (if \<not> 0 \<le> fd then (None, [], stream, os)
      else case recv_exact os tcp_header_size stream of
        (False, _, rest, os1) \<Rightarrow> (None, [], rest, os1)
      | (True, hb, rest, os1) \<Rightarrow>
          (let header = tcp_header_of_bytes hb
           in if tfh_magic header \<noteq> TCP_MAGIC \<or> tfh_version header \<noteq> TCP_VERSION
              then (None, [Log Warn ''tcp_transport'' ''received invalid frame magic/version''],
                    rest, os1)
              else if unat (tfh_payload_size header) > TCP_MAX_PAYLOAD_SIZE
              then (None, [Log Warn ''tcp_transport'' ''received oversized payload''], rest, os1)
              else
                let expected_size = payload_size_for_type (tfh_type header)
                in if expected_size = 0 \<or> expected_size \<noteq> unat (tfh_payload_size header)
                   then (None, [Log Warn ''tcp_transport'' ''received unexpected payload size''],
                         rest, os1)
                   else if \<not> has_payload_ptr (tfh_type header) then (None, [], rest, os1)
                   else case recv_exact os1 (unat (tfh_payload_size header)) rest of
                     (False, _, rest2, os2) \<Rightarrow> (None, [], rest2, os2)
                   | (True, payload, rest2, os2) \<Rightarrow>
                       if checksum_bytes payload \<noteq> tfh_checksum header
                       then (None, [Log Warn ''tcp_transport'' ''payload checksum mismatch''],
                             rest2, os2)
                       else (Some \<lparr>env_type = tfh_type header,
                                   env_payload = payload_of_bytes (tfh_type header) payload\<rparr>,
                             [], rest2, os2)))"

text \<open>What a frame looks like on the wire, and the effect of one receive on whole streams.\<close>

definition tcp_frame :: "(nat \<Rightarrow> byte) \<times> Envelope \<times> Sequence \<Rightarrow> byte list" where
  "tcp_frame = (\<lambda>(pad, e, seq).
     bytes_of_tcp_header (tcp_frame_header (payload_image pad e) (env_type e) seq)
     @ payload_image pad e)"

definition tcp_next :: "byte list \<Rightarrow> (Envelope \<times> byte list) option" where
  "tcp_next stream =
     (let header = tcp_header_of_bytes (take tcp_header_size stream);
          size = unat (tfh_payload_size header);
          payload = take size (drop tcp_header_size stream)
      in if length stream < tcp_header_size then None
         else if tfh_magic header \<noteq> TCP_MAGIC \<or> tfh_version header \<noteq> TCP_VERSION
           \<or> payload_size_for_type (tfh_type header) = 0
           \<or> payload_size_for_type (tfh_type header) \<noteq> size
           \<or> length stream < tcp_header_size + size
           \<or> checksum_bytes payload \<noteq> tfh_checksum header then None
         else Some (\<lparr>env_type = tfh_type header,
                     env_payload = payload_of_bytes (tfh_type header) payload\<rparr>,
                    drop (tcp_header_size + size) stream))"

lemma payload_size_le_max: "payload_size_for_type t \<le> TCP_MAX_PAYLOAD_SIZE"
  by (cases t) (simp_all add: TCP_MAX_PAYLOAD_SIZE_def)

text \<open>However the stream is cut into calls, a receive sees the same.\<close>

lemma tcp_recv_eq_next:
  assumes "0 \<le> fd"
  shows "case tcp_recv_envelope os fd stream of
      (None, _, _, _) \<Rightarrow> tcp_next stream = None
    | (Some e, es, rest, _) \<Rightarrow> es = [] \<and> tcp_next stream = Some (e, rest)"
proof (cases "length stream < tcp_header_size")
  case True
  from recv_exact_short [OF True, of os] obtain os' where
    "recv_exact os tcp_header_size stream = (False, stream, [], os')" by blast
  with assms True show ?thesis by (simp add: tcp_recv_envelope_def tcp_next_def)
next
  case False
  then have len: "tcp_header_size \<le> length stream" by simp
  from recv_exact_enough [OF this, of os] obtain os1 where
    hd: "recv_exact os tcp_header_size stream
      = (True, take tcp_header_size stream, drop tcp_header_size stream, os1)" by blast
  let ?h = "tcp_header_of_bytes (take tcp_header_size stream)"
  let ?size = "unat (tfh_payload_size ?h)"
  show ?thesis
  proof (cases "length stream < tcp_header_size + ?size")
    case True
    with len have "length (drop tcp_header_size stream) < ?size" by simp
    from recv_exact_short [OF this, of os1] obtain os2 where
      "recv_exact os1 ?size (drop tcp_header_size stream)
        = (False, drop tcp_header_size stream, [], os2)" by blast
    with assms False True hd show ?thesis
      by (simp add: tcp_recv_envelope_def tcp_next_def Let_def)
  next
    case fits: False
    with len have "?size \<le> length (drop tcp_header_size stream)" by simp
    from recv_exact_enough [OF this, of os1] obtain os2 where
      "recv_exact os1 ?size (drop tcp_header_size stream)
        = (True, take ?size (drop tcp_header_size stream),
           drop ?size (drop tcp_header_size stream), os2)" by blast
    with assms False fits hd payload_size_le_max [of "tfh_type ?h"] show ?thesis
      by (auto simp: tcp_recv_envelope_def tcp_next_def Let_def has_payload_ptr_iff add.commute)
  qed
qed

lemma tcp_next_shrinks: "tcp_next stream = Some (e, rest) \<Longrightarrow> length rest < length stream"
  by (auto simp: tcp_next_def Let_def tcp_header_size_def split: if_splits)

lemma tcp_recv_progress:
  "(Some e, es, rest, os') = tcp_recv_envelope os fd stream \<Longrightarrow> length rest < length stream"
proof -
  assume recv: "(Some e, es, rest, os') = tcp_recv_envelope os fd stream"
  then have "0 \<le> fd" by (auto simp: tcp_recv_envelope_def split: if_splits)
  from tcp_recv_eq_next [OF this, where os = os and stream = stream] show ?thesis
    unfolding recv [symmetric] using tcp_next_shrinks by auto
qed

text \<open>\<open>while (auto env = connection.recv_envelope())\<close>, the loop of the receiving nodes.\<close>

function tcp_recv_all :: "nat list \<Rightarrow> byte list \<Rightarrow> Envelope list" where
  "tcp_recv_all os stream =
     (case tcp_recv_envelope os 0 stream of
        (None, _, _, _) \<Rightarrow> []
      | (Some e, _, rest, os') \<Rightarrow> e # tcp_recv_all os' rest)"
  by pat_completeness auto
termination
  by (relation "measure (\<lambda>(os, stream). length stream)") (auto dest: tcp_recv_progress)

declare tcp_recv_all.simps [simp del]

lemma tcp_recv_all_next:
  "tcp_recv_all os stream
   = (case tcp_next stream of None \<Rightarrow> [] | Some (e, rest) \<Rightarrow> e # tcp_recv_all [] rest)"
proof (induction "length stream" arbitrary: os stream rule: less_induct)
  case less
  show ?case
  proof (cases "tcp_recv_envelope os 0 stream")
    case (fields out es rest os')
    show ?thesis
    proof (cases out)
      case None
      then show ?thesis
        using tcp_recv_eq_next [of 0 stream os] fields
        by (subst tcp_recv_all.simps) simp
    next
      case (Some e)
      then have next_rec: "tcp_next stream = Some (e, rest)"
        using tcp_recv_eq_next [of 0 stream os] fields by simp
      have "tcp_recv_all os' rest = tcp_recv_all [] rest"
        using less [OF tcp_next_shrinks [OF next_rec]] by metis
      with next_rec Some fields show ?thesis
        by (subst tcp_recv_all.simps) simp
    qed
  qed
qed

section \<open>The transport as a log of frames\<close>

definition tcp_sendable :: "(nat \<Rightarrow> byte) \<times> Envelope \<times> Sequence \<Rightarrow> bool" where
  "tcp_sendable = (\<lambda>(pad, e, seq). is_message e)"

definition tcp_view :: "(nat \<Rightarrow> byte) \<times> Envelope \<times> Sequence \<Rightarrow> Envelope" where
  "tcp_view = (\<lambda>(pad, e, seq). e)"

text \<open>What \<open>tcp_next\<close> makes of a header and the bytes behind it.\<close>

lemma tcp_next_header:
  assumes "canonical_type (tfh_type h)"
  shows "tcp_next (bytes_of_tcp_header h @ bs) =
    (let size = unat (tfh_payload_size h)
     in if tfh_magic h \<noteq> TCP_MAGIC \<or> tfh_version h \<noteq> TCP_VERSION
          \<or> payload_size_for_type (tfh_type h) = 0 \<or> payload_size_for_type (tfh_type h) \<noteq> size
          \<or> length bs < size \<or> checksum_bytes (take size bs) \<noteq> tfh_checksum h then None
        else Some (\<lparr>env_type = tfh_type h, env_payload = payload_of_bytes (tfh_type h) (take size bs)\<rparr>,
                   drop size bs))"
proof -
  have "take tcp_header_size (bytes_of_tcp_header h @ bs) = bytes_of_tcp_header h"
    "drop tcp_header_size (bytes_of_tcp_header h @ bs) = bs"
    "drop (tcp_header_size + n) (bytes_of_tcp_header h @ bs) = drop n bs" for n
    by simp_all
  with assms show ?thesis
    by (simp add: tcp_next_def Let_def)
qed

lemma tcp_next_frame:
  assumes "is_message e"
  shows "tcp_next (tcp_frame (pad, e, seq) @ rest) = Some (e, rest)"
proof -
  have t: "canonical_type (env_type e)" "payload_size_for_type (env_type e) \<noteq> 0"
    using is_message_type [OF assms] by auto
  have "payload_of_bytes (env_type e) (payload_image pad e) = env_payload e"
    using payload_image_message(3) [OF assms, of pad "[]"] by simp
  with t payload_image_message(2) [OF assms, of pad] show ?thesis
    by (simp add: tcp_frame_def tcp_next_header tcp_frame_header_def Let_def)
qed

lemma tcp_next_torn_frame:
  assumes "is_message e" and "tcp_frame (pad, e, seq) = p @ s" and "s \<noteq> []"
  shows "tcp_next p = None"
proof (cases "length p < tcp_header_size")
  case True
  then show ?thesis by (simp add: tcp_next_def)
next
  case False
  let ?h = "tcp_frame_header (payload_image pad e) (env_type e) seq"
  have "bytes_of_tcp_header ?h @ payload_image pad e = p @ s"
    using assms(2) by (simp add: tcp_frame_def)
  from prefix_split [OF this] False obtain q where
    q: "p = bytes_of_tcp_header ?h @ q" "payload_image pad e = q @ s"
    by auto
  have "length q < payload_size_for_type (env_type e)"
    using payload_image_message(2) [OF assms(1), of pad] q(2) assms(3)
    by (cases s) auto
  with is_message_type [OF assms(1)] show ?thesis
    by (simp add: q(1) tcp_next_header tcp_frame_header_def Let_def)
qed

interpretation wire: record_log tcp_frame tcp_next "tcp_recv_all []" tcp_view tcp_sendable
proof
  fix r rest
  show "tcp_sendable r \<Longrightarrow> tcp_next (tcp_frame r @ rest) = Some (tcp_view r, rest)"
    by (cases r) (simp add: tcp_sendable_def tcp_view_def tcp_next_frame)
next
  fix r p s
  show "tcp_sendable r \<Longrightarrow> tcp_frame r = p @ s \<Longrightarrow> s \<noteq> [] \<Longrightarrow> tcp_next p = None"
    by (cases r) (auto simp: tcp_sendable_def dest: tcp_next_torn_frame)
next
  fix bs
  show "tcp_recv_all [] bs
    = (case tcp_next bs of None \<Rightarrow> [] | Some (v, rest) \<Rightarrow> v # tcp_recv_all [] rest)"
    by (rule tcp_recv_all_next)
qed

lemma tcp_recv_all_any: "tcp_recv_all os stream = tcp_recv_all [] stream"
  by (metis tcp_recv_all_next)

section \<open>Properties of the stream\<close>

text \<open>
  Sending messages one after the other until one fails; the number sent, the bytes on the wire.
\<close>

fun tcp_send_all ::
  "int list \<Rightarrow> ((nat \<Rightarrow> byte) \<times> Envelope \<times> Sequence) list \<Rightarrow> int \<Rightarrow> nat \<times> byte list" where
  "tcp_send_all os [] fd = (0, [])"
| "tcp_send_all os ((pad, e, seq) # msgs) fd =
     (case tcp_send_envelope os pad e seq fd of
        (False, out, _, _) \<Rightarrow> (0, out)
      | (True, out, _, os') \<Rightarrow> (let (n, outs) = tcp_send_all os' msgs fd in (Suc n, out @ outs)))"

lemma tcp_send_envelope_frame:
  assumes "is_message e" and "0 \<le> fd"
    and "tcp_send_envelope os pad e seq fd = (ok, out, es, os')"
  shows "(\<exists>s. tcp_frame (pad, e, seq) = out @ s) \<and> (ok \<longleftrightarrow> out = tcp_frame (pad, e, seq))"
proof -
  let ?hb = "bytes_of_tcp_header (tcp_frame_header (payload_image pad e) (env_type e) seq)"
  have t: "has_payload_ptr (env_type e)" "payload_size_for_type (env_type e) \<noteq> 0"
    using is_message_type [OF assms(1)] by auto
  obtain ok1 out1 os1 where s1: "send_exact os ?hb = (ok1, out1, os1)"
    by (cases "send_exact os ?hb")
  note p1 = send_exact_prefix [OF s1]
  obtain ok2 out2 os2 where s2: "send_exact os1 (payload_image pad e) = (ok2, out2, os2)"
    by (cases "send_exact os1 (payload_image pad e)")
  note p2 = send_exact_prefix [OF s2]
  have frame: "tcp_frame (pad, e, seq) = ?hb @ payload_image pad e"
    by (simp add: tcp_frame_def)
  show ?thesis
  proof (cases ok1)
    case True
    then have "out = ?hb @ out2" "ok = ok2"
      using assms(2,3) t s1 s2 p1 by (auto simp: tcp_send_envelope_def Let_def split: bool.splits)
    with p2 show ?thesis by (auto simp: frame)
  next
    case False
    then have "out = out1" "\<not> ok"
      using assms(2,3) t s1 by (auto simp: tcp_send_envelope_def Let_def)
    moreover have "out1 \<noteq> ?hb" using p1 False by simp
    moreover obtain s where "?hb = out1 @ s" using p1 by blast
    ultimately have "tcp_frame (pad, e, seq) = out @ (s @ payload_image pad e)"
      "s @ payload_image pad e \<noteq> []"
      by (auto simp: frame)
    with \<open>\<not> ok\<close> show ?thesis by (metis append_self_conv)
  qed
qed

lemma tcp_send_envelope_ok:
  assumes "is_message e" and "0 \<le> fd" and "list_all (\<lambda>a. 0 < a) os"
  shows "\<exists>out os'. tcp_send_envelope os pad e seq fd = (True, out, [], os')
    \<and> list_all (\<lambda>a. 0 < a) os'"
proof -
  let ?hb = "bytes_of_tcp_header (tcp_frame_header (payload_image pad e) (env_type e) seq)"
  obtain os1 where s1: "send_exact os ?hb = (True, ?hb, os1)" "list_all (\<lambda>a. 0 < a) os1"
    using send_exact_ok [OF assms(3)] by blast
  then obtain os2 where "send_exact os1 (payload_image pad e) = (True, payload_image pad e, os2)"
    "list_all (\<lambda>a. 0 < a) os2"
    using send_exact_ok by blast
  with s1 is_message_type [OF assms(1)] assms(2) show ?thesis
    by (simp add: tcp_send_envelope_def Let_def)
qed

lemma tcp_send_all_image:
  assumes "list_all tcp_sendable msgs" and "0 \<le> fd" and "tcp_send_all os msgs fd = (n, bytes)"
  shows "\<exists>p. bytes = wire.image (take n msgs) @ p \<and> tcp_next p = None \<and> n \<le> length msgs
    \<and> (list_all (\<lambda>a. 0 < a) os \<longrightarrow> n = length msgs)"
  using assms(1,3)
proof (induction msgs arbitrary: os n bytes)
  case Nil
  then show ?case by (auto simp: tcp_next_def tcp_header_size_def)
next
  case (Cons m msgs)
  obtain pad e seq where m: "m = (pad, e, seq)" by (cases m)
  have msg: "is_message e" using Cons.prems(1) m by (simp add: tcp_sendable_def)
  obtain ok out es os' where send: "tcp_send_envelope os pad e seq fd = (ok, out, es, os')"
    by (cases "tcp_send_envelope os pad e seq fd")
  note frame = tcp_send_envelope_frame [OF msg assms(2) send]
  have good: "ok \<and> list_all (\<lambda>a. 0 < a) os'" if "list_all (\<lambda>a. 0 < a) os"
    using tcp_send_envelope_ok [OF msg assms(2) that, of pad seq] send by auto
  show ?case
  proof (cases ok)
    case True
    obtain k outs where rest: "tcp_send_all os' msgs fd = (k, outs)"
      by (cases "tcp_send_all os' msgs fd")
    with Cons.IH [OF _ rest] Cons.prems m send True frame good show ?thesis by auto
  next
    case False
    then obtain s where "tcp_frame (pad, e, seq) = out @ s" "s \<noteq> []"
      using frame by (metis append_Nil2)
    then have "tcp_next out = None" by (rule tcp_next_torn_frame [OF msg])
    with Cons.prems(2) m send False good show ?thesis by auto
  qed
qed

text \<open>
  C13.  The transport delivers messages exactly and in order: for every list of messages, whatever
  padding they hold, whatever the operating system accepts per send call and however it splits the
  stream into receive calls, the receiver decodes exactly the messages whose send reported success,
  in the order sent; a message cut off by a failing send is not delivered; and if no send call
  fails, all are delivered.
\<close>

theorem tcp_delivers_in_order:
  assumes "list_all tcp_sendable msgs" and "0 \<le> fd" and "tcp_send_all os msgs fd = (n, bytes)"
  shows "tcp_recv_all os' bytes = map tcp_view (take n msgs)
    \<and> (list_all (\<lambda>a. 0 < a) os \<longrightarrow> n = length msgs)"
proof -
  obtain p where p: "bytes = wire.image (take n msgs) @ p" "tcp_next p = None"
    "list_all (\<lambda>a. 0 < a) os \<longrightarrow> n = length msgs"
    using tcp_send_all_image [OF assms] by blast
  have "list_all tcp_sendable (take n msgs)"
    using assms(1) by (simp add: list_all_length)
  from wire.read_stops_at [OF this p(2)] p show ?thesis
    by (simp add: tcp_recv_all_any [of os'])
qed

definition sample_ack :: Envelope where
  "sample_ack = ack_env (Ack0\<lparr>ack_client_order_id := 7\<rparr>)"

lemma sample_ack_message: "is_message sample_ack"
  by (simp add: sample_ack_def is_message_def message_defaults)

theorem tcp_delivers_in_order_witness:
  "\<exists>n bytes. tcp_send_all [3, 100, 1] [((\<lambda>_. 0), sample_ack, 1), ((\<lambda>_. 9), sample_ack, 2)] 5
      = (n, bytes) \<and> tcp_recv_all [2, 2] bytes = [sample_ack, sample_ack]"
proof -
  let ?msgs = "[((\<lambda>_. 0 :: byte), sample_ack, 1 :: Sequence), ((\<lambda>_. 9), sample_ack, 2)]"
  obtain n bytes where run: "tcp_send_all [3, 100, 1] ?msgs 5 = (n, bytes)"
    by (cases "tcp_send_all [3, 100, 1] ?msgs 5")
  have "list_all tcp_sendable ?msgs" by (simp add: tcp_sendable_def sample_ack_message)
  from tcp_delivers_in_order [OF this _ run, of "[2, 2]"] run show ?thesis
    by (simp add: tcp_view_def)
qed

lemma tcp_next_one_byte:
  assumes "is_message e" and "i < payload_size_for_type (env_type e)" and "payload_image pad e ! i \<noteq> b"
  shows "tcp_next ((tcp_frame (pad, e, seq))[tcp_header_size + i := b] @ rest) = None"
proof -
  let ?p = "payload_image pad e"
  have len: "length ?p = payload_size_for_type (env_type e)"
    by (rule payload_image_message(2) [OF assms(1)])
  have "checksum_bytes (?p[i := b]) \<noteq> checksum_bytes ?p"
    using assms(2,3) len by (intro checksum_detects) simp_all
  moreover have "(tcp_frame (pad, e, seq))[tcp_header_size + i := b]
      = bytes_of_tcp_header (tcp_frame_header ?p (env_type e) seq) @ ?p[i := b]"
    by (simp add: tcp_frame_def list_update_append)
  ultimately show ?thesis
    using is_message_type [OF assms(1)] len
    by (simp add: tcp_next_header tcp_frame_header_def Let_def)
qed

text \<open>
  A frame whose payload was changed in one byte is refused: the receiver returns nothing,
  logs the mismatch and has consumed exactly that frame, so the next frame is still in step.
\<close>

lemma tcp_payload_corruption_refused:
  assumes "is_message e" and "0 \<le> fd"
    and "i < payload_size_for_type (env_type e)" and "payload_image pad e ! i \<noteq> b"
  shows "fst (tcp_recv_envelope os fd
      ((tcp_frame (pad, e, seq))[tcp_header_size + i := b] @ rest)) = None"
  using tcp_recv_eq_next [OF assms(2), of "(tcp_frame (pad, e, seq))[tcp_header_size + i := b] @ rest" os]
    tcp_next_one_byte [OF assms(1,3,4), of seq rest]
  by (cases "tcp_recv_envelope os fd ((tcp_frame (pad, e, seq))[tcp_header_size + i := b] @ rest)")
     (auto split: option.splits)

theorem tcp_payload_corruption_refused_witness:
  "fst (tcp_recv_envelope [] 4
      ((tcp_frame ((\<lambda>_. 0), sample_ack, 3))[tcp_header_size + 0 := 77] @ [])) = None"
proof -
  have "payload_image (\<lambda>_. 0) sample_ack ! 0 \<noteq> 77" "0 < payload_size_for_type (env_type sample_ack)"
    by (simp_all add: payload_image_def union_image_def sample_ack_def bytes_of_ack_def
        bytes_of_header_def message_defaults)
  from tcp_payload_corruption_refused [OF sample_ack_message _ this(2,1), of 4 "[]" 3 "[]"]
  show ?thesis by simp
qed

text \<open>
  C33.  The checksum does not cover the header: a signal whose frame arrives with the type byte
  changed from 2 to 3 passes every check of the receiver and is delivered as a new order, read from
  the bytes of the signal (both payloads have 72 bytes).
\<close>

theorem tcp_type_byte_unprotected:
  "fst (tcp_recv_envelope os 0 ((tcp_frame (pad, signal_env s, seq))[8 := 3] @ rest))
     = Some (new_order_env (new_order_of_bytes (bytes_of_signal pad s)))"
proof -
  let ?p = "payload_image pad (signal_env s)"
  have p: "?p = bytes_of_signal pad s"
    by (simp add: payload_image_def union_image_def)
  have "(bytes_of_tcp_header h)[8 := 3] = bytes_of_tcp_header (h\<lparr>tfh_type := MT_NewOrder\<rparr>)" for h
    by (simp add: bytes_of_tcp_header_def list_update_append)
  then have "(tcp_frame (pad, signal_env s, seq))[8 := 3] @ rest
      = bytes_of_tcp_header ((tcp_frame_header ?p MT_Signal seq)\<lparr>tfh_type := MT_NewOrder\<rparr>) @ ?p @ rest"
    by (simp add: tcp_frame_def list_update_append tcp_header_size_def)
  then have "tcp_next ((tcp_frame (pad, signal_env s, seq))[8 := 3] @ rest)
      = Some (new_order_env (new_order_of_bytes (bytes_of_signal pad s)), rest)"
    by (simp add: tcp_next_header tcp_frame_header_def Let_def p new_order_env_def Envelope0_def)
  then show ?thesis
    using tcp_recv_eq_next [of 0 "(tcp_frame (pad, signal_env s, seq))[8 := 3] @ rest" os]
    by (auto split: option.splits prod.splits)
qed

section \<open>Ownership of descriptors\<close>

text \<open>
  \<open>TcpConnection\<close> owns a descriptor.  Its operations return the descriptors they hand to
  \<open>::close\<close>.
\<close>

record TcpConnection =
  tc_fd :: int

definition tcp_connection_new :: "int \<Rightarrow> TcpConnection" where
  "tcp_connection_new fd = \<lparr>tc_fd = fd\<rparr>"

definition tcp_connection_valid :: "TcpConnection \<Rightarrow> bool" where
  "tcp_connection_valid c \<longleftrightarrow> 0 \<le> tc_fd c"

definition tcp_connection_close :: "TcpConnection \<Rightarrow> int list \<times> TcpConnection" where
  "tcp_connection_close c = (if 0 \<le> tc_fd c then ([tc_fd c], c\<lparr>tc_fd := -1\<rparr>) else ([], c))"

text \<open>The move constructor returns the new connection and the moved-from one.\<close>

definition tcp_connection_move :: "TcpConnection \<Rightarrow> TcpConnection \<times> TcpConnection" where
  "tcp_connection_move other = (\<lparr>tc_fd = tc_fd other\<rparr>, other\<lparr>tc_fd := -1\<rparr>)"

text \<open>Move assignment of two different objects; assigning an object to itself does nothing.\<close>

definition tcp_connection_move_assign ::
  "TcpConnection \<Rightarrow> TcpConnection \<Rightarrow> int list \<times> TcpConnection \<times> TcpConnection" where
  "tcp_connection_move_assign this other =
     (let (closed, this1) = tcp_connection_close this
      in (closed, this1\<lparr>tc_fd := tc_fd other\<rparr>, other\<lparr>tc_fd := -1\<rparr>))"

text \<open>
  A program that owns a list of connections: it creates one for a fresh descriptor, moves one
  into a new object, move-assigns one to another, closes one, or destroys the last one.
\<close>

datatype conn_op = CO_New int | CO_Move nat | CO_Assign nat nat | CO_Close nat | CO_Destroy

definition conn_step :: "conn_op \<Rightarrow> TcpConnection list \<Rightarrow> int list \<times> TcpConnection list" where
  "conn_step op cs = (case op of
     CO_New fd \<Rightarrow> ([], cs @ [tcp_connection_new fd])
   | CO_Move j \<Rightarrow>
       if j < length cs then (let (c, d) = tcp_connection_move (cs ! j) in ([], cs[j := d] @ [c]))
       else ([], cs)
   | CO_Assign i j \<Rightarrow>
       if i < length cs \<and> j < length cs \<and> i \<noteq> j
       then (let (closed, c, d) = tcp_connection_move_assign (cs ! i) (cs ! j)
             in (closed, cs[i := c, j := d]))
       else ([], cs)
   | CO_Close i \<Rightarrow>
       if i < length cs then (let (closed, c) = tcp_connection_close (cs ! i) in (closed, cs[i := c]))
       else ([], cs)
   | CO_Destroy \<Rightarrow>
       if cs \<noteq> [] then (fst (tcp_connection_close (last cs)), butlast cs) else ([], cs))"

fun conn_run :: "conn_op list \<Rightarrow> TcpConnection list \<Rightarrow> int list \<times> TcpConnection list" where
  "conn_run [] cs = ([], cs)"
| "conn_run (op # ops) cs =
     (let (closed, cs1) = conn_step op cs; (more, cs2) = conn_run ops cs1 in (closed @ more, cs2))"

definition owned :: "TcpConnection list \<Rightarrow> int multiset" where
  "owned cs = filter_mset (\<lambda>fd. 0 \<le> fd) (mset (map tc_fd cs))"

fun opened :: "conn_op list \<Rightarrow> int multiset" where
  "opened [] = {#}"
| "opened (CO_New fd # ops) = (if 0 \<le> fd then {#fd#} else {#}) + opened ops"
| "opened (_ # ops) = opened ops"

lemma owned_simps [simp]:
  "owned [] = {#}" "owned (cs @ ds) = owned cs + owned ds"
  "owned [c] = (if 0 \<le> tc_fd c then {#tc_fd c#} else {#})"
  by (simp_all add: owned_def)

lemma owned_update:
  assumes "i < length cs"
  shows "owned (cs[i := c]) + owned [cs ! i] = owned cs + owned [c]"
proof -
  have cs: "cs = take i cs @ [cs ! i] @ drop (Suc i) cs"
    using id_take_nth_drop [OF assms] by simp
  have upd: "cs[i := c] = take i cs @ [c] @ drop (Suc i) cs"
    using upd_conv_take_nth_drop [OF assms] by simp
  have "owned cs = owned (take i cs) + owned [cs ! i] + owned (drop (Suc i) cs)"
    by (subst cs) (simp only: owned_simps add.assoc)
  moreover have "owned (cs[i := c]) = owned (take i cs) + owned [c] + owned (drop (Suc i) cs)"
    by (subst upd) (simp only: owned_simps add.assoc)
  ultimately show ?thesis by (simp only: ac_simps)
qed

lemma conn_step_owned:
  "mset (fst (conn_step op cs)) + owned (snd (conn_step op cs)) = opened [op] + owned cs"
proof (cases op)
  case (CO_New fd)
  then show ?thesis by (simp add: conn_step_def tcp_connection_new_def)
next
  case (CO_Move j)
  show ?thesis
  proof (cases "j < length cs")
    case True
    with CO_Move owned_update [OF True, of "(cs ! j)\<lparr>tc_fd := -1\<rparr>"] show ?thesis
      by (auto simp: conn_step_def tcp_connection_move_def Let_def split: if_splits)
  next
    case False
    with CO_Move show ?thesis by (simp add: conn_step_def)
  qed
next
  case (CO_Assign i j)
  show ?thesis
  proof (cases "i < length cs \<and> j < length cs \<and> i \<noteq> j")
    case True
    define c where "c = (snd (tcp_connection_close (cs ! i)))\<lparr>tc_fd := tc_fd (cs ! j)\<rparr>"
    define d where "d = (cs ! j)\<lparr>tc_fd := -1\<rparr>"
    have first: "owned (cs[i := c]) + owned [cs ! i] = owned cs + owned [cs ! j]"
      using True owned_update [of i cs c] by (simp add: c_def)
    have second: "owned (cs[i := c, j := d]) + owned [cs ! j] = owned (cs[i := c])"
      using owned_update [of j "cs[i := c]" d] True by (simp add: d_def)
    have "(owned (cs[i := c, j := d]) + owned [cs ! i]) + owned [cs ! j]
        = (owned (cs[i := c, j := d]) + owned [cs ! j]) + owned [cs ! i]"
      by (simp only: ac_simps)
    also have "\<dots> = owned cs + owned [cs ! j]" by (simp only: second first)
    finally have "owned (cs[i := c, j := d]) + owned [cs ! i] = owned cs"
      by (simp only: add_right_cancel)
    moreover have "mset (fst (conn_step op cs)) = owned [cs ! i]"
      "snd (conn_step op cs) = cs[i := c, j := d]"
      using True CO_Assign
      by (auto simp: conn_step_def tcp_connection_move_assign_def tcp_connection_close_def Let_def
          c_def d_def)
    ultimately show ?thesis using CO_Assign by (simp add: add.commute)
  next
    case False
    with CO_Assign show ?thesis by (auto simp: conn_step_def)
  qed
next
  case (CO_Close i)
  show ?thesis
  proof (cases "i < length cs")
    case True
    with CO_Close owned_update [OF True, of "snd (tcp_connection_close (cs ! i))"] show ?thesis
      by (auto simp: conn_step_def tcp_connection_close_def Let_def split: if_splits)
  next
    case False
    with CO_Close show ?thesis by (simp add: conn_step_def)
  qed
next
  case CO_Destroy
  show ?thesis
  proof (cases "cs = []")
    case True
    with CO_Destroy show ?thesis by (simp add: conn_step_def)
  next
    case False
    then have "owned cs = owned (butlast cs) + owned [last cs]"
      by (metis append_butlast_last_id owned_simps(2))
    with False CO_Destroy show ?thesis
      by (simp add: conn_step_def tcp_connection_close_def)
  qed
qed

end
