(* ===== verification/Tcp_Endpoints.thy ===== *)
theory Tcp_Endpoints
  imports Tcp_Transport
begin

text \<open>
  Servers and clients of src/tcp_transport.cpp: listening, accepting and connecting over the answers
  of the system calls, and what becomes of every descriptor the system hands out when a program uses
  connections, servers and clients in any order.
\<close>

section \<open>TcpServer\<close>

record TcpServer =
  ts_listen_fd :: int

definition TcpServer0 :: TcpServer where "TcpServer0 = \<lparr>ts_listen_fd = -1\<rparr>"

definition tcp_server_close :: "TcpServer \<Rightarrow> int list \<times> TcpServer" where
  "tcp_server_close server =
     (if 0 \<le> ts_listen_fd server then ([ts_listen_fd server], server\<lparr>ts_listen_fd := -1\<rparr>)
      else ([], server))"

text \<open>The answers of \<open>socket\<close>, \<open>bind\<close> and \<open>listen\<close>; the result has the descriptors it closes.\<close>

definition tcp_server_listen_on ::
  "int \<Rightarrow> int \<Rightarrow> int \<Rightarrow> TcpServer \<Rightarrow> bool \<times> effect list \<times> int list \<times> TcpServer" where
  "tcp_server_listen_on socket_result bind_result listen_result server =
     (let server1 = server\<lparr>ts_listen_fd := socket_result\<rparr>
      in if socket_result < 0
         then (False, [Log Error ''tcp_server'' ''failed to create socket''], [], server1)
         else if bind_result < 0
         then (let (closed, server2) = tcp_server_close server1
               in (False, [Log Error ''tcp_server'' ''failed to bind socket''], closed, server2))
         else if listen_result < 0
         then (let (closed, server2) = tcp_server_close server1
               in (False, [Log Error ''tcp_server'' ''failed to listen''], closed, server2))
         else (True, [Log Info ''tcp_server'' ''listening on loopback TCP port''], [], server1))"

text \<open>
  \<open>accept_one\<close>; without a listening descriptor the system is not asked.
\<close>

definition tcp_server_accept_one :: "int \<Rightarrow> TcpServer \<Rightarrow> TcpConnection option \<times> effect list" where
  "tcp_server_accept_one accept_result server =
     (if ts_listen_fd server < 0 then (None, [])
      else if accept_result < 0 then (None, [Log Warn ''tcp_server'' ''accept failed''])
      else (Some (tcp_connection_new accept_result), [Log Info ''tcp_server'' ''accepted TCP client'']))"

section \<open>TcpClient\<close>

text \<open>
  The loop over the addresses: for each the answers of \<open>socket\<close> and \<open>connect\<close>.  It gives the descriptors
  it got from the system, those it closed, and the one it ends with.
\<close>

fun tcp_connect_loop :: "(int \<times> int) list \<Rightarrow> int \<Rightarrow> int list \<times> int list \<times> int" where
  "tcp_connect_loop [] fd = ([], [], fd)"
| "tcp_connect_loop ((socket_result, connect_result) # rps) fd =
     (if socket_result < 0 then tcp_connect_loop rps socket_result
      else if connect_result = 0 then ([socket_result], [], socket_result)
      else (case tcp_connect_loop rps (-1) of
          (got, closed, fd') \<Rightarrow> (socket_result # got, socket_result # closed, fd')))"

text \<open>\<open>None\<close> for a host that cannot be resolved.\<close>

definition tcp_client_connect_to ::
  "(int \<times> int) list option \<Rightarrow> TcpConnection option \<times> effect list \<times> int list \<times> int list" where
  "tcp_client_connect_to addresses =
     (case addresses of
        None \<Rightarrow> (None, [Log Error ''tcp_client'' ''getaddrinfo failed''], [], [])
      | Some results \<Rightarrow>
          (case tcp_connect_loop results (-1) of
             (got, closed, fd) \<Rightarrow>
               if fd < 0 then (None, [Log Error ''tcp_client'' ''connect failed''], got, closed)
               else (Some (tcp_connection_new fd), [Log Info ''tcp_client'' ''connected to TCP server''],
                     got, closed)))"

text \<open>
  Connecting again and again until an attempt succeeds, with what a failure logs; \<open>None\<close> while it is
  still trying after all the attempts.
\<close>

fun connect_retry :: "effect \<Rightarrow> (int \<times> int) list option list \<Rightarrow> TcpConnection option \<times> effect list" where
  "connect_retry failed [] = (None, [])"
| "connect_retry failed (attempt # attempts) =
     (case tcp_client_connect_to attempt of
        (Some conn, es, _, _) \<Rightarrow> (Some conn, es)
      | (None, es, _, _) \<Rightarrow>
          (let (c, fs) = connect_retry failed attempts in (c, es @ [failed] @ fs)))"

lemma tcp_connect_loop_conserves:
  "tcp_connect_loop rps fd = (got, closed, fd') \<Longrightarrow> fd < 0 \<Longrightarrow>
   mset got = mset closed + (if 0 \<le> fd' then {#fd'#} else {#})"
proof (induction rps fd arbitrary: got closed fd' rule: tcp_connect_loop.induct)
  case (1 fd)
  then show ?case by simp
next
  case (2 socket_result connect_result rps fd)
  then show ?case by (auto split: if_splits prod.splits)
qed

text \<open>Connecting takes the first address that accepts.\<close>

lemma tcp_connect_first:
  "fst (tcp_client_connect_to (Some results)) =
     map_option (\<lambda>(s, c). tcp_connection_new s) (find (\<lambda>(s, c). 0 \<le> s \<and> c = 0) results)"
proof -
  have "fd < 0 \<Longrightarrow> (case find (\<lambda>(s, c). 0 \<le> s \<and> c = 0) results of
      None \<Rightarrow> snd (snd (tcp_connect_loop results fd)) < 0
    | Some (s, c) \<Rightarrow> snd (snd (tcp_connect_loop results fd)) = s \<and> 0 \<le> s)" for fd
    by (induction results fd rule: tcp_connect_loop.induct)
       (auto split: option.splits prod.splits)
  from this [of "-1"] show ?thesis
    by (auto simp: tcp_client_connect_to_def split: option.splits prod.splits)
qed

section \<open>A program with connections and servers\<close>

record Endpoints =
  ep_connections :: "TcpConnection list"
  ep_servers :: "TcpServer list"

datatype endpoint_op =
    EO_Connection conn_op
  | EO_Connect "(int \<times> int) list option"
  | EO_Server
  | EO_Listen nat int int int
  | EO_Accept nat int
  | EO_CloseServer nat
  | EO_DestroyServer

definition add_connection :: "TcpConnection option \<Rightarrow> TcpConnection list \<Rightarrow> TcpConnection list" where
  "add_connection c cs = (case c of None \<Rightarrow> cs | Some c \<Rightarrow> cs @ [c])"

text \<open>
  A step gives the descriptors the system handed out, those closed, and the new state; an operation on
  a server that does not exist is none.  Connections come into being by connecting and accepting only.
\<close>

definition endpoint_step :: "endpoint_op \<Rightarrow> Endpoints \<Rightarrow> int list \<times> int list \<times> Endpoints" where
  "endpoint_step op ep = (let cs = ep_connections ep; ss = ep_servers ep in case op of
     EO_Connection (CO_New fd) \<Rightarrow> ([], [], ep)
   | EO_Connection cop \<Rightarrow>
       (let (closed, cs') = conn_step cop cs in ([], closed, ep\<lparr>ep_connections := cs'\<rparr>))
   | EO_Connect addresses \<Rightarrow>
       (let (c, es, got, closed) = tcp_client_connect_to addresses
        in (got, closed, ep\<lparr>ep_connections := add_connection c cs\<rparr>))
   | EO_Server \<Rightarrow> ([], [], ep\<lparr>ep_servers := ss @ [TcpServer0]\<rparr>)
   | EO_Listen i s b l \<Rightarrow>
       if i < length ss
       then (let (ok, es, closed, server) = tcp_server_listen_on s b l (ss ! i)
             in (if 0 \<le> s then [s] else [], closed, ep\<lparr>ep_servers := ss[i := server]\<rparr>))
       else ([], [], ep)
   | EO_Accept i a \<Rightarrow>
       if i < length ss
       then (let (c, es) = tcp_server_accept_one a (ss ! i)
             in (if 0 \<le> ts_listen_fd (ss ! i) \<and> 0 \<le> a then [a] else [], [],
                 ep\<lparr>ep_connections := add_connection c cs\<rparr>))
       else ([], [], ep)
   | EO_CloseServer i \<Rightarrow>
       if i < length ss
       then (let (closed, server) = tcp_server_close (ss ! i)
             in ([], closed, ep\<lparr>ep_servers := ss[i := server]\<rparr>))
       else ([], [], ep)
   | EO_DestroyServer \<Rightarrow>
       if ss \<noteq> [] then ([], fst (tcp_server_close (last ss)), ep\<lparr>ep_servers := butlast ss\<rparr>)
       else ([], [], ep))"

fun endpoint_run :: "endpoint_op list \<Rightarrow> Endpoints \<Rightarrow> int list \<times> int list \<times> Endpoints" where
  "endpoint_run [] ep = ([], [], ep)"
| "endpoint_run (op # ops) ep =
     (let (got, closed, ep1) = endpoint_step op ep; (got', closed', ep2) = endpoint_run ops ep1
      in (got @ got', closed @ closed', ep2))"

text \<open>
  What listening loses: \<open>listen_on\<close> overwrites the descriptor of a server that listens already.
\<close>

definition endpoint_lost :: "endpoint_op \<Rightarrow> Endpoints \<Rightarrow> int list" where
  "endpoint_lost op ep = (case op of
     EO_Listen i _ _ _ \<Rightarrow>
       if i < length (ep_servers ep) \<and> 0 \<le> ts_listen_fd (ep_servers ep ! i)
       then [ts_listen_fd (ep_servers ep ! i)] else []
   | _ \<Rightarrow> [])"

fun endpoint_run_lost :: "endpoint_op list \<Rightarrow> Endpoints \<Rightarrow> int list" where
  "endpoint_run_lost [] ep = []"
| "endpoint_run_lost (op # ops) ep =
     endpoint_lost op ep @ endpoint_run_lost ops (snd (snd (endpoint_step op ep)))"

text \<open>Servers own their descriptor as connections do.\<close>

definition server_fds :: "TcpServer list \<Rightarrow> TcpConnection list" where
  "server_fds ss = map (\<lambda>s. \<lparr>tc_fd = ts_listen_fd s\<rparr>) ss"

definition ep_owned :: "Endpoints \<Rightarrow> int multiset" where
  "ep_owned ep = owned (ep_connections ep) + owned (server_fds (ep_servers ep))"

definition fd_mset :: "int \<Rightarrow> int multiset" where
  "fd_mset fd = (if 0 \<le> fd then {#fd#} else {#})"

lemma owned_one: "owned [c] = fd_mset (tc_fd c)"
  by (simp add: fd_mset_def)

lemma ep_owned_server:
  assumes "i < length (ep_servers ep)"
  shows "ep_owned (ep\<lparr>ep_servers := (ep_servers ep)[i := s]\<rparr>) + fd_mset (ts_listen_fd (ep_servers ep ! i))
    = ep_owned ep + fd_mset (ts_listen_fd s)"
proof -
  have "owned (server_fds ((ep_servers ep)[i := s])) + owned [\<lparr>tc_fd = ts_listen_fd (ep_servers ep ! i)\<rparr>]
      = owned (server_fds (ep_servers ep)) + owned [\<lparr>tc_fd = ts_listen_fd s\<rparr>]"
    using owned_update [of i "server_fds (ep_servers ep)" "\<lparr>tc_fd = ts_listen_fd s\<rparr>"] assms
    by (simp add: server_fds_def map_update)
  then show ?thesis
    unfolding owned_one by (simp add: ep_owned_def add.assoc)
qed

lemma ep_owned_connection:
  "ep_owned (ep\<lparr>ep_connections := add_connection c (ep_connections ep)\<rparr>)
    = ep_owned ep + (case c of None \<Rightarrow> {#} | Some c \<Rightarrow> fd_mset (tc_fd c))"
  by (cases c) (simp_all add: add_connection_def ep_owned_def fd_mset_def ac_simps)

lemma listen_conserves:
  "tcp_server_listen_on s b l server = (ok, es, closed, server') \<Longrightarrow>
   fd_mset s = mset closed + fd_mset (ts_listen_fd server')"
  by (auto simp: tcp_server_listen_on_def tcp_server_close_def fd_mset_def Let_def split: if_splits)

lemma server_close_conserves:
  "tcp_server_close server = (closed, server') \<Longrightarrow>
   fd_mset (ts_listen_fd server) = mset closed + fd_mset (ts_listen_fd server')"
  by (auto simp: tcp_server_close_def fd_mset_def split: if_splits)

lemma connect_conserves:
  "tcp_client_connect_to addresses = (c, es, got, closed) \<Longrightarrow>
   mset got = mset closed + (case c of None \<Rightarrow> {#} | Some c \<Rightarrow> fd_mset (tc_fd c))"
  using tcp_connect_loop_conserves [of "the addresses" "-1"]
  by (auto simp: tcp_client_connect_to_def tcp_connection_new_def fd_mset_def
      split: option.splits prod.splits if_splits)

lemma accept_conserves:
  "tcp_server_accept_one a server = (c, es) \<Longrightarrow>
   mset (if 0 \<le> ts_listen_fd server \<and> 0 \<le> a then [a] else [])
     = (case c of None \<Rightarrow> {#} | Some c \<Rightarrow> fd_mset (tc_fd c))"
  by (auto simp: tcp_server_accept_one_def tcp_connection_new_def fd_mset_def split: if_splits)

lemma endpoint_step_connection:
  "endpoint_step (EO_Connection cop) ep = (got, closed, ep') \<Longrightarrow>
   mset got + ep_owned ep = mset closed + mset (endpoint_lost (EO_Connection cop) ep) + ep_owned ep'"
  using conn_step_owned [of cop "ep_connections ep"]
  by (cases cop) (auto simp: endpoint_step_def endpoint_lost_def ep_owned_def split_beta Let_def ac_simps)

lemma endpoint_step_listen:
  assumes "endpoint_step (EO_Listen i s b l) ep = (got, closed, ep')"
  shows "mset got + ep_owned ep = mset closed + mset (endpoint_lost (EO_Listen i s b l) ep) + ep_owned ep'"
proof (cases "i < length (ep_servers ep)")
  case True
  obtain ok es cl server where listen: "tcp_server_listen_on s b l (ep_servers ep ! i) = (ok, es, cl, server)"
    by (metis prod_cases4)
  let ?old = "fd_mset (ts_listen_fd (ep_servers ep ! i))"
  have step: "mset got = fd_mset s" "closed = cl" "ep' = ep\<lparr>ep_servers := (ep_servers ep)[i := server]\<rparr>"
    and lost: "mset (endpoint_lost (EO_Listen i s b l) ep) = ?old"
    using assms True listen by (auto simp: endpoint_step_def endpoint_lost_def fd_mset_def Let_def)
  have "mset closed + ?old + ep_owned ep' = mset cl + (ep_owned ep' + ?old)"
    by (simp add: step ac_simps)
  also have "\<dots> = fd_mset s + ep_owned ep"
    unfolding step(3) ep_owned_server [OF True] using listen_conserves [OF listen] by (simp add: ac_simps)
  finally show ?thesis by (simp add: step(1) lost)
next
  case False
  with assms show ?thesis by (simp add: endpoint_step_def endpoint_lost_def Let_def)
qed

lemma endpoint_step_close_server:
  assumes "endpoint_step (EO_CloseServer i) ep = (got, closed, ep')"
  shows "mset got + ep_owned ep = mset closed + mset (endpoint_lost (EO_CloseServer i) ep) + ep_owned ep'"
proof (cases "i < length (ep_servers ep)")
  case True
  obtain cl server where close: "tcp_server_close (ep_servers ep ! i) = (cl, server)" by fastforce
  have step: "got = []" "closed = cl" "ep' = ep\<lparr>ep_servers := (ep_servers ep)[i := server]\<rparr>"
    using assms True close by (auto simp: endpoint_step_def Let_def)
  have "ep_owned ep' + (mset cl + fd_mset (ts_listen_fd server)) = ep_owned ep + fd_mset (ts_listen_fd server)"
    using ep_owned_server [OF True, of server] server_close_conserves [OF close] by (simp add: step(3))
  then have "ep_owned ep' + mset cl = ep_owned ep" by (simp only: add.assoc [symmetric] add_right_cancel)
  then show ?thesis by (simp add: step(1,2) endpoint_lost_def ac_simps)
next
  case False
  with assms show ?thesis by (simp add: endpoint_step_def endpoint_lost_def Let_def)
qed

lemma endpoint_step_destroy_server:
  assumes "endpoint_step EO_DestroyServer ep = (got, closed, ep')"
  shows "mset got + ep_owned ep = mset closed + mset (endpoint_lost EO_DestroyServer ep) + ep_owned ep'"
proof (cases "ep_servers ep = []")
  case False
  have step: "got = []" "closed = fst (tcp_server_close (last (ep_servers ep)))"
    "ep' = ep\<lparr>ep_servers := butlast (ep_servers ep)\<rparr>"
    using assms False by (simp_all add: endpoint_step_def Let_def)
  have "server_fds (ep_servers ep) = server_fds (butlast (ep_servers ep))
      @ [\<lparr>tc_fd = ts_listen_fd (last (ep_servers ep))\<rparr>]"
    unfolding server_fds_def by (subst append_butlast_last_id [OF False, symmetric]) simp
  then have "ep_owned ep = ep_owned ep' + fd_mset (ts_listen_fd (last (ep_servers ep)))"
    by (simp add: ep_owned_def step(3) fd_mset_def)
  moreover have "mset closed = fd_mset (ts_listen_fd (last (ep_servers ep)))"
    by (simp add: step(2) tcp_server_close_def fd_mset_def)
  ultimately show ?thesis by (simp add: step(1) endpoint_lost_def)
next
  case True
  with assms show ?thesis by (simp add: endpoint_step_def endpoint_lost_def Let_def)
qed

lemma endpoint_step_conserves:
  assumes "endpoint_step op ep = (got, closed, ep')"
  shows "mset got + ep_owned ep = mset closed + mset (endpoint_lost op ep) + ep_owned ep'"
proof (cases op)
  case (EO_Connect addresses)
  obtain c es gt cl where connect: "tcp_client_connect_to addresses = (c, es, gt, cl)" by (metis prod_cases4)
  have "got = gt" "closed = cl" "ep' = ep\<lparr>ep_connections := add_connection c (ep_connections ep)\<rparr>"
    using assms connect by (simp_all add: EO_Connect endpoint_step_def Let_def)
  then show ?thesis
    using connect_conserves [OF connect]
    by (simp add: EO_Connect endpoint_lost_def ep_owned_connection ac_simps)
next
  case EO_Server
  with assms show ?thesis
    by (auto simp: endpoint_step_def endpoint_lost_def ep_owned_def server_fds_def TcpServer0_def Let_def)
next
  case (EO_Accept i a)
  show ?thesis
  proof (cases "i < length (ep_servers ep)")
    case True
    obtain c es where accept: "tcp_server_accept_one a (ep_servers ep ! i) = (c, es)" by fastforce
    have "mset got = (case c of None \<Rightarrow> {#} | Some c \<Rightarrow> fd_mset (tc_fd c))" "closed = []"
      "ep' = ep\<lparr>ep_connections := add_connection c (ep_connections ep)\<rparr>"
      unfolding accept_conserves [OF accept, symmetric]
      using assms True accept by (auto simp: EO_Accept endpoint_step_def Let_def)
    then show ?thesis by (simp add: EO_Accept endpoint_lost_def ep_owned_connection ac_simps)
  next
    case False
    with assms EO_Accept show ?thesis by (simp add: endpoint_step_def endpoint_lost_def Let_def)
  qed
next
  case (EO_Connection cop)
  then show ?thesis using endpoint_step_connection assms by simp
next
  case (EO_Listen i s b l)
  then show ?thesis using endpoint_step_listen assms by simp
next
  case (EO_CloseServer i)
  then show ?thesis using endpoint_step_close_server assms by simp
next
  case EO_DestroyServer
  then show ?thesis using endpoint_step_destroy_server assms by simp
qed

lemma mset_telescope:
  fixes a :: "'a multiset"
  assumes "a + x = c + l + y" and "a' + y = c' + l' + z"
  shows "a + a' + x = c + c' + (l + l') + z"
proof -
  have "a + a' + x = (a + x) + a'" by (simp only: ac_simps)
  also have "\<dots> = c + l + (a' + y)" by (simp only: assms(1) ac_simps)
  also have "\<dots> = c + c' + (l + l') + z" by (simp only: assms(2) ac_simps)
  finally show ?thesis .
qed

text \<open>
  C34.  No descriptor is leaked or closed twice, with one exception: over any sequence of connecting,
  listening, accepting, moving, closing and destroying, with any answers of the system, the descriptors
  it handed out are exactly those closed, those still owned by a connection or server, and those a
  second \<open>listen_on\<close> on a listening server overwrote.
\<close>

theorem endpoint_descriptors:
  "(let ep0 = \<lparr>ep_connections = [], ep_servers = []\<rparr>; (got, closed, ep) = endpoint_run ops ep0
    in mset got = mset closed + mset (endpoint_run_lost ops ep0) + ep_owned ep)"
proof -
  have "mset (fst (endpoint_run ops ep)) + ep_owned ep = mset (fst (snd (endpoint_run ops ep)))
      + mset (endpoint_run_lost ops ep) + ep_owned (snd (snd (endpoint_run ops ep)))" for ep
  proof (induction ops arbitrary: ep)
    case Nil
    then show ?case by simp
  next
    case (Cons op ops)
    obtain got closed ep1 where step: "endpoint_step op ep = (got, closed, ep1)" by (metis prod_cases3)
    from mset_telescope [OF endpoint_step_conserves [OF step] Cons [of ep1]] show ?case
      by (simp add: step split_beta Let_def)
  qed
  from this [of "\<lparr>ep_connections = [], ep_servers = []\<rparr>"] show ?thesis
    by (simp add: ep_owned_def server_fds_def split_beta Let_def)
qed

end
