(* ===== verification/Journal.thy ===== *)
theory Journal
  imports Framed_Log
begin

text \<open>
  The append-only order journal of src/journal.cpp: record headers, the writer with its sticky
  stream state, and the reader that stops at the first record it cannot accept.  The file is the
  list of its bytes.  How many bytes of a record reach the device before a failing flush is a
  parameter, and so is whether the file can be opened.  It provides the \<open>record_log\<close> contract.
\<close>

definition JOURNAL_MAGIC :: u32 where "JOURNAL_MAGIC = 0x4A4E4C31"
definition JOURNAL_VERSION :: u16 where "JOURNAL_VERSION = 1"

section \<open>Record types and the header\<close>

datatype JournalRecordType =
    JR_Unknown | JR_OrderIntent | JR_GatewayAck | JR_GatewayReject | JR_Fill | JR_RuntimeMarker
  | JR_Other byte

fun journal_type_byte :: "JournalRecordType \<Rightarrow> byte" where
  "journal_type_byte JR_Unknown = 0"
| "journal_type_byte JR_OrderIntent = 1"
| "journal_type_byte JR_GatewayAck = 2"
| "journal_type_byte JR_GatewayReject = 3"
| "journal_type_byte JR_Fill = 4"
| "journal_type_byte JR_RuntimeMarker = 5"
| "journal_type_byte (JR_Other b) = b"

definition journal_type_of_byte :: "byte \<Rightarrow> JournalRecordType" where
  "journal_type_of_byte b =
     (if b = 0 then JR_Unknown else if b = 1 then JR_OrderIntent else if b = 2 then JR_GatewayAck
      else if b = 3 then JR_GatewayReject else if b = 4 then JR_Fill
      else if b = 5 then JR_RuntimeMarker else JR_Other b)"

fun to_string_journal_type :: "JournalRecordType \<Rightarrow> string" where
  "to_string_journal_type JR_OrderIntent = ''OrderIntent''"
| "to_string_journal_type JR_GatewayAck = ''GatewayAck''"
| "to_string_journal_type JR_GatewayReject = ''GatewayReject''"
| "to_string_journal_type JR_Fill = ''Fill''"
| "to_string_journal_type JR_RuntimeMarker = ''RuntimeMarker''"
| "to_string_journal_type _ = ''Unknown''"

definition canonical_journal_type :: "JournalRecordType \<Rightarrow> bool" where
  "canonical_journal_type t \<longleftrightarrow> journal_type_of_byte (journal_type_byte t) = t"

lemma canonical_journal_named [simp, enum_simps]:
  "canonical_journal_type JR_Unknown" "canonical_journal_type JR_OrderIntent"
  "canonical_journal_type JR_GatewayAck" "canonical_journal_type JR_GatewayReject"
  "canonical_journal_type JR_Fill" "canonical_journal_type JR_RuntimeMarker"
  by (simp_all add: canonical_journal_type_def journal_type_of_byte_def)

text \<open>The header is packed: 34 bytes without padding.\<close>

record JournalRecordHeader =
  jh_magic :: u32
  jh_version :: u16
  jh_header_size :: u16
  jh_record_type :: JournalRecordType
  jh_message_type :: MsgType
  jh_sequence :: Sequence
  jh_ts_ns :: TimestampNs
  jh_payload_size :: u32
  jh_checksum :: u32

definition journal_header_size :: nat where "journal_header_size = 34"

record JournalRecord =
  jr_header :: JournalRecordHeader
  jr_envelope :: Envelope

definition bytes_of_journal_header :: "JournalRecordHeader \<Rightarrow> byte list" where
  "bytes_of_journal_header h = le32 (jh_magic h) @ le16 (jh_version h) @ le16 (jh_header_size h)
     @ [journal_type_byte (jh_record_type h), msg_type_byte (jh_message_type h)]
     @ le64 (jh_sequence h) @ le64 (jh_ts_ns h) @ le32 (jh_payload_size h) @ le32 (jh_checksum h)"

definition journal_header_of_bytes :: "byte list \<Rightarrow> JournalRecordHeader" where
  "journal_header_of_bytes bs = \<lparr>jh_magic = rd32 0 bs, jh_version = rd16 4 bs,
     jh_header_size = rd16 6 bs, jh_record_type = journal_type_of_byte (rd8 8 bs),
     jh_message_type = msg_type_of_byte (rd8 9 bs), jh_sequence = rd64 10 bs,
     jh_ts_ns = rd64 18 bs, jh_payload_size = rd32 26 bs, jh_checksum = rd32 30 bs\<rparr>"

lemma length_bytes_of_journal_header [simp, layout_simps]:
  "length (bytes_of_journal_header h) = journal_header_size"
  by (simp add: bytes_of_journal_header_def journal_header_size_def)

lemma journal_header_of_bytes_of [simp]:
  assumes "canonical_journal_type (jh_record_type h)" and "canonical_type (jh_message_type h)"
  shows "journal_header_of_bytes (bytes_of_journal_header h) = h"
  using assms
  by (cases h) (simp add: journal_header_of_bytes_def bytes_of_journal_header_def
      canonical_type_def canonical_journal_type_def)

definition journal_checksum :: "byte list \<Rightarrow> u32" where
  "journal_checksum bs = fold (\<lambda>b hash. (hash XOR ucast b) * 16777619) bs 2166136261"

lemma journal_checksum_eq [simp]: "journal_checksum bs = checksum_bytes bs"
  by (simp add: journal_checksum_def checksum_bytes_def foldl_conv_fold fnv_step_def)

section \<open>The writer\<close>

text \<open>
  The writer's stream appends to the file; once a write failed it stays failed until the file is
  opened again.  \<open>jw_file\<close> is the file at the writer's path.
\<close>

record JournalWriter =
  jw_opened :: bool
  jw_good :: bool
  jw_file :: "byte list"

definition journal_writer_new :: "byte list \<Rightarrow> JournalWriter" where
  "journal_writer_new file = \<lparr>jw_opened = False, jw_good = True, jw_file = file\<rparr>"

definition journal_open :: "bool \<Rightarrow> JournalWriter \<Rightarrow> bool \<times> effect list \<times> JournalWriter" where
  "journal_open can_open w =
     (if jw_opened w then (True, [], w)
      else if \<not> can_open
      then (False, [Log Error ''journal'' ''failed to open journal file''], w\<lparr>jw_good := False\<rparr>)
      else (True, [Log Info ''journal'' ''opened journal file''],
            w\<lparr>jw_opened := True, jw_good := True\<rparr>))"

text \<open>
  The two writes and the flush of one record.  \<open>fault\<close> is \<open>None\<close> when the device takes everything,
  \<open>Some n\<close> when it fails after \<open>n\<close> bytes.
\<close>

definition journal_stream_write :: "nat option \<Rightarrow> byte list \<Rightarrow> JournalWriter \<Rightarrow> JournalWriter" where
  "journal_stream_write fault bs w =
     (if \<not> jw_good w then w
      else case fault of
        None \<Rightarrow> w\<lparr>jw_file := jw_file w @ bs\<rparr>
      | Some n \<Rightarrow> w\<lparr>jw_file := jw_file w @ take n bs, jw_good := False\<rparr>)"

definition journal_header_for ::
  "byte list \<Rightarrow> JournalRecordType \<Rightarrow> MsgType \<Rightarrow> Sequence \<Rightarrow> TimestampNs \<Rightarrow> JournalRecordHeader" where
  "journal_header_for payload rt t seq now = \<lparr>jh_magic = JOURNAL_MAGIC,
     jh_version = JOURNAL_VERSION, jh_header_size = of_nat journal_header_size,
     jh_record_type = rt, jh_message_type = t, jh_sequence = seq, jh_ts_ns = now,
     jh_payload_size = of_nat (payload_size_for_type t), jh_checksum = journal_checksum payload\<rparr>"

definition journal_append ::
  "bool \<Rightarrow> nat option \<Rightarrow> (nat \<Rightarrow> byte) \<Rightarrow> TimestampNs \<Rightarrow> JournalRecordType \<Rightarrow> Envelope \<Rightarrow> Sequence
   \<Rightarrow> JournalWriter \<Rightarrow> bool \<times> effect list \<times> JournalWriter" where
  "journal_append can_open fault pad now rt e seq w =
     (case (if jw_opened w then (True, [], w) else journal_open can_open w) of
        (False, es, w1) \<Rightarrow> (False, es, w1)
      | (True, es, w1) \<Rightarrow>
          (let payload = payload_image pad e
           in if \<not> has_payload_ptr (env_type e) \<or> payload_size_for_type (env_type e) = 0
              then (False, es @ [Log Warn ''journal'' ''attempted to journal invalid envelope''], w1)
              else
                let header = journal_header_for payload rt (env_type e) seq now;
                    w2 = journal_stream_write fault (bytes_of_journal_header header @ payload) w1
                in if \<not> jw_good w2
                   then (False, es @ [Log Error ''journal'' ''failed to append journal record''], w2)
                   else (True, es @ [Log Info ''journal'' ''appended journal record'',
                                     metric_inc JournalWrites], w2)))"

text \<open>Every record was flushed when it was appended, so a flush has nothing left to write.\<close>

definition journal_flush :: "JournalWriter \<Rightarrow> JournalWriter" where
  "journal_flush w = w"

definition journal_close :: "JournalWriter \<Rightarrow> effect list \<times> JournalWriter" where
  "journal_close w =
     (if jw_opened w
      then ([Log Info ''journal'' ''closed journal file''], w\<lparr>jw_opened := False\<rparr>)
      else ([], w))"

section \<open>The reader\<close>

text \<open>
  One iteration of \<open>read_all\<close>: the effects, and the record with the rest of the file unless the
  loop breaks.
\<close>

definition journal_read_one :: "byte list \<Rightarrow> effect list \<times> (JournalRecord \<times> byte list) option" where
  "journal_read_one bs =
     (if length bs < journal_header_size then ([], None)
      else
        let header = journal_header_of_bytes (take journal_header_size bs);
            rest = drop journal_header_size bs
        in if jh_magic header \<noteq> JOURNAL_MAGIC \<or> jh_version header \<noteq> JOURNAL_VERSION
              \<or> jh_header_size header \<noteq> of_nat journal_header_size
           then ([Log Warn ''journal_reader'' ''invalid journal header''], None)
           else
             let expected_size = payload_size_for_type (jh_message_type header)
             in if expected_size = 0 \<or> expected_size \<noteq> unat (jh_payload_size header)
                then ([Log Warn ''journal_reader'' ''invalid journal payload size''], None)
                else if \<not> has_payload_ptr (jh_message_type header)
                then ([Log Warn ''journal_reader'' ''invalid payload pointer''], None)
                else if length rest < unat (jh_payload_size header)
                then ([Log Warn ''journal_reader'' ''incomplete journal payload''], None)
                else
                  let payload = take (unat (jh_payload_size header)) rest
                  in if journal_checksum payload \<noteq> jh_checksum header
                     then ([Log Warn ''journal_reader'' ''journal checksum mismatch''], None)
                     else ([], Some (\<lparr>jr_header = header,
                             jr_envelope = \<lparr>env_type = jh_message_type header,
                               env_payload = payload_of_bytes (jh_message_type header) payload\<rparr>\<rparr>,
                             drop (unat (jh_payload_size header)) rest)))"

lemma journal_read_one_shrinks:
  "journal_read_one bs = (es, Some (r, rest)) \<Longrightarrow> length rest < length bs"
  by (auto simp: journal_read_one_def journal_header_size_def Let_def split: if_splits)

function journal_read_loop :: "byte list \<Rightarrow> JournalRecord list \<times> effect list" where
  "journal_read_loop bs =
     (case journal_read_one bs of
        (es, None) \<Rightarrow> ([], es)
      | (es, Some (r, rest)) \<Rightarrow> (let (rs, fs) = journal_read_loop rest in (r # rs, es @ fs)))"
  by pat_completeness auto
termination
  by (relation "measure length") (auto dest: journal_read_one_shrinks [OF sym])

declare journal_read_loop.simps [simp del]

text \<open>\<open>read_all\<close> of a file that exists, or not.\<close>

definition journal_read_all :: "byte list option \<Rightarrow> JournalRecord list \<times> effect list" where
  "journal_read_all file =
     (case file of
        None \<Rightarrow> ([], [Log Warn ''journal_reader'' ''journal file not found''])
      | Some bs \<Rightarrow> journal_read_loop bs)"

section \<open>The journal as a log of records\<close>

record JournalEntry =
  je_pad :: "nat \<Rightarrow> byte"
  je_now :: TimestampNs
  je_type :: JournalRecordType
  je_envelope :: Envelope
  je_sequence :: Sequence

definition journal_bytes :: "JournalEntry \<Rightarrow> byte list" where
  "journal_bytes x = (let payload = payload_image (je_pad x) (je_envelope x)
     in bytes_of_journal_header (journal_header_for payload (je_type x)
          (env_type (je_envelope x)) (je_sequence x) (je_now x)) @ payload)"

definition journal_view :: "JournalEntry \<Rightarrow> JournalRecord" where
  "journal_view x = \<lparr>jr_header = journal_header_for (payload_image (je_pad x) (je_envelope x))
       (je_type x) (env_type (je_envelope x)) (je_sequence x) (je_now x),
     jr_envelope = je_envelope x\<rparr>"

definition journal_ok :: "JournalEntry \<Rightarrow> bool" where
  "journal_ok x \<longleftrightarrow> is_message (je_envelope x) \<and> canonical_journal_type (je_type x)"

lemma journal_read_one_header:
  assumes "canonical_journal_type (jh_record_type h)" and "canonical_type (jh_message_type h)"
  shows "snd (journal_read_one (bytes_of_journal_header h @ bs)) =
    (let size = unat (jh_payload_size h)
     in if jh_magic h \<noteq> JOURNAL_MAGIC \<or> jh_version h \<noteq> JOURNAL_VERSION
          \<or> jh_header_size h \<noteq> of_nat journal_header_size
          \<or> payload_size_for_type (jh_message_type h) = 0
          \<or> payload_size_for_type (jh_message_type h) \<noteq> size
          \<or> length bs < size \<or> checksum_bytes (take size bs) \<noteq> jh_checksum h then None
        else Some (\<lparr>jr_header = h, jr_envelope = \<lparr>env_type = jh_message_type h,
                     env_payload = payload_of_bytes (jh_message_type h) (take size bs)\<rparr>\<rparr>,
                   drop size bs))"
proof -
  have "take journal_header_size (bytes_of_journal_header h @ bs) = bytes_of_journal_header h"
    "drop journal_header_size (bytes_of_journal_header h @ bs) = bs"
    by simp_all
  with assms show ?thesis
    by (simp add: journal_read_one_def Let_def has_payload_ptr_iff)
qed

lemma journal_read_one_entry:
  assumes "journal_ok x"
  shows "snd (journal_read_one (journal_bytes x @ rest)) = Some (journal_view x, rest)"
proof -
  have msg: "is_message (je_envelope x)" and rt: "canonical_journal_type (je_type x)"
    using assms by (auto simp: journal_ok_def)
  have "payload_of_bytes (env_type (je_envelope x)) (payload_image (je_pad x) (je_envelope x))
      = env_payload (je_envelope x)"
    using payload_image_message(3) [OF msg, of "je_pad x" "[]"] by simp
  with rt is_message_type [OF msg] payload_image_message(2) [OF msg, of "je_pad x"] show ?thesis
    by (simp add: journal_bytes_def journal_view_def Let_def journal_read_one_header
        journal_header_for_def)
qed

lemma journal_read_one_torn:
  assumes "journal_ok x" and "journal_bytes x = p @ s" and "s \<noteq> []"
  shows "snd (journal_read_one p) = None"
proof (cases "length p < journal_header_size")
  case True
  then show ?thesis by (simp add: journal_read_one_def)
next
  case False
  have msg: "is_message (je_envelope x)" and rt: "canonical_journal_type (je_type x)"
    using assms(1) by (auto simp: journal_ok_def)
  let ?payload = "payload_image (je_pad x) (je_envelope x)"
  let ?h = "journal_header_for ?payload (je_type x) (env_type (je_envelope x)) (je_sequence x) (je_now x)"
  have "bytes_of_journal_header ?h @ ?payload = p @ s"
    using assms(2) by (simp add: journal_bytes_def Let_def)
  from prefix_split [OF this] False obtain q where
    q: "p = bytes_of_journal_header ?h @ q" "?payload = q @ s"
    by auto
  have "length q < payload_size_for_type (env_type (je_envelope x))"
    using payload_image_message(2) [OF msg, of "je_pad x"] q(2) assms(3) by (cases s) auto
  with is_message_type [OF msg] rt show ?thesis
    by (simp add: q(1) journal_read_one_header journal_header_for_def Let_def)
qed

lemma journal_read_loop_next:
  "fst (journal_read_loop bs)
   = (case snd (journal_read_one bs) of
        None \<Rightarrow> [] | Some (r, rest) \<Rightarrow> r # fst (journal_read_loop rest))"
  by (subst journal_read_loop.simps) (auto split: prod.splits option.splits simp: Let_def)

interpretation journal: record_log journal_bytes "\<lambda>bs. snd (journal_read_one bs)"
  "\<lambda>bs. fst (journal_read_loop bs)" journal_view journal_ok
  by unfold_locales
     (fact journal_read_one_entry, fact journal_read_one_torn, fact journal_read_loop_next)

section \<open>Properties\<close>

text \<open>A run of appends; each entry comes with the fault of its flush, if any.\<close>

fun journal_run ::
  "(JournalEntry \<times> nat option) list \<Rightarrow> JournalWriter \<Rightarrow> bool list \<times> effect list \<times> JournalWriter" where
  "journal_run [] w = ([], [], w)"
| "journal_run ((x, fault) # xs) w =
     (let (ok, es, w1) = journal_append True fault (je_pad x) (je_now x) (je_type x)
                           (je_envelope x) (je_sequence x) w;
          (oks, fs, w2) = journal_run xs w1
      in (ok # oks, es @ fs, w2))"

text \<open>A fault tears the record it hits.\<close>

definition journal_fault_ok :: "JournalEntry \<times> nat option \<Rightarrow> bool" where
  "journal_fault_ok = (\<lambda>(x, fault). journal_ok x
     \<and> (case fault of None \<Rightarrow> True | Some n \<Rightarrow> n < length (journal_bytes x)))"

lemma journal_append_entry:
  assumes "journal_ok x" and "jw_opened w"
  shows "journal_append can_open fault (je_pad x) (je_now x) (je_type x) (je_envelope x)
      (je_sequence x) w =
    (let w2 = journal_stream_write fault (journal_bytes x) w
     in if jw_good w2 then (True, [Log Info ''journal'' ''appended journal record'',
                                   metric_inc JournalWrites], w2)
        else (False, [Log Error ''journal'' ''failed to append journal record''], w2))"
  using assms is_message_type [of "je_envelope x"]
  by (simp add: journal_append_def journal_bytes_def Let_def journal_ok_def)

lemma journal_stream_write_opened [simp]:
  "jw_opened (journal_stream_write fault bs w) = jw_opened w"
  by (simp add: journal_stream_write_def split: option.splits)

lemma journal_run_failed:
  assumes "list_all journal_fault_ok xs" and "jw_opened w" and "\<not> jw_good w"
  shows "\<exists>es. journal_run xs w = (map (\<lambda>_. False) xs, es, w) \<and> inc_count JournalWrites es = 0"
  using assms(1)
proof (induction xs)
  case Nil
  then show ?case by simp
next
  case (Cons y xs)
  obtain x fault where y: "y = (x, fault)" by (cases y)
  have "journal_stream_write fault (journal_bytes x) w = w"
    using assms(3) by (simp add: journal_stream_write_def)
  with Cons y assms(2,3) show ?case
    by (auto simp: journal_fault_ok_def journal_append_entry Let_def)
qed

lemma journal_run_opened:
  assumes "list_all journal_fault_ok xs" and "jw_opened w" and "jw_good w"
  shows "\<exists>es p w'. journal_run xs w =
      (map (\<lambda>i. i < length (takeWhile (\<lambda>y. snd y = None) xs)) [0..<length xs], es, w')
    \<and> inc_count JournalWrites es = length (takeWhile (\<lambda>y. snd y = None) xs)
    \<and> jw_file w' = jw_file w
        @ journal.image (map fst (takeWhile (\<lambda>y. snd y = None) xs)) @ p
    \<and> snd (journal_read_one p) = None"
  using assms
proof (induction xs arbitrary: w)
  case Nil
  then show ?case by (auto simp: journal_read_one_def journal_header_size_def)
next
  case (Cons y xs)
  obtain x fault where y: "y = (x, fault)" by (cases y)
  have x: "journal_ok x" and xs: "list_all journal_fault_ok xs"
    using Cons.prems(1) y by (auto simp: journal_fault_ok_def)
  show ?case
  proof (cases fault)
    case None
    let ?w = "w\<lparr>jw_file := jw_file w @ journal_bytes x\<rparr>"
    have "jw_opened ?w" "jw_good ?w" using Cons.prems(2,3) by simp_all
    from Cons.IH [OF xs this] obtain es p w' where
      "journal_run xs ?w =
        (map (\<lambda>i. i < length (takeWhile (\<lambda>y. snd y = None) xs)) [0..<length xs], es, w')"
      "inc_count JournalWrites es = length (takeWhile (\<lambda>y. snd y = None) xs)"
      "jw_file w' = jw_file w @ journal_bytes x
        @ journal.image (map fst (takeWhile (\<lambda>y. snd y = None) xs)) @ p"
      "snd (journal_read_one p) = None"
      by auto
    moreover have "map (\<lambda>i. i < Suc k) [0..<Suc n] = True # map (\<lambda>i. i < k) [0..<n]" for k n
      by (simp add: upt_conv_Cons map_Suc_upt [symmetric] comp_def del: upt_Suc map_Suc_upt)
    ultimately show ?thesis
      using None y Cons.prems(2,3)
      by (simp add: journal_append_entry [OF x] journal_stream_write_def Let_def del: upt_Suc)
  next
    case (Some n)
    let ?w = "w\<lparr>jw_file := jw_file w @ take n (journal_bytes x), jw_good := False\<rparr>"
    have n: "n < length (journal_bytes x)"
      using Cons.prems(1) y Some by (simp add: journal_fault_ok_def)
    obtain es where "journal_run xs ?w = (map (\<lambda>_. False) xs, es, ?w)"
      "inc_count JournalWrites es = 0"
      using journal_run_failed [OF xs, of ?w] Cons.prems(2) by auto
    moreover have "snd (journal_read_one (take n (journal_bytes x))) = None"
      using n by (intro journal_read_one_torn [OF x, of _ "drop n (journal_bytes x)"]) simp_all
    moreover have "map (\<lambda>_. False) (y # xs) = map (\<lambda>i. i < 0) [0..<length (y # xs)]"
      by (simp only: map_replicate_const length_upt not_less_zero) simp
    ultimately show ?thesis
      using Some y Cons.prems(2,3)
      by (simp add: journal_append_entry [OF x] journal_stream_write_def Let_def del: upt_Suc)
  qed
qed

text \<open>
  C14.  Durability across a failing device: appending to a journal that holds \<open>old\<close>, the appends
  report success exactly until the first fault and the \<open>JournalWrites\<close> metric counts them; when the
  journal is read back, the reader returns \<open>old\<close> and precisely the entries reported as written, in
  order, and nothing of the torn record.
\<close>

theorem journal_crash_recovery:
  assumes "list_all journal_ok old" and "list_all journal_fault_ok xs"
    and "jw_file w = concat (map journal_bytes old)" and "jw_opened w" and "jw_good w"
    and "journal_run xs w = (oks, es, w')"
  shows "fst (journal_read_all (Some (jw_file w')))
      = map journal_view (old @ map fst (takeWhile (\<lambda>y. snd y = None) xs))
    \<and> oks = map (\<lambda>i. i < length (takeWhile (\<lambda>y. snd y = None) xs)) [0..<length xs]
    \<and> inc_count JournalWrites es = length (takeWhile (\<lambda>y. snd y = None) xs)"
proof -
  let ?done = "takeWhile (\<lambda>y. snd y = None) xs"
  obtain p where p: "jw_file w' = journal.image (old @ map fst ?done) @ p"
    "snd (journal_read_one p) = None"
    "oks = map (\<lambda>i. i < length ?done) [0..<length xs]"
    "inc_count JournalWrites es = length ?done"
    using journal_run_opened [OF assms(2,4,5)] assms(3,6) by (auto simp: journal.image_def)
  have "list_all journal_ok (map fst ?done)"
    using assms(2) by (auto simp: list_all_iff journal_fault_ok_def dest!: set_takeWhileD)
  with assms(1) have "list_all journal_ok (old @ map fst ?done)" by simp
  from journal.read_stops_at [OF this p(2)] p show ?thesis
    by (simp add: journal_read_all_def)
qed

definition sample_entry :: JournalEntry where
  "sample_entry = \<lparr>je_pad = (\<lambda>_. 0), je_now = 5, je_type = JR_GatewayAck,
     je_envelope = ack_env Ack0, je_sequence = 1\<rparr>"

lemma sample_entry_ok: "journal_ok sample_entry"
  by (simp add: journal_ok_def sample_entry_def is_message_def message_defaults)

lemma length_journal_bytes: "journal_ok x \<Longrightarrow> journal_header_size \<le> length (journal_bytes x)"
  by (simp add: journal_bytes_def Let_def)

theorem journal_crash_recovery_witness:
  "\<exists>oks es w'. journal_run [(sample_entry, None), (sample_entry, Some 20), (sample_entry, None)]
       \<lparr>jw_opened = True, jw_good = True, jw_file = []\<rparr> = (oks, es, w')
     \<and> fst (journal_read_all (Some (jw_file w'))) = [journal_view sample_entry]
     \<and> oks = [True, False, False]"
proof -
  let ?xs = "[(sample_entry, None), (sample_entry, Some 20), (sample_entry, None)]"
  let ?w = "\<lparr>jw_opened = True, jw_good = True, jw_file = []\<rparr>"
  obtain oks es w' where run: "journal_run ?xs ?w = (oks, es, w')"
    by (cases "journal_run ?xs ?w")
  have "list_all journal_fault_ok ?xs"
    using sample_entry_ok length_journal_bytes [OF sample_entry_ok]
    by (simp add: journal_fault_ok_def journal_header_size_def)
  from journal_crash_recovery [of "[]", OF _ this _ _ _ run] run show ?thesis
    by (auto simp: upt_rec)
qed

lemma journal_bytes_magic:
  "\<exists>bs. journal_bytes x = [0x31, 0x4C, 0x4E, 0x4A] @ bs"
proof -
  have "le32 JOURNAL_MAGIC = [0x31, 0x4C, 0x4E, 0x4A]"
    by (simp add: JOURNAL_MAGIC_def le32_def le_bytes_4)
  then show ?thesis
    by (simp add: journal_bytes_def bytes_of_journal_header_def journal_header_for_def Let_def)
qed

text \<open>
  C32.  A torn record is never repaired: if a crash leaves one, two or three bytes of a record at the
  end of the journal and the process restarts and appends more records, the reader returns only the
  records from before the crash; every record appended afterwards is on disk and unreadable.
\<close>

theorem journal_torn_tail_hides_later:
  assumes "list_all journal_ok old" and "journal_ok x" and "list_all journal_ok new"
    and "0 < n" and "n < 4"
  shows "fst (journal_read_all (Some
      (concat (map journal_bytes old) @ take n (journal_bytes x) @ concat (map journal_bytes new))))
    = map journal_view old"
proof -
  let ?bad = "take n (journal_bytes x) @ concat (map journal_bytes new)"
  obtain xs where x: "journal_bytes x = [0x31, 0x4C, 0x4E, 0x4A] @ xs"
    using journal_bytes_magic by blast
  have n: "n = 1 \<or> n = 2 \<or> n = 3" using assms(4,5) by arith
  have "snd (journal_read_one ?bad) = None"
  proof (cases new)
    case Nil
    with n show ?thesis by (auto simp: journal_read_one_def journal_header_size_def)
  next
    case (Cons y ys)
    obtain zs where y: "journal_bytes y = [0x31, 0x4C, 0x4E, 0x4A] @ zs"
      using journal_bytes_magic by blast
    have "jh_magic (journal_header_of_bytes (take journal_header_size ?bad)) \<noteq> JOURNAL_MAGIC"
      using n by (auto simp: Cons x y journal_header_of_bytes_def journal_header_size_def
          JOURNAL_MAGIC_def rd32_def field_def)
    then show ?thesis by (simp add: journal_read_one_def Let_def)
  qed
  from journal.read_stops_at [OF assms(1) this] show ?thesis
    by (simp add: journal_read_all_def journal.image_def)
qed

theorem journal_torn_tail_hides_later_witness:
  "fst (journal_read_all (Some (concat (map journal_bytes [sample_entry])
      @ take 2 (journal_bytes sample_entry) @ concat (map journal_bytes [sample_entry, sample_entry]))))
    = [journal_view sample_entry]"
  using journal_torn_tail_hides_later [of "[sample_entry]" sample_entry "[sample_entry, sample_entry]" 2]
    sample_entry_ok by simp

text \<open>
  C31.  A record with a damaged payload ends the recovery: if one payload byte of a record changes
  on disk, the reader returns exactly the records before it.
\<close>

theorem journal_payload_corruption:
  assumes "list_all journal_ok before" and "journal_ok x"
    and "i < payload_size_for_type (env_type (je_envelope x))"
    and "payload_image (je_pad x) (je_envelope x) ! i \<noteq> b"
  shows "fst (journal_read_all (Some (concat (map journal_bytes before)
      @ (journal_bytes x)[journal_header_size + i := b] @ rest))) = map journal_view before"
proof -
  let ?p = "payload_image (je_pad x) (je_envelope x)"
  have msg: "is_message (je_envelope x)" and rt: "canonical_journal_type (je_type x)"
    using assms(2) by (auto simp: journal_ok_def)
  have len: "length ?p = payload_size_for_type (env_type (je_envelope x))"
    by (rule payload_image_message(2) [OF msg])
  have "checksum_bytes (?p[i := b]) \<noteq> checksum_bytes ?p"
    using assms(3,4) len by (intro checksum_detects) simp_all
  moreover have "(journal_bytes x)[journal_header_size + i := b]
      = bytes_of_journal_header (journal_header_for ?p (je_type x) (env_type (je_envelope x))
          (je_sequence x) (je_now x)) @ ?p[i := b]"
    by (simp add: journal_bytes_def list_update_append Let_def)
  ultimately have "snd (journal_read_one ((journal_bytes x)[journal_header_size + i := b] @ rest)) = None"
    using is_message_type [OF msg] rt len
    by (simp add: journal_read_one_header journal_header_for_def Let_def)
  from journal.read_stops_at [OF assms(1) this] show ?thesis
    by (simp add: journal_read_all_def journal.image_def)
qed

theorem journal_payload_corruption_witness:
  "fst (journal_read_all (Some (concat (map journal_bytes [sample_entry])
      @ (journal_bytes sample_entry)[journal_header_size + 0 := 77] @ journal_bytes sample_entry)))
    = [journal_view sample_entry]"
proof -
  have "payload_image (je_pad sample_entry) (je_envelope sample_entry) ! 0 \<noteq> 77"
    "0 < payload_size_for_type (env_type (je_envelope sample_entry))"
    by (simp_all add: payload_image_def union_image_def sample_entry_def bytes_of_ack_def
        bytes_of_header_def message_defaults)
  from journal_payload_corruption [of "[sample_entry]", OF _ sample_entry_ok this(2,1)] sample_entry_ok
  show ?thesis by simp
qed

end
