(* ===== verification/Replay.thy ===== *)
theory Replay
  imports Framed_Log
begin

text \<open>
  The replay log of src/replay.cpp: a packed 34-byte header and the whole envelope object, 112 bytes
  with its padding, per event.  The bytes of an event's envelope are kept as they are in memory
  (\<open>re_image\<close>), since the checksum is taken over them and an event that was read can be appended
  again unchanged; \<open>replay_envelope\<close> is the value they hold.  Answers of the operating system to
  \<open>open\<close>, \<open>read\<close> and \<open>write\<close> are parameters.  It provides the \<open>record_log\<close> contract.
\<close>

definition REPLAY_MAGIC :: u32 where "REPLAY_MAGIC = 0x52504C31"
definition REPLAY_VERSION :: u16 where "REPLAY_VERSION = 2"

datatype ReplayWriteMode = RW_Truncate | RW_Append

fun to_string_role :: "NodeRole \<Rightarrow> string" where
  "to_string_role NR_MarketData = ''MarketData''"
| "to_string_role NR_Strategy = ''Strategy''"
| "to_string_role NR_OMS = ''OMS''"
| "to_string_role NR_Gateway = ''Gateway''"
| "to_string_role NR_Simulator = ''Simulator''"
| "to_string_role _ = ''Unknown''"

section \<open>Header and event\<close>

record ReplayRecordHeader =
  rh_magic :: u32
  rh_version :: u16
  rh_header_size :: u16
  rh_node_role :: NodeRole
  rh_sequence :: Sequence
  rh_timestamp_ns :: TimestampNs
  rh_message_type :: MsgType
  rh_payload_size :: u32
  rh_checksum :: u32

definition replay_header_size :: nat where "replay_header_size = 34"

record ReplayEvent =
  re_header :: ReplayRecordHeader
  re_image :: "byte list"

definition replay_envelope :: "ReplayEvent \<Rightarrow> Envelope" where
  "replay_envelope ev = envelope_of_bytes (re_image ev)"

definition bytes_of_replay_header :: "ReplayRecordHeader \<Rightarrow> byte list" where
  "bytes_of_replay_header h = le32 (rh_magic h) @ le16 (rh_version h) @ le16 (rh_header_size h)
     @ [node_role_byte (rh_node_role h)] @ le64 (rh_sequence h) @ le64 (rh_timestamp_ns h)
     @ [msg_type_byte (rh_message_type h)] @ le32 (rh_payload_size h) @ le32 (rh_checksum h)"

definition replay_header_of_bytes :: "byte list \<Rightarrow> ReplayRecordHeader" where
  "replay_header_of_bytes bs = \<lparr>rh_magic = rd32 0 bs, rh_version = rd16 4 bs,
     rh_header_size = rd16 6 bs, rh_node_role = node_role_of_byte (rd8 8 bs),
     rh_sequence = rd64 9 bs, rh_timestamp_ns = rd64 17 bs,
     rh_message_type = msg_type_of_byte (rd8 25 bs), rh_payload_size = rd32 26 bs,
     rh_checksum = rd32 30 bs\<rparr>"

lemma length_bytes_of_replay_header [simp, layout_simps]:
  "length (bytes_of_replay_header h) = replay_header_size"
  by (simp add: bytes_of_replay_header_def replay_header_size_def)

lemma replay_header_of_bytes_of [simp]:
  assumes "canonical_role (rh_node_role h)" and "canonical_type (rh_message_type h)"
  shows "replay_header_of_bytes (bytes_of_replay_header h) = h"
  using assms
  by (cases h) (simp add: replay_header_of_bytes_def bytes_of_replay_header_def
      canonical_type_def canonical_role_def)

section \<open>Transfers and checksum\<close>

text \<open>
  The file's own loops over \<open>write\<close> and \<open>read\<close>, with the counter of the bytes done, and its own
  checksum loop.  They do what \<open>send_exact\<close>, \<open>recv_exact\<close> and \<open>checksum_bytes\<close> do.
\<close>

function write_exact_loop :: "int list \<Rightarrow> byte list \<Rightarrow> nat \<Rightarrow> bool \<times> byte list \<times> int list" where
  "write_exact_loop os data written =
     (if \<not> written < length data then (True, [], os)
      else let n = send_answer os (length data - written)
           in if n \<le> 0 then (False, [], tl os)
              else let (ok, out, os') = write_exact_loop (tl os) data (written + nat n)
                   in (ok, take (nat n) (drop written data) @ out, os'))"
  by pat_completeness auto
termination
  by (relation "measure (\<lambda>(os, data, written). length data - written)") auto

declare write_exact_loop.simps [simp del]

definition write_exact :: "int list \<Rightarrow> byte list \<Rightarrow> bool \<times> byte list \<times> int list" where
  "write_exact os data = write_exact_loop os data 0"

function read_exact_loop ::
  "nat list \<Rightarrow> nat \<Rightarrow> nat \<Rightarrow> byte list \<Rightarrow> bool \<times> byte list \<times> byte list \<times> nat list" where
  "read_exact_loop os len count stream =
     (if \<not> count < len then (True, [], stream, os)
      else let n = recv_answer os (min (len - count) (length stream))
           in if n = 0 then (False, [], stream, tl os)
              else let (ok, got, rest, os') = read_exact_loop (tl os) len (count + n) (drop n stream)
                   in (ok, take n stream @ got, rest, os'))"
  by pat_completeness auto
termination
  by (relation "measure (\<lambda>(os, len, count, stream). len - count)") auto

declare read_exact_loop.simps [simp del]

definition read_exact :: "nat list \<Rightarrow> nat \<Rightarrow> byte list \<Rightarrow> bool \<times> byte list \<times> byte list \<times> nat list" where
  "read_exact os len stream = read_exact_loop os len 0 stream"

definition replay_checksum :: "byte list \<Rightarrow> u32" where
  "replay_checksum bs = fold (\<lambda>b hash. (hash XOR ucast b) * 16777619) bs 2166136261"

lemma write_exact_loop_eq: "write_exact_loop os data written = send_exact os (drop written data)"
proof (induction os data written rule: write_exact_loop.induct)
  case (1 os data written)
  then show ?case
    by (subst write_exact_loop.simps, subst send_exact.simps) (auto simp: Let_def add.commute)
qed

lemma write_exact_eq [simp]: "write_exact os data = send_exact os data"
  by (simp add: write_exact_def write_exact_loop_eq)

lemma read_exact_loop_eq: "read_exact_loop os len count stream = recv_exact os (len - count) stream"
proof (induction os len count stream rule: read_exact_loop.induct)
  case (1 os len count stream)
  then show ?case
    by (subst read_exact_loop.simps, subst recv_exact.simps) (auto simp: Let_def)
qed

lemma read_exact_eq [simp]: "read_exact os len stream = recv_exact os len stream"
  by (simp add: read_exact_def read_exact_loop_eq)

lemma replay_checksum_eq [simp]: "replay_checksum bs = checksum_bytes bs"
  by (simp add: replay_checksum_def checksum_bytes_def foldl_conv_fold fnv_step_def)

section \<open>The writer\<close>

text \<open>\<open>rw_file\<close> is the file at the writer's path; the writer is its only user.\<close>

record ReplayWriter =
  rw_mode :: ReplayWriteMode
  rw_node_role :: NodeRole
  rw_fd :: int
  rw_file :: "byte list"

definition replay_writer_new :: "ReplayWriteMode \<Rightarrow> NodeRole \<Rightarrow> byte list \<Rightarrow> ReplayWriter" where
  "replay_writer_new mode role file =
     \<lparr>rw_mode = mode, rw_node_role = role, rw_fd = -1, rw_file = file\<rparr>"

definition replay_writer_open :: "int \<Rightarrow> ReplayWriter \<Rightarrow> bool \<times> effect list \<times> ReplayWriter" where
  "replay_writer_open fd w =
     (if fd < 0
      then (False, [Log Error ''replay'' ''failed to open replay writer''], w\<lparr>rw_fd := fd\<rparr>)
      else (True, [Log Info ''replay'' ''opened replay writer''],
            w\<lparr>rw_fd := fd,
              rw_file := (if rw_mode w = RW_Truncate then [] else rw_file w)\<rparr>))"

definition replay_append_event ::
  "int list \<Rightarrow> ReplayEvent \<Rightarrow> ReplayWriter \<Rightarrow> bool \<times> effect list \<times> int list \<times> ReplayWriter" where
  "replay_append_event os ev w =
     (if rw_fd w < 0 then (False, [], os, w)
      else case write_exact os (bytes_of_replay_header (re_header ev)) of
        (False, out, os1) \<Rightarrow>
          (False, [Log Error ''replay'' ''failed to write replay header''], os1,
           w\<lparr>rw_file := rw_file w @ out\<rparr>)
      | (True, out, os1) \<Rightarrow>
          (case write_exact os1 (re_image ev) of
             (False, out2, os2) \<Rightarrow>
               (False, [Log Error ''replay'' ''failed to write replay payload''], os2,
                w\<lparr>rw_file := rw_file w @ out @ out2\<rparr>)
           | (True, out2, os2) \<Rightarrow>
               (True, [metric_inc ReplayEventsWritten], os2,
                w\<lparr>rw_file := rw_file w @ out @ out2\<rparr>)))"

text \<open>
  \<open>append\<close> takes the checksum over the caller's envelope object and then copies the envelope into
  the event.  A copy need not preserve padding: \<open>pad\<close> is the padding of the caller's object, \<open>pad'\<close>
  that of the copy.
\<close>

definition replay_header_for ::
  "NodeRole \<Rightarrow> (nat \<Rightarrow> byte) \<Rightarrow> Envelope \<Rightarrow> Sequence \<Rightarrow> TimestampNs \<Rightarrow> ReplayRecordHeader" where
  "replay_header_for role pad e seq ts = \<lparr>rh_magic = REPLAY_MAGIC, rh_version = REPLAY_VERSION,
     rh_header_size = of_nat replay_header_size, rh_node_role = role, rh_sequence = seq,
     rh_timestamp_ns = ts, rh_message_type = env_type e, rh_payload_size = of_nat envelope_size,
     rh_checksum = replay_checksum (bytes_of_envelope pad e)\<rparr>"

definition replay_append ::
  "int list \<Rightarrow> (nat \<Rightarrow> byte) \<Rightarrow> (nat \<Rightarrow> byte) \<Rightarrow> Envelope \<Rightarrow> Sequence \<Rightarrow> TimestampNs \<Rightarrow> ReplayWriter
   \<Rightarrow> bool \<times> effect list \<times> int list \<times> ReplayWriter" where
  "replay_append os pad pad' e seq ts w =
     replay_append_event os \<lparr>re_header = replay_header_for (rw_node_role w) pad e seq ts,
       re_image = bytes_of_envelope pad' e\<rparr> w"

definition replay_writer_close :: "ReplayWriter \<Rightarrow> effect list \<times> ReplayWriter" where
  "replay_writer_close w =
     (if 0 \<le> rw_fd w then ([Log Info ''replay'' ''closed replay writer''], w\<lparr>rw_fd := -1\<rparr>)
      else ([], w))"

section \<open>The reader\<close>

record ReplayReader =
  rr_fd :: int
  rr_stream :: "byte list"

definition replay_reader_open :: "int \<Rightarrow> byte list \<Rightarrow> bool \<times> effect list \<times> ReplayReader" where
  "replay_reader_open fd file =
     (if fd < 0
      then (False, [Log Error ''replay'' ''failed to open replay reader''],
            \<lparr>rr_fd = fd, rr_stream = file\<rparr>)
      else (True, [], \<lparr>rr_fd = fd, rr_stream = file\<rparr>))"

definition replay_next ::
  "nat list \<Rightarrow> ReplayReader \<Rightarrow> ReplayEvent option \<times> effect list \<times> ReplayReader \<times> nat list" where
  "replay_next os r =
     (if rr_fd r < 0 then (None, [], r, os)
      else case read_exact os replay_header_size (rr_stream r) of
        (False, _, rest, os1) \<Rightarrow> (None, [], r\<lparr>rr_stream := rest\<rparr>, os1)
      | (True, hb, rest, os1) \<Rightarrow>
          (let header = replay_header_of_bytes hb
           in if rh_magic header \<noteq> REPLAY_MAGIC \<or> rh_version header \<noteq> REPLAY_VERSION
                 \<or> rh_header_size header \<noteq> of_nat replay_header_size
                 \<or> rh_payload_size header \<noteq> of_nat envelope_size
              then (None, [Log Error ''replay'' ''invalid replay record header''],
                    r\<lparr>rr_stream := rest\<rparr>, os1)
              else case read_exact os1 envelope_size rest of
                (False, _, rest2, os2) \<Rightarrow>
                  (None, [Log Error ''replay'' ''incomplete replay payload''],
                   r\<lparr>rr_stream := rest2\<rparr>, os2)
              | (True, img, rest2, os2) \<Rightarrow>
                  if replay_checksum img \<noteq> rh_checksum header
                  then (None, [Log Error ''replay'' ''replay checksum mismatch''],
                        r\<lparr>rr_stream := rest2\<rparr>, os2)
                  else (Some \<lparr>re_header = header, re_image = img\<rparr>,
                        [metric_inc ReplayEventsRead], r\<lparr>rr_stream := rest2\<rparr>, os2)))"

definition replay_reader_close :: "ReplayReader \<Rightarrow> ReplayReader" where
  "replay_reader_close r = (if 0 \<le> rr_fd r then r\<lparr>rr_fd := -1\<rparr> else r)"

text \<open>The same on whole files, independent of how reads are split.\<close>

definition replay_read_one :: "byte list \<Rightarrow> (ReplayEvent \<times> byte list) option" where
  "replay_read_one bs =
     (let header = replay_header_of_bytes (take replay_header_size bs);
          img = take envelope_size (drop replay_header_size bs)
      in if length bs < replay_header_size + envelope_size
            \<or> rh_magic header \<noteq> REPLAY_MAGIC \<or> rh_version header \<noteq> REPLAY_VERSION
            \<or> rh_header_size header \<noteq> of_nat replay_header_size
            \<or> rh_payload_size header \<noteq> of_nat envelope_size
            \<or> checksum_bytes img \<noteq> rh_checksum header then None
         else Some (\<lparr>re_header = header, re_image = img\<rparr>,
                    drop (replay_header_size + envelope_size) bs))"

lemma replay_next_eq:
  assumes "0 \<le> rr_fd r"
  shows "case replay_next os r of
      (None, _, r', _) \<Rightarrow> replay_read_one (rr_stream r) = None \<and> rr_fd r' = rr_fd r
    | (Some ev, es, r', _) \<Rightarrow> es = [metric_inc ReplayEventsRead] \<and> rr_fd r' = rr_fd r
        \<and> replay_read_one (rr_stream r) = Some (ev, rr_stream r')"
proof (cases "length (rr_stream r) < replay_header_size")
  case True
  from recv_exact_short [OF True, of os] obtain os' where
    "recv_exact os replay_header_size (rr_stream r) = (False, rr_stream r, [], os')" by blast
  with assms True show ?thesis by (simp add: replay_next_def replay_read_one_def)
next
  case False
  let ?bs = "rr_stream r"
  have len: "replay_header_size \<le> length ?bs" using False by simp
  from recv_exact_enough [OF this, of os] obtain os1 where
    hd: "recv_exact os replay_header_size ?bs
      = (True, take replay_header_size ?bs, drop replay_header_size ?bs, os1)" by blast
  show ?thesis
  proof (cases "length (drop replay_header_size ?bs) < envelope_size")
    case True
    from recv_exact_short [OF True, of os1] obtain os2 where
      "recv_exact os1 envelope_size (drop replay_header_size ?bs)
        = (False, drop replay_header_size ?bs, [], os2)" by blast
    moreover have "length ?bs < replay_header_size + envelope_size" using True len by simp
    ultimately show ?thesis
      using assms hd by (simp add: replay_next_def replay_read_one_def Let_def)
  next
    case fits: False
    then have "envelope_size \<le> length (drop replay_header_size ?bs)" by simp
    from recv_exact_enough [OF this, of os1] obtain os2 where
      "recv_exact os1 envelope_size (drop replay_header_size ?bs)
        = (True, take envelope_size (drop replay_header_size ?bs),
           drop envelope_size (drop replay_header_size ?bs), os2)" by blast
    moreover have "\<not> length ?bs < replay_header_size + envelope_size" using fits len by simp
    ultimately show ?thesis
      using assms hd by (simp add: replay_next_def replay_read_one_def Let_def add.commute)
  qed
qed

lemma replay_read_one_shrinks:
  "replay_read_one bs = Some (ev, rest) \<Longrightarrow> length rest < length bs"
  by (auto simp: replay_read_one_def replay_header_size_def Let_def split: if_splits)

lemma replay_next_shrinks:
  "(Some ev, es, r', os') = replay_next os r \<Longrightarrow> length (rr_stream r') < length (rr_stream r)"
proof -
  assume next_rec: "(Some ev, es, r', os') = replay_next os r"
  then have "0 \<le> rr_fd r" by (auto simp: replay_next_def split: if_splits)
  from replay_next_eq [OF this, of os] show ?thesis
    unfolding next_rec [symmetric] using replay_read_one_shrinks by auto
qed

text \<open>\<open>while (auto event = reader.next())\<close>, the loop of the replay tools.\<close>

function replay_read_all :: "nat list \<Rightarrow> ReplayReader \<Rightarrow> ReplayEvent list" where
  "replay_read_all os r =
     (case replay_next os r of
        (None, _, _, _) \<Rightarrow> []
      | (Some ev, _, r', os') \<Rightarrow> ev # replay_read_all os' r')"
  by pat_completeness auto
termination
  by (relation "measure (\<lambda>(os, r). length (rr_stream r))") (auto dest: replay_next_shrinks)

declare replay_read_all.simps [simp del]

definition replay_events :: "byte list \<Rightarrow> ReplayEvent list" where
  "replay_events bs = replay_read_all [] \<lparr>rr_fd = 0, rr_stream = bs\<rparr>"

lemma replay_read_all_any:
  "0 \<le> rr_fd r \<Longrightarrow> replay_read_all os r
     = (case replay_read_one (rr_stream r) of
          None \<Rightarrow> [] | Some (ev, rest) \<Rightarrow> ev # replay_events rest)"
proof (induction "length (rr_stream r)" arbitrary: os r rule: less_induct)
  case less
  obtain out es r' os' where step: "replay_next os r = (out, es, r', os')"
    by (cases "replay_next os r")
  show ?case
  proof (cases out)
    case None
    then show ?thesis
      using replay_next_eq [OF less.prems, of os] step
      by (subst replay_read_all.simps) simp
  next
    case (Some ev)
    then have next_rec: "replay_read_one (rr_stream r) = Some (ev, rr_stream r')" "rr_fd r' = rr_fd r"
      using replay_next_eq [OF less.prems, of os] step by auto
    have short: "length (rr_stream r') < length (rr_stream r)"
      by (rule replay_read_one_shrinks [OF next_rec(1)])
    have "replay_read_all os' r' = replay_events (rr_stream r')"
      using less.hyps [OF short, of os'] less.prems next_rec(2)
        less.hyps [of "\<lparr>rr_fd = 0, rr_stream = rr_stream r'\<rparr>" "[]"] short
      by (simp add: replay_events_def)
    with next_rec(1) Some step show ?thesis
      by (subst replay_read_all.simps) simp
  qed
qed

lemma replay_events_next:
  "replay_events bs
   = (case replay_read_one bs of None \<Rightarrow> [] | Some (ev, rest) \<Rightarrow> ev # replay_events rest)"
  using replay_read_all_any [of "\<lparr>rr_fd = 0, rr_stream = bs\<rparr>" "[]"]
  by (simp add: replay_events_def)

section \<open>The replay log as a log of records\<close>

record ReplayEntry =
  rx_role :: NodeRole
  rx_pad :: "nat \<Rightarrow> byte"
  rx_envelope :: Envelope
  rx_sequence :: Sequence
  rx_timestamp_ns :: TimestampNs

definition replay_view :: "ReplayEntry \<Rightarrow> ReplayEvent" where
  "replay_view x = \<lparr>re_header = replay_header_for (rx_role x) (rx_pad x) (rx_envelope x)
       (rx_sequence x) (rx_timestamp_ns x),
     re_image = bytes_of_envelope (rx_pad x) (rx_envelope x)\<rparr>"

definition replay_bytes :: "ReplayEvent \<Rightarrow> byte list" where
  "replay_bytes ev = bytes_of_replay_header (re_header ev) @ re_image ev"

definition replay_ok :: "ReplayEntry \<Rightarrow> bool" where
  "replay_ok x \<longleftrightarrow> is_message (rx_envelope x) \<and> canonical_role (rx_role x)"

lemma replay_read_one_header:
  assumes "canonical_role (rh_node_role h)" and "canonical_type (rh_message_type h)"
  shows "replay_read_one (bytes_of_replay_header h @ bs) =
    (if length bs < envelope_size
        \<or> rh_magic h \<noteq> REPLAY_MAGIC \<or> rh_version h \<noteq> REPLAY_VERSION
        \<or> rh_header_size h \<noteq> of_nat replay_header_size
        \<or> rh_payload_size h \<noteq> of_nat envelope_size
        \<or> checksum_bytes (take envelope_size bs) \<noteq> rh_checksum h then None
     else Some (\<lparr>re_header = h, re_image = take envelope_size bs\<rparr>, drop envelope_size bs))"
proof -
  have "take replay_header_size (bytes_of_replay_header h @ bs) = bytes_of_replay_header h"
    "drop replay_header_size (bytes_of_replay_header h @ bs) = bs"
    "drop (replay_header_size + n) (bytes_of_replay_header h @ bs) = drop n bs" for n
    by simp_all
  with assms show ?thesis by (simp add: replay_read_one_def Let_def)
qed

lemma replay_read_one_view:
  assumes "replay_ok x"
  shows "replay_read_one (replay_bytes (replay_view x) @ rest) = Some (replay_view x, rest)"
  using assms length_bytes_of_envelope [of "rx_envelope x" "rx_pad x"] is_message_type [of "rx_envelope x"]
  by (simp add: replay_bytes_def replay_view_def replay_ok_def replay_header_for_def
      replay_read_one_header)

lemma length_replay_bytes:
  "replay_ok x \<Longrightarrow> length (replay_bytes (replay_view x)) = replay_header_size + envelope_size"
  by (simp add: replay_bytes_def replay_view_def replay_ok_def length_bytes_of_envelope)

lemma replay_read_one_torn:
  assumes "replay_ok x" and "replay_bytes (replay_view x) = p @ s" and "s \<noteq> []"
  shows "replay_read_one p = None"
proof -
  have "length p < replay_header_size + envelope_size"
    using length_replay_bytes [OF assms(1)] assms(2,3) by (cases s) auto
  then show ?thesis by (simp add: replay_read_one_def)
qed

interpretation replay: record_log "\<lambda>x. replay_bytes (replay_view x)" replay_read_one replay_events
  replay_view replay_ok
  by unfold_locales
     (fact replay_read_one_view, fact replay_read_one_torn, fact replay_events_next)

lemma replay_view_envelope: "replay_ok x \<Longrightarrow> replay_envelope (replay_view x) = rx_envelope x"
  using envelope_of_bytes_of [of "rx_envelope x" "rx_pad x" "[]"]
  by (simp add: replay_envelope_def replay_view_def replay_ok_def)

section \<open>Properties\<close>

text \<open>
  Appending events through one open writer; the copies keep the padding of the originals.
\<close>

fun replay_run ::
  "int list \<Rightarrow> ReplayEntry list \<Rightarrow> ReplayWriter \<Rightarrow> bool list \<times> effect list \<times> ReplayWriter" where
  "replay_run os [] w = ([], [], w)"
| "replay_run os (x # xs) w =
     (let (ok, es, os1, w1) = replay_append os (rx_pad x) (rx_pad x) (rx_envelope x)
                                (rx_sequence x) (rx_timestamp_ns x) w;
          (oks, fs, w2) = replay_run os1 xs w1
      in (ok # oks, es @ fs, w2))"

lemma replay_append_view:
  assumes "rx_role x = rw_node_role w"
  shows "replay_append os (rx_pad x) (rx_pad x) (rx_envelope x) (rx_sequence x)
      (rx_timestamp_ns x) w = replay_append_event os (replay_view x) w"
  using assms by (simp add: replay_append_def replay_view_def)

lemma replay_append_event_file:
  assumes "replay_append_event os ev w = (ok, es, os', w')" and "0 \<le> rw_fd w"
  shows "\<exists>out s. w' = w\<lparr>rw_file := rw_file w @ out\<rparr> \<and> replay_bytes ev = out @ s
    \<and> (ok \<longleftrightarrow> out = replay_bytes ev) \<and> es \<noteq> []"
proof -
  obtain ok1 out1 os1 where s1: "send_exact os (bytes_of_replay_header (re_header ev)) = (ok1, out1, os1)"
    by (cases "send_exact os (bytes_of_replay_header (re_header ev))")
  obtain ok2 out2 os2 where s2: "send_exact os1 (re_image ev) = (ok2, out2, os2)"
    by (cases "send_exact os1 (re_image ev)")
  note p1 = send_exact_prefix [OF s1] and p2 = send_exact_prefix [OF s2]
  show ?thesis
  proof (cases ok1)
    case True
    with assms s1 s2 p1 p2 show ?thesis
      by (cases ok2) (auto simp: replay_append_event_def replay_bytes_def)
  next
    case False
    from p1 False obtain s where s: "bytes_of_replay_header (re_header ev) = out1 @ s" "s \<noteq> []"
      by (metis append_Nil2)
    with assms s1 False show ?thesis
      by (auto simp: replay_append_event_def replay_bytes_def)
  qed
qed

lemma replay_append_event_ok:
  assumes "0 \<le> rw_fd w" and "list_all (\<lambda>a. 0 < a) os"
  shows "\<exists>os'. replay_append_event os ev w = (True, [metric_inc ReplayEventsWritten], os',
      w\<lparr>rw_file := rw_file w @ replay_bytes ev\<rparr>) \<and> list_all (\<lambda>a. 0 < a) os'"
proof -
  obtain os1 where s1: "send_exact os (bytes_of_replay_header (re_header ev))
      = (True, bytes_of_replay_header (re_header ev), os1)" "list_all (\<lambda>a. 0 < a) os1"
    using send_exact_ok [OF assms(2)] by blast
  then obtain os2 where "send_exact os1 (re_image ev) = (True, re_image ev, os2)"
    "list_all (\<lambda>a. 0 < a) os2"
    using send_exact_ok by blast
  with s1 assms(1) show ?thesis
    by (simp add: replay_append_event_def replay_bytes_def)
qed

lemma replay_run_file:
  assumes "list_all (\<lambda>x. rx_role x = rw_node_role w) xs" and "0 \<le> rw_fd w"
    and "replay_run os xs w = (oks, es, w')"
  shows "(\<exists>tail. rw_file w' = rw_file w
        @ replay.image (take (length (takeWhile (\<lambda>ok. ok) oks)) xs) @ tail)
    \<and> length oks = length xs
    \<and> (list_all (\<lambda>a. 0 < a) os \<longrightarrow> list_all (\<lambda>ok. ok) oks
        \<and> rw_file w' = rw_file w @ replay.image xs \<and> inc_count ReplayEventsWritten es = length xs)"
  using assms
proof (induction xs arbitrary: os w oks es w')
  case Nil
  then show ?case by simp
next
  case (Cons x xs)
  obtain ok es1 os1 w1 where app: "replay_append_event os (replay_view x) w = (ok, es1, os1, w1)"
    by (cases "replay_append_event os (replay_view x) w")
  obtain oks2 es2 w2 where rest: "replay_run os1 xs w1 = (oks2, es2, w2)"
    by (cases "replay_run os1 xs w1")
  have res: "oks = ok # oks2" "es = es1 @ es2" "w' = w2"
    using Cons.prems(1,3) app rest by (auto simp: replay_append_view)
  obtain out s where out: "w1 = w\<lparr>rw_file := rw_file w @ out\<rparr>"
    "replay_bytes (replay_view x) = out @ s" "ok \<longleftrightarrow> out = replay_bytes (replay_view x)"
    using replay_append_event_file [OF app Cons.prems(2)] by blast
  have "list_all (\<lambda>x. rx_role x = rw_node_role w1) xs" "0 \<le> rw_fd w1"
    using Cons.prems(1,2) out(1) by simp_all
  note IH = Cons.IH [OF this rest]
  have good: "ok \<and> es1 = [metric_inc ReplayEventsWritten] \<and> list_all (\<lambda>a. 0 < a) os1"
    if "list_all (\<lambda>a. 0 < a) os"
    using replay_append_event_ok [OF Cons.prems(2) that, of "replay_view x"] app by auto
  have "\<exists>tail. rw_file w' = rw_file w
      @ replay.image (take (length (takeWhile (\<lambda>ok. ok) oks)) (x # xs)) @ tail"
    using IH out res by (cases ok) auto
  moreover have "list_all (\<lambda>ok. ok) oks \<and> rw_file w' = rw_file w @ replay.image (x # xs)
      \<and> inc_count ReplayEventsWritten es = length (x # xs)"
    if "list_all (\<lambda>a. 0 < a) os"
    using good [OF that] IH out res by auto
  ultimately show ?case using IH res by simp
qed

text \<open>
  C27.  Recording and replaying: a truncating writer records events; however the operating system
  splits the reads, the replay starts with exactly the events whose append succeeded before the
  first failure, with header and envelope as recorded; and when no write fails, every append
  succeeds, is counted once in \<open>ReplayEventsWritten\<close>, and the replay is the whole recording.
\<close>

theorem replay_roundtrip:
  assumes "list_all replay_ok xs" and "list_all (\<lambda>x. rx_role x = role) xs" and "0 \<le> fd" and "0 \<le> fd'"
    and "replay_run os xs (snd (snd (replay_writer_open fd
           (replay_writer_new RW_Truncate role old)))) = (oks, es, w)"
  shows "(let evs = replay_read_all os' (snd (snd (replay_reader_open fd' (rw_file w))));
              done = take (length (takeWhile (\<lambda>ok. ok) oks)) xs
    in map replay_envelope (take (length done) evs) = map rx_envelope done
     \<and> take (length done) evs = map replay_view done
     \<and> (list_all (\<lambda>a. 0 < a) os \<longrightarrow> evs = map replay_view xs \<and> list_all (\<lambda>ok. ok) oks
          \<and> inc_count ReplayEventsWritten es = length xs))"
proof -
  let ?w = "snd (snd (replay_writer_open fd (replay_writer_new RW_Truncate role old)))"
  let ?done = "take (length (takeWhile (\<lambda>ok. ok) oks)) xs"
  have w: "rw_file ?w = []" "rw_node_role ?w = role" "0 \<le> rw_fd ?w"
    using assms(3) by (simp_all add: replay_writer_open_def replay_writer_new_def)
  have roles: "list_all (\<lambda>x. rx_role x = rw_node_role ?w) xs"
    using assms(2) by (simp only: w)
  note run = replay_run_file [OF roles w(3) assms(5), unfolded w(1) append_Nil]
  have read: "replay_read_all os' (snd (snd (replay_reader_open fd' (rw_file w))))
      = replay_events (rw_file w)"
    using assms(4) by (simp add: replay_reader_open_def replay_read_all_any replay_events_next [of "rw_file w"])
  have done_ok: "list_all replay_ok ?done"
    using assms(1) by (simp add: list_all_length)
  obtain tail where "rw_file w = replay.image ?done @ tail" using run by blast
  then have evs: "replay_events (rw_file w) = map replay_view ?done @ replay_events tail"
    by (simp add: replay.read_image [OF done_ok])
  have "map replay_envelope (map replay_view ?done) = map rx_envelope ?done"
    using done_ok by (auto simp: list_all_iff replay_view_envelope)
  moreover have "replay_events (rw_file w) = map replay_view xs"
    if "list_all (\<lambda>a. 0 < a) os"
  proof -
    have "rw_file w = replay.image xs @ []" using run that by simp
    then have "replay_events (rw_file w) = map replay_view xs @ replay_events []"
      by (simp only: replay.read_image [OF assms(1)])
    moreover have "replay_events [] = []"
      by (rule replay.read_stopped) (simp add: replay_read_one_def replay_header_size_def)
    ultimately show ?thesis by simp
  qed
  moreover have "take (length ?done) (replay_events (rw_file w)) = map replay_view ?done"
    by (simp add: evs)
  ultimately show ?thesis
    unfolding Let_def read using run by metis
qed

definition sample_replay_entry :: ReplayEntry where
  "sample_replay_entry = \<lparr>rx_role = NR_Simulator, rx_pad = (\<lambda>_. 0), rx_envelope = ack_env Ack0,
     rx_sequence = 1, rx_timestamp_ns = 9\<rparr>"

lemma sample_replay_entry_ok: "replay_ok sample_replay_entry"
  by (simp add: replay_ok_def sample_replay_entry_def is_message_def message_defaults)

theorem replay_roundtrip_witness:
  "\<exists>oks es w. replay_run [30, 40] [sample_replay_entry, sample_replay_entry]
       (snd (snd (replay_writer_open 3 (replay_writer_new RW_Truncate NR_Simulator [1, 2]))))
       = (oks, es, w)
     \<and> replay_read_all [7] (snd (snd (replay_reader_open 4 (rw_file w))))
       = [replay_view sample_replay_entry, replay_view sample_replay_entry]"
proof -
  let ?xs = "[sample_replay_entry, sample_replay_entry]"
  let ?w = "snd (snd (replay_writer_open 3 (replay_writer_new RW_Truncate NR_Simulator [1, 2])))"
  obtain oks es w where run: "replay_run [30, 40] ?xs ?w = (oks, es, w)"
    by (cases "replay_run [30, 40] ?xs ?w")
  have "list_all replay_ok ?xs" "list_all (\<lambda>x. rx_role x = NR_Simulator) ?xs"
    by (simp_all add: sample_replay_entry_ok) (simp add: sample_replay_entry_def)
  from replay_roundtrip [OF this _ _ run, of 4 "[7]"] run show ?thesis
    by (simp add: Let_def)
qed

text \<open>
  The checksum covers padding: if the copy of the envelope that is written differs from the
  original in one of the seven padding bytes behind the type, the append reports success and the
  event cannot be replayed, although every field of the message is intact.
\<close>

lemma replay_padding_breaks_checksum:
  assumes "is_message e" and "canonical_role role" and "0 \<le> fd"
    and "1 \<le> i" and "i < 8" and "b \<noteq> pad i"
  shows "(case replay_append [] pad (pad(i := b)) e seq ts
             \<lparr>rw_mode = RW_Truncate, rw_node_role = role, rw_fd = fd, rw_file = []\<rparr> of
           (ok, es, os, w) \<Rightarrow> ok \<and> replay_events (rw_file w) = []
             \<and> envelope_of_bytes (drop replay_header_size (rw_file w)) = e)"
proof -
  let ?img = "bytes_of_envelope (pad(i := b)) e"
  let ?h = "replay_header_for role pad e seq ts"
  have img: "?img = (bytes_of_envelope pad e)[i := b]"
  proof -
    have "pads (pad(i := b)) 1 7 = (pads pad 1 7)[i - 1 := b]"
      using assms(4,5) by (intro nth_equalityI) (auto simp: pads_def nth_list_update)
    moreover have "(\<lambda>j. (pad(i := b)) (8 + j)) = (\<lambda>j. pad (8 + j))"
      using assms(5) by auto
    moreover obtain k where "i = Suc k" "k < 7" using assms(4,5) by (cases i) auto
    ultimately show ?thesis
      by (simp add: bytes_of_envelope_def list_update_append)
  qed
  have nth: "bytes_of_envelope pad e ! i = pad i"
    using assms(4,5) by (cases i) (auto simp: bytes_of_envelope_def nth_append pads_def)
  have len: "length (bytes_of_envelope pad e) = envelope_size" "length ?img = envelope_size"
    using assms(1) by (simp_all add: length_bytes_of_envelope)
  have "checksum_bytes ?img \<noteq> checksum_bytes (bytes_of_envelope pad e)"
    unfolding img using assms(5,6) nth len
    by (intro checksum_detects) (simp_all add: envelope_size_def)
  then have "replay_read_one (bytes_of_replay_header ?h @ ?img) = None"
    using len is_message_type [OF assms(1)] assms(2)
    by (simp add: replay_read_one_header replay_header_for_def)
  then have "replay_events (bytes_of_replay_header ?h @ ?img) = []"
    by (rule replay.read_stopped)
  moreover have "envelope_of_bytes ?img = e"
    using envelope_of_bytes_of [OF assms(1), of "pad(i := b)" "[]"] by simp
  moreover have "send_exact [] d = (True, d, [])" for d
    using send_exact_ok [of "[]" d] send_exact_os_empty [of d] by auto
  ultimately show ?thesis
    using assms(3) by (simp add: replay_append_def replay_append_event_def)
qed

lemma replay_padding_breaks_checksum_example:
  "replay_events (rw_file (snd (snd (snd (replay_append [] (\<lambda>_. 0) ((\<lambda>_. 0)(3 := 1)) (ack_env Ack0) 1 2
     \<lparr>rw_mode = RW_Truncate, rw_node_role = NR_OMS, rw_fd = 3, rw_file = []\<rparr>))))) = []"
  using replay_padding_breaks_checksum [of "ack_env Ack0" NR_OMS 3 3 1 "\<lambda>_. 0" 1 2]
  by (auto simp: is_message_def message_defaults split: prod.splits)

end
