(* ===== verification/Market_Data_Adapter.thy ===== *)
theory Market_Data_Adapter
  imports Venue_Router Effects "HOL-Library.Sublist"
begin

text \<open>
  The market data adapter of src/market_data_adapter.cpp: text search and field extraction, decimal
  parsing into integer ticks and micro-units, and one normalizer per venue.  Strings are lists of
  characters; a position is a natural number and \<open>npos\<close> is \<open>None\<close>.  Integer arithmetic is 64-bit
  and wraps where C++ leaves overflow undefined.  Clock readings are arguments.
\<close>

section \<open>Searching\<close>

definition QUOTE :: char where "QUOTE = CHR 0x22"

fun find_first :: "string \<Rightarrow> string \<Rightarrow> nat option" where
  "find_first pat [] = (if pat = [] then Some 0 else None)"
| "find_first pat (c # cs) =
     (if prefix pat (c # cs) then Some 0 else map_option Suc (find_first pat cs))"

text \<open>\<open>raw.find(pat, pos)\<close>.\<close>

definition find_from :: "string \<Rightarrow> nat \<Rightarrow> string \<Rightarrow> nat option" where
  "find_from pat pos raw =
     (if length raw < pos then None else map_option (\<lambda>i. pos + i) (find_first pat (drop pos raw)))"

text \<open>\<open>raw.substr(pos, n)\<close> with \<open>pos\<close> at most the size.\<close>

definition substr :: "nat \<Rightarrow> nat \<Rightarrow> string \<Rightarrow> string" where
  "substr pos n raw = take n (drop pos raw)"

definition quoted :: "string \<Rightarrow> string" where
  "quoted key = QUOTE # key @ [QUOTE]"

definition extract_json_string :: "string \<Rightarrow> string \<Rightarrow> string option" where
  "extract_json_string raw key =
     (let pattern = quoted key
      in case find_from pattern 0 raw of
           None \<Rightarrow> None
         | Some key_pos \<Rightarrow>
        case find_from '':'' (key_pos + length pattern) raw of
           None \<Rightarrow> None
         | Some colon_pos \<Rightarrow>
        case find_from [QUOTE] (colon_pos + 1) raw of
           None \<Rightarrow> None
         | Some first_quote \<Rightarrow>
        case find_from [QUOTE] (first_quote + 1) raw of
           None \<Rightarrow> None
         | Some second_quote \<Rightarrow>
             Some (substr (first_quote + 1) (second_quote - first_quote - 1) raw))"

definition is_number_char :: "char \<Rightarrow> bool" where
  "is_number_char c \<longleftrightarrow> is_digit c \<or> c = CHR ''.'' \<or> c = CHR ''-''"

definition extract_json_number_as_string :: "string \<Rightarrow> string \<Rightarrow> string option" where
  "extract_json_number_as_string raw key =
     (let pattern = quoted key
      in case find_from pattern 0 raw of
           None \<Rightarrow> None
         | Some key_pos \<Rightarrow>
        case find_from '':'' (key_pos + length pattern) raw of
           None \<Rightarrow> None
         | Some colon_pos \<Rightarrow>
             let number = takeWhile is_number_char (dropWhile is_space (drop (colon_pos + 1) raw))
             in if number = [] then None else Some number)"

section \<open>Numbers\<close>

text \<open>
  \<open>std::from_chars\<close> for an unsigned 64-bit integer: digits only, no sign and no white space; what
  follows the digits is ignored; a value that does not fit is an error.
\<close>

definition parse_sequence :: "string \<Rightarrow> Sequence option" where
  "parse_sequence value =
     (let digits = takeWhile is_digit value; n = digits_value digits
      in if digits = [] \<or> 2 ^ 64 \<le> n then None else Some (of_nat n))"

text \<open>
  \<open>std::stoll\<close>: white space, an optional sign, digits; without digits it throws
  \<open>std::invalid_argument\<close>, out of range \<open>std::out_of_range\<close>.
\<close>

datatype number_error = InvalidArgument | OutOfRange

definition stoll :: "string \<Rightarrow> number_error + s64" where
  "stoll s =
     (let body = dropWhile is_space s;
          neg = (case body of c # _ \<Rightarrow> c = CHR ''-'' | [] \<Rightarrow> False);
          rest = (case body of c # cs \<Rightarrow> if c = CHR ''-'' \<or> c = CHR ''+'' then cs else body | [] \<Rightarrow> []);
          digits = takeWhile is_digit rest;
          k = (if neg then - int (digits_value digits) else int (digits_value digits))
      in if digits = [] then Inl InvalidArgument
         else if \<not> s64_fits k then Inl OutOfRange
         else Inr (word_of_int k))"

text \<open>
  The digit loop of both decimal parsers, which keeps at most \<open>limit\<close> fractional digits.  The state
  is the whole part, the fractional part, the number of fractional digits and whether a point was
  seen.
\<close>

fun decimal_loop :: "nat \<Rightarrow> string \<Rightarrow> s64 \<Rightarrow> s64 \<Rightarrow> nat \<Rightarrow> bool \<Rightarrow> s64 \<times> s64 \<times> nat" where
  "decimal_loop limit [] whole frac n after = (whole, frac, n)"
| "decimal_loop limit (c # cs) whole frac n after =
     (if c = CHR ''.'' then decimal_loop limit cs whole frac n True
      else if \<not> is_digit c then (whole, frac, n)
      else if \<not> after
      then decimal_loop limit cs (whole * 10 + of_nat (digit_value c)) frac n after
      else if n < limit
      then decimal_loop limit cs whole (frac * 10 + of_nat (digit_value c)) (Suc n) after
      else decimal_loop limit cs whole frac n after)"

text \<open>\<open>while (fractional_digits < target) fractional *= 10\<close>.\<close>

fun pad_digits :: "nat \<Rightarrow> s64 \<Rightarrow> s64" where
  "pad_digits 0 frac = frac"
| "pad_digits (Suc k) frac = pad_digits k (frac * 10)"

definition strip_minus :: "string \<Rightarrow> bool \<times> string" where
  "strip_minus value =
     (case value of
        c # cs \<Rightarrow> if c = CHR ''-'' then (True, cs) else (False, value)
      | [] \<Rightarrow> (False, []))"

definition parse_price_to_ticks :: "string \<Rightarrow> i32 \<Rightarrow> Price" where
  "parse_price_to_ticks value scale =
     (let (negative, body) = strip_minus value;
          (whole, frac, n) = decimal_loop 9 body 0 0 0 False;
          frac' = pad_digits (2 - n) frac;
          result = whole * scast scale;
          result' = (if scale = 100 then result + frac' else result)
      in if negative then - result' else result')"

definition parse_quantity_to_units :: "string \<Rightarrow> Quantity" where
  "parse_quantity_to_units value =
     (let (negative, body) = strip_minus value;
          (whole, frac, n) = decimal_loop 6 body 0 0 0 False;
          frac' = pad_digits (6 - n) frac;
          result = whole * 1000000 + frac'
      in if negative then - result else result)"

section \<open>Normalizers\<close>

definition make_update ::
  "TimestampNs \<Rightarrow> TimestampNs \<Rightarrow> MarketDataVenue \<Rightarrow> SymbolId \<Rightarrow> string \<Rightarrow> Price \<Rightarrow> Quantity
   \<Rightarrow> Price \<Rightarrow> Quantity \<Rightarrow> Sequence \<Rightarrow> MarketDataUpdate" where
  "make_update t1 t2 venue symbol_id symbol bid_px bid_qty ask_px ask_qty exchange_sequence =
     MarketDataUpdate0\<lparr>md_header := MessageHeader0\<lparr>hdr_type := MT_MarketData,
         hdr_source_node := ucast (venue_byte venue), hdr_destination_node := 2,
         hdr_sequence := exchange_sequence, hdr_send_ts_ns := t1, hdr_recv_ts_ns := t2\<rparr>,
       md_symbol_id := symbol_id, md_symbol := Symbol_of symbol, md_bid_px := bid_px,
       md_bid_qty := bid_qty, md_ask_px := ask_px, md_ask_qty := ask_qty,
       md_exchange_sequence := exchange_sequence\<rparr>"

definition normalize_binance_book_ticker ::
  "TimestampNs \<Rightarrow> TimestampNs \<Rightarrow> string \<Rightarrow> SymbolId \<Rightarrow> NormalizedMarketData option \<times> effect list"
where
  "normalize_binance_book_ticker t1 t2 raw symbol_id =
     (case (extract_json_string raw ''s'', extract_json_number_as_string raw ''u'',
            extract_json_string raw ''b'', extract_json_string raw ''B'',
            extract_json_string raw ''a'', extract_json_string raw ''A'') of
        (Some symbol, Some seq, Some bid_px, Some bid_qty, Some ask_px, Some ask_qty) \<Rightarrow>
          (case parse_sequence seq of
             None \<Rightarrow> (None, [Log Warn ''md_binance'' ''failed to parse Binance sequence''])
           | Some sequence \<Rightarrow>
               (Some \<lparr>nmd_venue = Binance,
                      nmd_update = make_update t1 t2 Binance symbol_id symbol
                        (parse_price_to_ticks bid_px 100) (parse_quantity_to_units bid_qty)
                        (parse_price_to_ticks ask_px 100) (parse_quantity_to_units ask_qty)
                        sequence\<rparr>, []))
      | _ \<Rightarrow> (None, [Log Warn ''md_binance'' ''failed to parse Binance bookTicker'']))"

definition normalize_coinbase_ticker ::
  "TimestampNs \<Rightarrow> TimestampNs \<Rightarrow> string \<Rightarrow> SymbolId \<Rightarrow> NormalizedMarketData option \<times> effect list"
where
  "normalize_coinbase_ticker t1 t2 raw symbol_id =
     (case (extract_json_string raw ''product_id'', extract_json_number_as_string raw ''sequence'',
            extract_json_string raw ''best_bid'', extract_json_string raw ''best_bid_size'',
            extract_json_string raw ''best_ask'', extract_json_string raw ''best_ask_size'') of
        (Some symbol, Some seq, Some bid_px, Some bid_qty, Some ask_px, Some ask_qty) \<Rightarrow>
          (case parse_sequence seq of
             None \<Rightarrow> (None, [Log Warn ''md_coinbase'' ''failed to parse Coinbase sequence''])
           | Some sequence \<Rightarrow>
               (Some \<lparr>nmd_venue = Coinbase,
                      nmd_update = make_update t1 t2 Coinbase symbol_id symbol
                        (parse_price_to_ticks bid_px 100) (parse_quantity_to_units bid_qty)
                        (parse_price_to_ticks ask_px 100) (parse_quantity_to_units ask_qty)
                        sequence\<rparr>, []))
      | _ \<Rightarrow> (None, [Log Warn ''md_coinbase'' ''failed to parse Coinbase ticker'']))"

definition normalize_polygon_quote ::
  "TimestampNs \<Rightarrow> TimestampNs \<Rightarrow> string \<Rightarrow> SymbolId \<Rightarrow> NormalizedMarketData option \<times> effect list"
where
  "normalize_polygon_quote t1 t2 raw symbol_id =
     (case (extract_json_string raw ''sym'', extract_json_number_as_string raw ''q'',
            extract_json_number_as_string raw ''bp'', extract_json_number_as_string raw ''bs'',
            extract_json_number_as_string raw ''ap'', extract_json_number_as_string raw ''as'') of
        (Some symbol, Some seq, Some bid_px, Some bid_qty, Some ask_px, Some ask_qty) \<Rightarrow>
          (case parse_sequence seq of
             None \<Rightarrow> (None, [Log Warn ''md_polygon'' ''failed to parse Polygon sequence''])
           | Some sequence \<Rightarrow>
               (Some \<lparr>nmd_venue = Polygon,
                      nmd_update = make_update t1 t2 Polygon symbol_id symbol
                        (parse_price_to_ticks bid_px 100) (parse_quantity_to_units bid_qty)
                        (parse_price_to_ticks ask_px 100) (parse_quantity_to_units ask_qty)
                        sequence\<rparr>, []))
      | _ \<Rightarrow> (None, [Log Warn ''md_polygon'' ''failed to parse Polygon quote'']))"

text \<open>\<open>split_pipe_line\<close>; a line without a bar is one part.\<close>

fun split_pipe_line :: "string \<Rightarrow> string list" where
  "split_pipe_line [] = [[]]"
| "split_pipe_line (c # cs) =
     (if c = CHR ''|'' then [] # split_pipe_line cs
      else (case split_pipe_line cs of p # ps \<Rightarrow> (c # p) # ps | [] \<Rightarrow> [[c]]))"

text \<open>
  The four \<open>std::stoll\<close> calls throw; nothing catches the exception here, so the normalizer itself
  ends with it (\<open>Inl\<close>).  When several fields are malformed the exception shown is that of the first.
\<close>

definition normalize_simulated_itch_quote ::
  "TimestampNs \<Rightarrow> TimestampNs \<Rightarrow> string \<Rightarrow> SymbolId
   \<Rightarrow> number_error + NormalizedMarketData option \<times> effect list" where
  "normalize_simulated_itch_quote t1 t2 raw symbol_id =
     (let parts = split_pipe_line raw
      in if length parts \<noteq> 7 \<or> parts ! 0 \<noteq> ''Q''
         then Inr (None, [Log Warn ''md_itch'' ''failed to parse ITCH quote''])
         else case parse_sequence (parts ! 1) of
           None \<Rightarrow> Inr (None, [Log Warn ''md_itch'' ''failed to parse ITCH sequence''])
         | Some sequence \<Rightarrow>
             (case stoll (parts ! 3) of Inl e \<Rightarrow> Inl e | Inr bid_px \<Rightarrow>
             (case stoll (parts ! 4) of Inl e \<Rightarrow> Inl e | Inr bid_qty \<Rightarrow>
             (case stoll (parts ! 5) of Inl e \<Rightarrow> Inl e | Inr ask_px \<Rightarrow>
             (case stoll (parts ! 6) of Inl e \<Rightarrow> Inl e | Inr ask_qty \<Rightarrow>
               Inr (Some \<lparr>nmd_venue = SimulatedItch,
                          nmd_update = make_update t1 t2 SimulatedItch symbol_id (parts ! 2)
                            bid_px bid_qty ask_px ask_qty sequence\<rparr>, []))))))"

text \<open>A search that starts at \<open>npos\<close> finds nothing.\<close>

definition find_after :: "string \<Rightarrow> nat option \<Rightarrow> string \<Rightarrow> nat option" where
  "find_after pat pos raw = (case pos of None \<Rightarrow> None | Some p \<Rightarrow> find_from pat p raw)"

definition normalize_hyperliquid_l2book ::
  "TimestampNs \<Rightarrow> TimestampNs \<Rightarrow> string \<Rightarrow> SymbolId \<Rightarrow> NormalizedMarketData option \<times> effect list"
where
  "normalize_hyperliquid_l2book t1 t2 raw symbol_id =
     (if find_from (quoted ''channel'' @ '':'' @ quoted ''l2Book'') 0 raw = None then (None, [])
      else case (extract_json_string raw ''coin'', extract_json_number_as_string raw ''time'') of
        (Some coin, Some time) \<Rightarrow>
          (case find_from (quoted ''levels'') 0 raw of
             None \<Rightarrow> (None, [])
           | Some levels_pos \<Rightarrow>
               let first_px_pos = find_from (quoted ''px'') levels_pos raw;
                   first_sz_pos = find_after (quoted ''sz'') first_px_pos raw
               in case (first_px_pos, first_sz_pos) of
                 (Some fpx, Some fsz) \<Rightarrow>
                   let bid_px = extract_json_string (drop fpx raw) ''px'';
                       bid_sz = extract_json_string (drop fsz raw) ''sz''
                   in (case find_from ''],['' fsz raw of
                         None \<Rightarrow> (None, [])
                       | Some second \<Rightarrow>
                           let ask_px_pos = find_from (quoted ''px'') second raw;
                               ask_sz_pos = find_after (quoted ''sz'') ask_px_pos raw
                           in case (ask_px_pos, ask_sz_pos) of
                             (Some apx, Some asz) \<Rightarrow>
                               (case (bid_px, bid_sz, extract_json_string (drop apx raw) ''px'',
                                      extract_json_string (drop asz raw) ''sz'', parse_sequence time) of
                                  (Some bp, Some bs, Some ap, Some asz', Some sequence) \<Rightarrow>
                                    (Some \<lparr>nmd_venue = Hyperliquid,
                                       nmd_update = make_update t1 t2 Hyperliquid symbol_id coin
                                         (parse_price_to_ticks bp 100) (parse_quantity_to_units bs)
                                         (parse_price_to_ticks ap 100) (parse_quantity_to_units asz')
                                         sequence\<rparr>, [])
                                | _ \<Rightarrow> (None, [Log Warn ''md_hyperliquid''
                                                 ''failed to parse Hyperliquid top of book'']))
                           | _ \<Rightarrow> (None, []))
               | _ \<Rightarrow> (None, []))
      | _ \<Rightarrow> (None, [Log Warn ''md_hyperliquid'' ''failed to parse Hyperliquid coin/time'']))"

section \<open>Decimal texts\<close>

lemma decimal_loop_whole:
  "list_all is_digit ws \<Longrightarrow>
   decimal_loop limit (ws @ rest) whole frac n False
   = decimal_loop limit rest (whole * 10 ^ length ws + of_nat (digits_value ws)) frac n False"
proof (induction ws arbitrary: whole)
  case Nil
  then show ?case by simp
next
  case (Cons c ws)
  then have "c \<noteq> CHR ''.''" "is_digit c" by (auto simp: is_digit_def)
  with Cons show ?case
    using digits_value_append [of "[c]" ws] digits_value_snoc [of "[]" c]
    by (simp add: algebra_simps)
qed

lemma decimal_loop_fraction:
  "list_all is_digit fs \<Longrightarrow> n \<le> limit \<Longrightarrow>
   decimal_loop limit fs whole frac n True
   = (whole, frac * 10 ^ min (limit - n) (length fs)
        + of_nat (digits_value (take (limit - n) fs)), n + min (limit - n) (length fs))"
proof (induction fs arbitrary: frac n)
  case Nil
  then show ?case by simp
next
  case (Cons c fs)
  then have c: "c \<noteq> CHR ''.''" "is_digit c" by (auto simp: is_digit_def)
  show ?case
  proof (cases "n < limit")
    case True
    then obtain k where k: "limit - n = Suc k" "limit - Suc n = k" by (cases "limit - n") auto
    have "digits_value (c # take k fs) = digit_value c * 10 ^ length (take k fs) + digits_value (take k fs)"
      using digits_value_append [of "[c]" "take k fs"] digits_value_snoc [of "[]" c] by simp
    moreover have "length (take k fs) = min k (length fs)" by simp
    ultimately show ?thesis
      using c Cons True k by (simp add: algebra_simps min.commute)
  next
    case False
    then have "limit - n = 0" using Cons.prems by simp
    with c Cons False show ?thesis by simp
  qed
qed

lemma pad_digits_eq: "pad_digits k frac = frac * 10 ^ k"
  by (induction k arbitrary: frac) (simp_all add: algebra_simps)

text \<open>A decimal text: an optional minus sign, a whole part, a point, a fraction.\<close>

definition decimal_text :: "bool \<Rightarrow> string \<Rightarrow> string \<Rightarrow> string" where
  "decimal_text neg ws fs = (if neg then ''-'' else []) @ ws @ ''.'' @ fs"

lemma strip_minus_decimal:
  assumes "list_all is_digit ws"
  shows "strip_minus (decimal_text neg ws fs) = (neg, ws @ ''.'' @ fs)"
proof (cases ws)
  case Nil
  then show ?thesis by (simp add: strip_minus_def decimal_text_def)
next
  case (Cons c cs)
  with assms have "c \<noteq> CHR ''-''" by (auto simp: is_digit_def)
  with Cons show ?thesis by (simp add: strip_minus_def decimal_text_def)
qed

text \<open>The magnitude each parser computes, as an unbounded number.\<close>

definition ticks_of :: "string \<Rightarrow> string \<Rightarrow> nat" where
  "ticks_of ws fs = 100 * digits_value ws + digits_value (take 9 fs) * 10 ^ (2 - min 9 (length fs))"

definition units_of :: "string \<Rightarrow> string \<Rightarrow> nat" where
  "units_of ws fs = 1000000 * digits_value ws + digits_value (take 6 fs) * 10 ^ (6 - min 6 (length fs))"

lemma parse_price_decimal:
  assumes "list_all is_digit ws" and "list_all is_digit fs"
  shows "parse_price_to_ticks (decimal_text neg ws fs) 100
    = (if neg then - of_nat (ticks_of ws fs) else of_nat (ticks_of ws fs))"
  using assms
  by (simp add: parse_price_to_ticks_def strip_minus_decimal decimal_loop_whole
      decimal_loop_fraction pad_digits_eq ticks_of_def Let_def algebra_simps)

lemma parse_quantity_decimal:
  assumes "list_all is_digit ws" and "list_all is_digit fs"
  shows "parse_quantity_to_units (decimal_text neg ws fs)
    = (if neg then - of_nat (units_of ws fs) else of_nat (units_of ws fs))"
  using assms
  by (simp add: parse_quantity_to_units_def strip_minus_decimal decimal_loop_whole
      decimal_loop_fraction pad_digits_eq units_of_def Let_def algebra_simps)

lemma units_of_floor:
  assumes "list_all is_digit fs"
  shows "units_of ws fs = 1000000 * digits_value (ws @ fs) div 10 ^ length fs"
proof (cases "length fs \<le> 6")
  case True
  then have "(10::nat) ^ 6 = 10 ^ (6 - length fs) * 10 ^ length fs"
    by (simp add: power_add [symmetric])
  then have "1000000 * digits_value (ws @ fs)
      = (1000000 * digits_value ws + digits_value fs * 10 ^ (6 - length fs)) * 10 ^ length fs"
    by (simp add: digits_value_append algebra_simps)
  with True show ?thesis by (simp add: units_of_def)
next
  case False
  define k where "k = length fs - 6"
  have len: "length fs = 6 + k" using False by (simp add: k_def)
  have split: "digits_value fs = digits_value (take 6 fs) * 10 ^ k + digits_value (drop 6 fs)"
    using digits_value_append [of "take 6 fs" "drop 6 fs"] by (simp add: k_def)
  have "list_all is_digit (drop 6 fs)" using assms by (auto simp: list_all_iff dest: in_set_dropD)
  then have small: "digits_value (drop 6 fs) < 10 ^ k"
    using digits_value_bound [of "drop 6 fs"] by (simp add: k_def)
  have "1000000 * digits_value (ws @ fs)
      = digits_value (drop 6 fs) * 10 ^ 6
        + (1000000 * digits_value ws + digits_value (take 6 fs)) * (10 ^ k * 10 ^ 6)"
    by (simp add: digits_value_append split len power_add algebra_simps)
  moreover have "digits_value (drop 6 fs) * 10 ^ 6 < 10 ^ k * (10 ^ 6 :: nat)"
    using small by simp
  moreover have "(10::nat) ^ length fs = 10 ^ k * 10 ^ 6"
    by (simp add: len power_add)
  ultimately have "1000000 * digits_value (ws @ fs) div 10 ^ length fs
      = 1000000 * digits_value ws + digits_value (take 6 fs)"
    by (simp only: div_mult_self3 div_less add_0) simp
  with False show ?thesis by (simp add: units_of_def)
qed

text \<open>
  Prices: a decimal text with at most two fractional digits is converted exactly to hundredths;
  in general the parser adds the first nine fractional digits, read as an integer, to a hundred times
  the whole part, whatever their number, so every further digit multiplies the fraction by ten.
\<close>

lemma price_text_ticks:
  assumes "list_all is_digit ws" and "list_all is_digit fs" and "ticks_of ws fs < 2 ^ 63"
  shows "sint (parse_price_to_ticks (decimal_text neg ws fs) 100)
      = (if neg then - int (ticks_of ws fs) else int (ticks_of ws fs))
    \<and> (if length fs \<le> 2 then ticks_of ws fs * 10 ^ length fs = 100 * digits_value (ws @ fs)
        else ticks_of ws fs = 100 * digits_value ws + digits_value (take 9 fs))"
proof -
  have "ticks_of ws fs * 10 ^ length fs = 100 * digits_value (ws @ fs)" if "length fs \<le> 2"
  proof -
    have "(100::nat) = 10 ^ (2 - length fs) * 10 ^ length fs"
      using that by (simp add: power_add [symmetric])
    then show ?thesis
      using that by (simp add: ticks_of_def digits_value_append algebra_simps)
  qed
  moreover have "ticks_of ws fs = 100 * digits_value ws + digits_value (take 9 fs)"
    if "\<not> length fs \<le> 2"
    using that by (simp add: ticks_of_def)
  ultimately show ?thesis
    using assms by (simp add: parse_price_decimal s64_of_nat s64_minus_of_nat)
qed

theorem price_text_ticks_witness:
  "sint (parse_price_to_ticks (decimal_text False ''189'' ''25'') 100) = 18925
   \<and> sint (parse_price_to_ticks (decimal_text False ''189'' ''25000000'') 100) = 25018900"
  using price_text_ticks [of "''189''" "''25''" False] price_text_ticks [of "''189''" "''25000000''" False]
  by (simp add: is_digit_def ticks_of_def digits_value_def digit_value_def)

text \<open>
  Quantities: a decimal text is converted to micro-units exactly, truncating whatever lies
  beyond the sixth fractional digit towards zero.
\<close>

theorem quantity_text_units:
  assumes "list_all is_digit ws" and "list_all is_digit fs"
    and "1000000 * digits_value (ws @ fs) div 10 ^ length fs < 2 ^ 63"
  shows "sint (parse_quantity_to_units (decimal_text neg ws fs))
    = (if neg then -1 else 1) * int (1000000 * digits_value (ws @ fs) div 10 ^ length fs)"
  using assms
  by (simp add: parse_quantity_decimal s64_of_nat s64_minus_of_nat units_of_floor)

theorem quantity_text_units_witness:
  "sint (parse_quantity_to_units (decimal_text True ''1'' ''50000099'')) = - 1500000"
  using quantity_text_units [of "''1''" "''50000099''" True]
  by (simp add: is_digit_def digits_value_def digit_value_def)

text \<open>
  C39.  The scaling error reverses prices: of two prices with eight fractional digits, as Binance
  sends them, that lie in consecutive whole units, the lower one is parsed as the greater whenever
  its fraction exceeds the other's by more than a hundred hundred-millionths.
\<close>

theorem price_order_reversed:
  assumes "list_all is_digit fs" and "list_all is_digit gs" and "length fs = 8" and "length gs = 8"
    and "digits_value gs + 100 < digits_value fs" and "n < 2 ^ 50"
  shows "digits_value (show_nat n @ fs) < digits_value (show_nat (n + 1) @ gs)
    \<and> sint (parse_price_to_ticks (decimal_text False (show_nat n) fs) 100)
      > sint (parse_price_to_ticks (decimal_text False (show_nat (n + 1)) gs) 100)"
proof -
  have digits: "list_all is_digit (show_nat k)" for k
    by (simp add: list_all_iff show_nat_digits)
  have bounds: "digits_value fs < 10 ^ 8" "digits_value gs < 10 ^ 8"
    using digits_value_bound assms(1-4) by metis+
  have ticks: "ticks_of (show_nat n) fs = 100 * n + digits_value fs"
    "ticks_of (show_nat (n + 1)) gs = 100 * (n + 1) + digits_value gs"
    using assms(3,4) by (simp_all add: ticks_of_def)
  have lt: "100 * n + digits_value fs < 2 ^ 63" "100 * (n + 1) + digits_value gs < 2 ^ 63"
    using bounds assms(6) by simp_all
  have "sint (parse_price_to_ticks (decimal_text False (show_nat n) fs) 100)
      = int (100 * n + digits_value fs)"
    "sint (parse_price_to_ticks (decimal_text False (show_nat (n + 1)) gs) 100)
      = int (100 * (n + 1) + digits_value gs)"
    by (simp_all only: parse_price_decimal [OF digits assms(1)] parse_price_decimal [OF digits assms(2)]
        if_False ticks s64_of_nat [OF lt(1)] s64_of_nat [OF lt(2)])
  moreover have "digits_value (show_nat n @ fs) < digits_value (show_nat (n + 1) @ gs)"
    using bounds assms(3,4) by (simp add: digits_value_append)
  ultimately show ?thesis using assms(5) by simp
qed

theorem price_order_reversed_witness:
  "sint (parse_price_to_ticks (decimal_text False ''65000'' ''99000000'') 100)
   > sint (parse_price_to_ticks (decimal_text False ''65001'' ''01000000'') 100)"
proof -
  have "show_nat 65000 = ''65000''" "show_nat 65001 = ''65001''"
    by (simp_all add: show_nat.simps digit_char_def char_of_def bit_0)
  with price_order_reversed [of "''99000000''" "''01000000''" 65000] show ?thesis
    by (simp add: is_digit_def digits_value_def digit_value_def)
qed

section \<open>The ITCH line\<close>

lemma split_pipe_bar:
  "CHR ''|'' \<notin> set p \<Longrightarrow> split_pipe_line (p @ CHR ''|'' # rest) = p # split_pipe_line rest"
  by (induction p) auto

lemma split_pipe_last: "CHR ''|'' \<notin> set p \<Longrightarrow> split_pipe_line p = [p]"
  by (induction p) auto

lemma digit_not_space: "is_digit c \<Longrightarrow> \<not> is_space c"
  by (auto simp: is_digit_def is_space_def)

lemma hd_show_nat: "\<exists>c cs. show_nat n = c # cs \<and> is_digit c"
  using show_nat_nonempty [of n] show_nat_digits [of _ n] by (cases "show_nat n") auto

lemma takeWhile_show_nat [simp]: "takeWhile is_digit (show_nat n) = show_nat n"
  by (rule takeWhile_all) (rule show_nat_digits)

lemma parse_sequence_show_nat: "n < 2 ^ 64 \<Longrightarrow> parse_sequence (show_nat n) = Some (of_nat n)"
  by (simp add: parse_sequence_def Let_def)

lemma stoll_show_int:
  assumes "s64_fits k"
  shows "stoll (show_int k) = Inr (word_of_int k)"
proof (cases "k < 0")
  case True
  have "dropWhile is_space (CHR ''-'' # show_nat (nat (- k))) = CHR ''-'' # show_nat (nat (- k))"
    by (simp add: is_space_def)
  with True assms show ?thesis
    by (simp add: stoll_def show_int_def Let_def)
next
  case False
  obtain c cs where c: "show_nat (nat k) = c # cs" "is_digit c" using hd_show_nat by blast
  then have "dropWhile is_space (show_nat (nat k)) = show_nat (nat k)"
    "c \<noteq> CHR ''-''" "c \<noteq> CHR ''+''"
    using digit_not_space by (auto simp: is_digit_def)
  moreover have "takeWhile is_digit (c # cs) = c # cs"
    using takeWhile_show_nat [of "nat k"] c(1) by simp
  moreover have "digits_value (c # cs) = nat k"
    using digits_value_show_nat [of "nat k"] c(1) by simp
  ultimately show ?thesis
    using False assms c(1) by (simp add: stoll_def show_int_def Let_def)
qed

lemma bar_not_in_number: "CHR ''|'' \<notin> set (show_nat n)" "CHR ''|'' \<notin> set (show_int k)"
  using show_nat_digits [of "CHR ''|''"] by (auto simp: is_digit_def show_int_def)

text \<open>The line of a quote, fields separated by bars.\<close>

definition itch_line :: "Sequence \<Rightarrow> string \<Rightarrow> Price \<Rightarrow> Quantity \<Rightarrow> Price \<Rightarrow> Quantity \<Rightarrow> string" where
  "itch_line seq symbol bid_px bid_qty ask_px ask_qty =
     ''Q|'' @ show_nat (unat seq) @ ''|'' @ symbol @ ''|'' @ show_int (sint bid_px) @ ''|''
     @ show_int (sint bid_qty) @ ''|'' @ show_int (sint ask_px) @ ''|'' @ show_int (sint ask_qty)"

lemma split_itch_line:
  assumes "CHR ''|'' \<notin> set symbol"
  shows "split_pipe_line (itch_line seq symbol bid_px bid_qty ask_px ask_qty)
    = [''Q'', show_nat (unat seq), symbol, show_int (sint bid_px), show_int (sint bid_qty),
       show_int (sint ask_px), show_int (sint ask_qty)]"
  using split_pipe_bar [of "''Q''"] assms
  by (simp add: itch_line_def split_pipe_bar split_pipe_last bar_not_in_number)

text \<open>
  Print and parse: the line that shows a quote is normalized back to exactly that quote, for
  every sequence number, every pair of prices and sizes (negative ones included) and every symbol
  without a bar, and nothing is logged.
\<close>

lemma itch_roundtrip:
  assumes "CHR ''|'' \<notin> set symbol"
  shows "normalize_simulated_itch_quote t1 t2
      (itch_line seq symbol bid_px bid_qty ask_px ask_qty) symbol_id
    = Inr (Some \<lparr>nmd_venue = SimulatedItch,
                 nmd_update = make_update t1 t2 SimulatedItch symbol_id symbol
                   bid_px bid_qty ask_px ask_qty seq\<rparr>, [])"
proof -
  have "parse_sequence (show_nat (unat seq)) = Some seq"
    using parse_sequence_show_nat [of "unat seq"] unsigned_less [of seq, where ?'a = nat] by simp
  then show ?thesis
    using split_itch_line [OF assms]
    by (simp add: normalize_simulated_itch_quote_def stoll_show_int Let_def)
qed

section \<open>Fields of a JSON text\<close>

text \<open>A text is its segments between quotes; the key search compares segments.\<close>

fun join_quotes :: "string list \<Rightarrow> string" where
  "join_quotes [] = []"
| "join_quotes [s] = s"
| "join_quotes (s # t # ss) = s @ QUOTE # join_quotes (t # ss)"

definition after :: "string \<Rightarrow> string \<Rightarrow> string option" where
  "after pat s = map_option (\<lambda>i. drop (i + length pat) s) (find_first pat s)"

lemma find_from_after:
  assumes "pos \<le> length raw"
  shows "after pat (drop pos raw) = map_option (\<lambda>i. drop (i + length pat) raw) (find_from pat pos raw)"
  using assms by (auto simp: after_def find_from_def map_option_case ac_simps split: option.splits)

lemma find_first_bound: "find_first pat s = Some i \<Longrightarrow> i + length pat \<le> length s"
  by (induction s arbitrary: i) (auto split: if_splits dest: prefix_length_le)

lemma find_from_bound: "find_from pat pos raw = Some i \<Longrightarrow> pos \<le> i \<and> i + length pat \<le> length raw"
  by (auto simp: find_from_def split: if_splits dest!: find_first_bound)

lemma extract_json_string_after:
  "extract_json_string raw key =
     (case after (quoted key) raw of None \<Rightarrow> None | Some r1 \<Rightarrow>
     (case after '':'' r1 of None \<Rightarrow> None | Some r2 \<Rightarrow>
     (case after [QUOTE] r2 of None \<Rightarrow> None | Some r3 \<Rightarrow>
        map_option (\<lambda>n. take n r3) (find_first [QUOTE] r3))))"
proof (cases "find_from (quoted key) 0 raw")
  case None
  then show ?thesis
    using find_from_after [of 0 raw "quoted key"] by (simp add: extract_json_string_def Let_def)
next
  case (Some k)
  let ?p1 = "k + length (quoted key)"
  have b1: "?p1 \<le> length raw" using find_from_bound [OF Some] by simp
  have a1: "after (quoted key) raw = Some (drop ?p1 raw)"
    using find_from_after [of 0 raw "quoted key"] Some by simp
  show ?thesis
  proof (cases "find_from '':'' ?p1 raw")
    case None
    then show ?thesis
      using a1 Some find_from_after [OF b1, of "'':''"] by (simp add: extract_json_string_def Let_def)
  next
    case colon: (Some c)
    have b2: "c + 1 \<le> length raw" using find_from_bound [OF colon] by simp
    have a2: "after '':'' (drop ?p1 raw) = Some (drop (c + 1) raw)"
      using find_from_after [OF b1, of "'':''"] colon by simp
    show ?thesis
    proof (cases "find_from [QUOTE] (c + 1) raw")
      case None
      then show ?thesis
        using a1 a2 Some colon find_from_after [OF b2, of "[QUOTE]"]
        by (simp add: extract_json_string_def Let_def)
    next
      case q: (Some f)
      have b3: "f + 1 \<le> length raw" using find_from_bound [OF q] by simp
      have a3: "after [QUOTE] (drop (c + 1) raw) = Some (drop (f + 1) raw)"
        using find_from_after [OF b2, of "[QUOTE]"] q by simp
      have "find_from [QUOTE] (f + 1) raw = map_option (\<lambda>i. f + 1 + i) (find_first [QUOTE] (drop (f + 1) raw))"
        using b3 by (cases "find_first [QUOTE] (drop (f + 1) raw)") (simp_all add: find_from_def)
      then show ?thesis
        using a1 a2 a3 Some colon q
        by (cases "find_first [QUOTE] (drop (f + 1) raw)")
           (simp_all add: extract_json_string_def substr_def Let_def)
    qed
  qed
qed

lemma extract_json_number_after:
  "extract_json_number_as_string raw key =
     (case after (quoted key) raw of None \<Rightarrow> None | Some r1 \<Rightarrow>
     (case after '':'' r1 of None \<Rightarrow> None | Some r2 \<Rightarrow>
        (let number = takeWhile is_number_char (dropWhile is_space r2)
         in if number = [] then None else Some number)))"
proof (cases "find_from (quoted key) 0 raw")
  case None
  then show ?thesis
    using find_from_after [of 0 raw "quoted key"]
    by (simp add: extract_json_number_as_string_def Let_def)
next
  case (Some k)
  let ?p1 = "k + length (quoted key)"
  have b1: "?p1 \<le> length raw" using find_from_bound [OF Some] by simp
  have a1: "after (quoted key) raw = Some (drop ?p1 raw)"
    using find_from_after [of 0 raw "quoted key"] Some by simp
  then show ?thesis
    using Some find_from_after [OF b1, of "'':''"]
    by (cases "find_from '':'' ?p1 raw")
       (simp_all add: extract_json_number_as_string_def Let_def)
qed

text \<open>Searches over a text given by its segments.\<close>

definition no_quote :: "string \<Rightarrow> bool" where
  "no_quote s \<longleftrightarrow> QUOTE \<notin> set s"

lemma no_quote_simps [simp]:
  "no_quote []" "no_quote (c # cs) \<longleftrightarrow> c \<noteq> QUOTE \<and> no_quote cs"
  "no_quote (xs @ ys) \<longleftrightarrow> no_quote xs \<and> no_quote ys"
  by (auto simp: no_quote_def)

lemma find_first_skip:
  "no_quote s \<Longrightarrow> find_first (QUOTE # p) (s @ t) = map_option ((+) (length s)) (find_first (QUOTE # p) t)"
  by (induction s) (auto simp: map_option_case split: option.split)

lemma prefix_segment:
  "no_quote k \<Longrightarrow> no_quote x \<Longrightarrow> prefix (k @ [QUOTE]) (x @ QUOTE # rest) \<longleftrightarrow> k = x"
proof (induction k arbitrary: x)
  case Nil
  then show ?case by (cases x) auto
next
  case (Cons c k)
  then show ?case by (cases x) auto
qed

lemma prefix_last_segment:
  assumes "no_quote x"
  shows "\<not> prefix (k @ [QUOTE]) x"
proof
  assume "prefix (k @ [QUOTE]) x"
  then have "QUOTE \<in> set x" by (auto dest: set_mono_prefix)
  with assms show False by (simp add: no_quote_def)
qed

lemma join_quotes_Cons: "ss \<noteq> [] \<Longrightarrow> join_quotes (s # ss) = s @ QUOTE # join_quotes ss"
  by (cases ss) simp_all

lemma after_no_quote: "no_quote s \<Longrightarrow> after (QUOTE # p) (s @ t) = after (QUOTE # p) t"
  by (simp add: after_def find_first_skip option.map_comp comp_def add.assoc)

lemma after_at_quote:
  "after (QUOTE # p) (QUOTE # t) = (if prefix p t then Some (drop (length p) t) else after (QUOTE # p) t)"
  by (simp add: after_def option.map_comp comp_def)

lemma after_quoted_segment:
  assumes "no_quote k" and "no_quote s" and "no_quote x"
  shows "after (quoted k) (join_quotes (s # x # y # ss))
    = (if k = x then Some (join_quotes (y # ss)) else after (quoted k) (join_quotes (x # y # ss)))"
  using assms
  by (simp add: quoted_def join_quotes_Cons after_no_quote after_at_quote prefix_segment)

lemma after_quoted_last:
  assumes "no_quote k" and "no_quote s" and "no_quote x"
  shows "after (quoted k) (join_quotes [s, x]) = None"
proof -
  have "find_first (QUOTE # p) x = None" for p
    using find_first_skip [OF assms(3), of p "[]"] by simp
  then have "after (quoted k) x = None" by (simp add: after_def quoted_def)
  with assms show ?thesis
    by (simp add: quoted_def after_no_quote after_at_quote prefix_last_segment)
qed

lemma after_colon: "after '':'' (CHR '':'' # s) = Some s"
  by (simp add: after_def)

lemma after_quote: "no_quote s \<Longrightarrow> after [QUOTE] (join_quotes (s # t # ss)) = Some (join_quotes (t # ss))"
  by (simp add: after_no_quote after_at_quote)

lemma find_quote: "no_quote s \<Longrightarrow> find_first [QUOTE] (join_quotes (s # t # ss)) = Some (length s)"
  using find_first_skip [of s "[]" "QUOTE # join_quotes (t # ss)"] by simp

text \<open>A string member: its key, a colon, its value.\<close>

lemma join_quotes_colon:
  "join_quotes ((CHR '':'' # s) # ss) = CHR '':'' # join_quotes (s # ss)"
  by (cases ss) simp_all

definition string_member :: "string list \<Rightarrow> string option" where
  "string_member ss = (case ss of
     c # v # _ # _ \<Rightarrow> if c = '':'' then Some v else None | _ \<Rightarrow> None)"

lemma extract_string_found:
  assumes "after (quoted k) raw = Some (join_quotes ('':'' # v # w # ss))" and "no_quote v"
  shows "extract_json_string raw k = Some v"
proof -
  have "take (length v) (join_quotes (v # w # ss)) = v" by simp
  then show ?thesis
    using assms find_quote [OF assms(2)] after_quote [of "[]" v "w # ss"]
    by (simp add: extract_json_string_after join_quotes_colon after_colon del: join_quotes.simps(3))
qed

lemma extract_number_found:
  assumes "after (quoted k) raw = Some (CHR '':'' # n @ c # rest)"
    and "list_all is_digit n" and "n \<noteq> []" and "\<not> is_number_char c"
  shows "extract_json_number_as_string raw k = Some n"
proof -
  obtain d ds where n: "n = d # ds" "is_digit d" using assms(2,3) by (cases n) auto
  then have "dropWhile is_space (n @ c # rest) = n @ c # rest"
    by (simp add: digit_not_space)
  moreover have "takeWhile is_number_char (n @ c # rest) = n"
    using assms(2,4) by (intro takeWhile_stop) (auto simp: list_all_iff is_number_char_def)
  ultimately show ?thesis
    using assms(1,3) by (simp add: extract_json_number_after after_colon Let_def)
qed

section \<open>The Binance ticker\<close>

text \<open>The message of a Binance book ticker, as the venue sends it.\<close>

definition binance_text :: "Sequence \<Rightarrow> string \<Rightarrow> string \<Rightarrow> string \<Rightarrow> string \<Rightarrow> string \<Rightarrow> string" where
  "binance_text u symbol bid_px bid_qty ask_px ask_qty =
     join_quotes [''{'', ''u'', '':'' @ show_nat (unat u) @ '','', ''s'', '':'', symbol, '','',
       ''b'', '':'', bid_px, '','', ''B'', '':'', bid_qty, '','', ''a'', '':'', ask_px, '','',
       ''A'', '':'', ask_qty, ''}'']"

definition number_text :: "string \<Rightarrow> bool" where
  "number_text s \<longleftrightarrow> list_all is_number_char s"

lemma number_text_facts:
  assumes "number_text s"
  shows "no_quote s" "''B'' \<noteq> s" "''a'' \<noteq> s" "''A'' \<noteq> s"
  using assms
  by (auto simp: number_text_def no_quote_def list_all_iff is_number_char_def is_digit_def QUOTE_def)

lemma no_quote_show_nat [simp]: "no_quote (show_nat n)"
  using show_nat_digits [of QUOTE n] by (auto simp: no_quote_def is_digit_def QUOTE_def)

lemma single_segments:
  "no_quote ''u''" "no_quote ''s''" "no_quote ''b''" "no_quote ''B''" "no_quote ''a''" "no_quote ''A''"
  "no_quote ''{''" "no_quote '':''" "no_quote '',''" "no_quote ''}''"
  by (simp_all add: QUOTE_def)

lemma binance_fields:
  assumes "no_quote symbol" and "symbol \<notin> {''b'', ''B'', ''a'', ''A''}"
    and "number_text bid_px" and "number_text bid_qty" and "number_text ask_px" and "number_text ask_qty"
    and raw_def: "raw = binance_text u symbol bid_px bid_qty ask_px ask_qty"
  shows "extract_json_string raw ''s'' = Some symbol"
    and "extract_json_number_as_string raw ''u'' = Some (show_nat (unat u))"
    and "extract_json_string raw ''b'' = Some bid_px"
    and "extract_json_string raw ''B'' = Some bid_qty"
    and "extract_json_string raw ''a'' = Some ask_px"
    and "extract_json_string raw ''A'' = Some ask_qty"
proof -
  note seg = after_quoted_segment single_segments assms(1)
    number_text_facts [OF assms(3)] number_text_facts [OF assms(4)]
    number_text_facts [OF assms(5)] number_text_facts [OF assms(6)]
  have sym: "''b'' \<noteq> symbol" "''B'' \<noteq> symbol" "''a'' \<noteq> symbol" "''A'' \<noteq> symbol"
    using assms(2) by auto
  have s: "after (quoted ''s'') raw = Some (join_quotes ('':'' # symbol # '','' #
      [''b'', '':'', bid_px, '','', ''B'', '':'', bid_qty, '','', ''a'', '':'', ask_px, '','',
       ''A'', '':'', ask_qty, ''}'']))"
    unfolding raw_def binance_text_def using sym by (simp add: seg QUOTE_def del: join_quotes.simps)
  then show "extract_json_string raw ''s'' = Some symbol"
    by (rule extract_string_found) (rule assms(1))
  have b: "after (quoted ''b'') raw = Some (join_quotes ('':'' # bid_px # '','' #
      [''B'', '':'', bid_qty, '','', ''a'', '':'', ask_px, '','', ''A'', '':'', ask_qty, ''}'']))"
    unfolding raw_def binance_text_def using sym by (simp add: seg QUOTE_def del: join_quotes.simps)
  then show "extract_json_string raw ''b'' = Some bid_px"
    by (rule extract_string_found) (rule number_text_facts(1) [OF assms(3)])
  have B: "after (quoted ''B'') raw = Some (join_quotes ('':'' # bid_qty # '','' #
      [''a'', '':'', ask_px, '','', ''A'', '':'', ask_qty, ''}'']))"
    unfolding raw_def binance_text_def using sym by (simp add: seg QUOTE_def del: join_quotes.simps)
  then show "extract_json_string raw ''B'' = Some bid_qty"
    by (rule extract_string_found) (rule number_text_facts(1) [OF assms(4)])
  have a: "after (quoted ''a'') raw = Some (join_quotes ('':'' # ask_px # '','' #
      [''A'', '':'', ask_qty, ''}'']))"
    unfolding raw_def binance_text_def using sym by (simp add: seg QUOTE_def del: join_quotes.simps)
  then show "extract_json_string raw ''a'' = Some ask_px"
    by (rule extract_string_found) (rule number_text_facts(1) [OF assms(5)])
  have A: "after (quoted ''A'') raw = Some (join_quotes ('':'' # ask_qty # ''}'' # []))"
    unfolding raw_def binance_text_def using sym by (simp add: seg QUOTE_def del: join_quotes.simps)
  then show "extract_json_string raw ''A'' = Some ask_qty"
    by (rule extract_string_found) (rule number_text_facts(1) [OF assms(6)])
  have u: "after (quoted ''u'') raw = Some (CHR '':'' # show_nat (unat u) @ CHR '','' # QUOTE #
      join_quotes [''s'', '':'', symbol, '','',
       ''b'', '':'', bid_px, '','', ''B'', '':'', bid_qty, '','', ''a'', '':'', ask_px, '','',
       ''A'', '':'', ask_qty, ''}''])"
    unfolding raw_def binance_text_def
    by (simp add: seg QUOTE_def del: join_quotes.simps) (simp add: join_quotes_Cons QUOTE_def)
  then show "extract_json_number_as_string raw ''u'' = Some (show_nat (unat u))"
    by (rule extract_number_found)
       (simp add: list_all_iff show_nat_digits, simp, simp add: is_number_char_def is_digit_def)
qed

lemma binance_ticker_normalized:
  assumes "no_quote symbol" and "symbol \<notin> {''b'', ''B'', ''a'', ''A''}"
    and "number_text bid_px" and "number_text bid_qty" and "number_text ask_px" and "number_text ask_qty"
  shows "normalize_binance_book_ticker t1 t2
      (binance_text u symbol bid_px bid_qty ask_px ask_qty) symbol_id
    = (Some \<lparr>nmd_venue = Binance,
             nmd_update = make_update t1 t2 Binance symbol_id symbol
               (parse_price_to_ticks bid_px 100) (parse_quantity_to_units bid_qty)
               (parse_price_to_ticks ask_px 100) (parse_quantity_to_units ask_qty) u\<rparr>, [])"
proof -
  have "parse_sequence (show_nat (unat u)) = Some u"
    using parse_sequence_show_nat [of "unat u"] unsigned_less [of u, where ?'a = nat] by simp
  then show ?thesis
    by (simp add: normalize_binance_book_ticker_def binance_fields [OF assms refl])
qed



end
