(* ===== verification/Metrics.thy ===== *)
theory Metrics
  imports Effects "HOL-Library.Multiset"
begin

text \<open>
  The metrics registry of src/metrics.cpp: twelve counters, a ring of the last 65536 latencies, and
  the snapshot with its percentiles.  A percentile index is a product of doubles truncated to an
  integer; doubles are modelled exactly, as rounding of the exact product to 53 significant bits,
  ties to even.
\<close>

section \<open>Counters\<close>

definition metric_counters :: "MetricCounter list" where
  "metric_counters = [MarketDataReceived, SignalsGenerated, OrdersSent, OrdersRejected,
     AcksReceived, FillsReceived, QueueDrops, HeartbeatMisses, GatewayDisconnects, JournalWrites,
     ReplayEventsWritten, ReplayEventsRead]"

fun to_string_counter :: "MetricCounter \<Rightarrow> string" where
  "to_string_counter MarketDataReceived = ''market_data_received''"
| "to_string_counter SignalsGenerated = ''signals_generated''"
| "to_string_counter OrdersSent = ''orders_sent''"
| "to_string_counter OrdersRejected = ''orders_rejected''"
| "to_string_counter AcksReceived = ''acks_received''"
| "to_string_counter FillsReceived = ''fills_received''"
| "to_string_counter QueueDrops = ''queue_drops''"
| "to_string_counter HeartbeatMisses = ''heartbeat_misses''"
| "to_string_counter GatewayDisconnects = ''gateway_disconnects''"
| "to_string_counter JournalWrites = ''journal_writes''"
| "to_string_counter ReplayEventsWritten = ''replay_events_written''"
| "to_string_counter ReplayEventsRead = ''replay_events_read''"

definition LATENCY_CAPACITY :: nat where "LATENCY_CAPACITY = 2 ^ 16"

record MetricsRegistry =
  mr_counters :: "MetricCounter \<Rightarrow> u64"
  mr_latency_write_index :: u64
  mr_latency_samples :: "u64 list"

definition metrics_new :: MetricsRegistry where
  "metrics_new = \<lparr>mr_counters = (\<lambda>_. 0), mr_latency_write_index = 0,
     mr_latency_samples = replicate LATENCY_CAPACITY 0\<rparr>"

definition metrics_increment :: "MetricCounter \<Rightarrow> u64 \<Rightarrow> MetricsRegistry \<Rightarrow> MetricsRegistry" where
  "metrics_increment c v r = r\<lparr>mr_counters := (mr_counters r)(c := mr_counters r c + v)\<rparr>"

definition metrics_observe_latency :: "u64 \<Rightarrow> MetricsRegistry \<Rightarrow> MetricsRegistry" where
  "metrics_observe_latency latency r =
     r\<lparr>mr_latency_write_index := mr_latency_write_index r + 1,
       mr_latency_samples := (mr_latency_samples r)
         [unat (mr_latency_write_index r) mod LATENCY_CAPACITY := latency]\<rparr>"

section \<open>Percentiles\<close>

fun bit_count :: "nat \<Rightarrow> nat" where
  "bit_count n = (if n = 0 then 0 else Suc (bit_count (n div 2)))"

declare bit_count.simps [simp del]

lemma bit_count_0 [simp]: "bit_count 0 = 0"
  by (simp add: bit_count.simps)

text \<open>\<open>n\<close> rounded to a multiple of \<open>2 ^ e\<close>, to the nearest, ties to the even multiple.\<close>

definition round_at :: "nat \<Rightarrow> nat \<Rightarrow> nat" where
  "round_at e n =
     (let q = n div 2 ^ e; r = n mod 2 ^ e
      in if 2 * r < 2 ^ e \<or> (2 * r = 2 ^ e \<and> even q) then q * 2 ^ e else (q + 1) * 2 ^ e)"

definition round53 :: "nat \<Rightarrow> nat" where
  "round53 n = round_at (bit_count n - 53) n"

text \<open>The doubles 0.50, 0.99 and 0.999 as multiples of 2 to the power minus 53.\<close>

definition p50 :: nat where "p50 = 4503599627370496"
definition p99 :: nat where "p99 = 8917127262193582"
definition p999 :: nat where "p999 = 8998192055486251"

definition percentile_index :: "nat \<Rightarrow> nat \<Rightarrow> nat" where
  "percentile_index p n = round53 (p * (n - 1)) div 2 ^ 53"

record MetricsSnapshot =
  ms_counters :: "MetricCounter \<Rightarrow> u64"
  ms_latency_count :: u64
  ms_latency_min_ns :: u64
  ms_latency_p50_ns :: u64
  ms_latency_p99_ns :: u64
  ms_latency_p999_ns :: u64
  ms_latency_max_ns :: u64

definition metrics_snapshot :: "MetricsRegistry \<Rightarrow> MetricsSnapshot" where
  "metrics_snapshot r =
     (let snap = \<lparr>ms_counters = mr_counters r, ms_latency_count = 0, ms_latency_min_ns = 0,
                  ms_latency_p50_ns = 0, ms_latency_p99_ns = 0, ms_latency_p999_ns = 0,
                  ms_latency_max_ns = 0\<rparr>;
          count = min (unat (mr_latency_write_index r)) LATENCY_CAPACITY
      in if count = 0 then snap
         else
           let values = filter (\<lambda>v. v > 0) (take count (mr_latency_samples r))
           in if values = [] then snap
              else
                let values' = sort values
                in snap\<lparr>ms_latency_count := of_nat (length values'),
                        ms_latency_min_ns := hd values',
                        ms_latency_p50_ns := values' ! percentile_index p50 (length values'),
                        ms_latency_p99_ns := values' ! percentile_index p99 (length values'),
                        ms_latency_p999_ns := values' ! percentile_index p999 (length values'),
                        ms_latency_max_ns := last values'\<rparr>)"

section \<open>The report line\<close>

definition json_number :: "string \<Rightarrow> u64 \<Rightarrow> string" where
  "json_number key v = [CHR 0x22] @ key @ [CHR 0x22] @ '':'' @ show_nat (unat v)"

definition metrics_jsonl :: "TimestampNs \<Rightarrow> MetricsRegistry \<Rightarrow> string" where
  "metrics_jsonl now r =
     (let snap = metrics_snapshot r
      in ''{'' @ json_number ''ts_ns'' now
         @ concat (map (\<lambda>c. '','' @ json_number (to_string_counter c) (ms_counters snap c)) metric_counters)
         @ '','' @ json_number ''latency_count'' (ms_latency_count snap)
         @ '','' @ json_number ''latency_min_ns'' (ms_latency_min_ns snap)
         @ '','' @ json_number ''latency_p50_ns'' (ms_latency_p50_ns snap)
         @ '','' @ json_number ''latency_p99_ns'' (ms_latency_p99_ns snap)
         @ '','' @ json_number ''latency_p999_ns'' (ms_latency_p999_ns snap)
         @ '','' @ json_number ''latency_max_ns'' (ms_latency_max_ns snap)
         @ ''}'' @ [CHR 0x0A])"

text \<open>
  The report tool of apps/metrics_report.cpp prints the last line that is not empty of each file;
  \<open>None\<close> is a missing file.
\<close>

fun last_nonempty :: "string list \<Rightarrow> string \<Rightarrow> string" where
  "last_nonempty [] last_line = last_line"
| "last_nonempty (line # lines) last_line =
     last_nonempty lines (if line \<noteq> [] then line else last_line)"

definition metrics_report_file :: "string \<Rightarrow> string list option \<Rightarrow> string list" where
  "metrics_report_file path lines =
     [[], ''== '' @ path @ '' ==''] @
     (case lines of
        None \<Rightarrow> [''missing'']
      | Some ls \<Rightarrow> (let l = last_nonempty ls [] in if l = [] then [''empty''] else [l]))"

section \<open>Rounding is monotone\<close>

lemma bit_count_bounds: "0 < n \<Longrightarrow> 2 ^ (bit_count n - 1) \<le> n \<and> n < 2 ^ bit_count n \<and> 0 < bit_count n"
proof (induction n rule: bit_count.induct)
  case (1 n)
  show ?case
  proof (cases "n div 2 = 0")
    case True
    with "1.prems" have "n = 1" by simp
    then show ?thesis by (simp add: bit_count.simps)
  next
    case False
    with "1" have IH: "2 ^ (bit_count (n div 2) - 1) \<le> n div 2" "n div 2 < 2 ^ bit_count (n div 2)"
      "0 < bit_count (n div 2)" by auto
    then obtain k where k: "bit_count (n div 2) = Suc k" by (cases "bit_count (n div 2)") auto
    have "bit_count n = Suc (Suc k)" using "1.prems" k by (subst bit_count.simps) simp
    moreover have "2 ^ Suc k \<le> n" "n < 2 ^ Suc (Suc k)" using IH k by simp_all
    ultimately show ?thesis by simp
  qed
qed

lemma bit_count_mono: "n \<le> m \<Longrightarrow> bit_count n \<le> bit_count m"
proof (cases "n = 0")
  case True
  then show "n \<le> m \<Longrightarrow> ?thesis" by simp
next
  case False
  assume le: "n \<le> m"
  then have "2 ^ (bit_count n - 1) \<le> n" "m < 2 ^ bit_count m" "0 < bit_count n"
    using False bit_count_bounds by auto
  with le have "(2::nat) ^ (bit_count n - 1) < 2 ^ bit_count m" by linarith
  then have "bit_count n - 1 < bit_count m" by (simp add: power_strict_increasing_iff)
  with \<open>0 < bit_count n\<close> show ?thesis by simp
qed

lemma round_at_multiple [simp]: "round_at e (q * 2 ^ e) = q * 2 ^ e"
  by (simp add: round_at_def)

lemma round_at_bounds: "n div 2 ^ e * 2 ^ e \<le> round_at e n" "round_at e n \<le> (n div 2 ^ e + 1) * 2 ^ e"
  by (auto simp: round_at_def Let_def)

lemma round_at_mono: "n \<le> m \<Longrightarrow> round_at e n \<le> round_at e m"
proof -
  assume le: "n \<le> m"
  then have q: "n div 2 ^ e \<le> m div 2 ^ e" by (rule div_le_mono)
  show ?thesis
  proof (cases "n div 2 ^ e = m div 2 ^ e")
    case True
    then have "n mod 2 ^ e \<le> m mod 2 ^ e"
      using le by (metis add_le_cancel_left div_mult_mod_eq)
    with True show ?thesis by (auto simp: round_at_def Let_def)
  next
    case False
    with q have "n div 2 ^ e + 1 \<le> m div 2 ^ e" by simp
    then have "(n div 2 ^ e + 1) * 2 ^ e \<le> m div 2 ^ e * 2 ^ e" by (rule mult_le_mono1)
    with round_at_bounds(2) [of e n] round_at_bounds(1) [of m e] show ?thesis by linarith
  qed
qed

lemma power_of_two_multiple: "e \<le> k \<Longrightarrow> (2::nat) ^ k = 2 ^ (k - e) * 2 ^ e"
  by (simp add: power_add [symmetric])

lemma round53_mono:
  assumes "n \<le> m"
  shows "round53 n \<le> round53 m"
proof (cases "bit_count n = bit_count m \<or> n = 0")
  case True
  with assms show ?thesis
    by (auto simp: round53_def round_at_mono) (simp add: round_at_def)
next
  case False
  let ?k = "bit_count n" and ?l = "bit_count m"
  have less: "?k < ?l" using False bit_count_mono [OF assms] by simp
  have n: "0 < n" "n < 2 ^ ?k" "0 < ?k" using False bit_count_bounds [of n] by auto
  have m: "2 ^ (?l - 1) \<le> m" using False assms bit_count_bounds [of m] by auto
  have "round53 n \<le> round_at (?k - 53) (2 ^ ?k)"
    unfolding round53_def using n by (intro round_at_mono) simp
  also have "\<dots> = 2 ^ ?k"
    using power_of_two_multiple [of "?k - 53" ?k] round_at_multiple by (metis diff_le_self)
  also have "\<dots> \<le> 2 ^ (?l - 1)"
    using less by (intro power_increasing) auto
  also have "\<dots> = round_at (?l - 53) (2 ^ (?l - 1))"
    using power_of_two_multiple [of "?l - 53" "?l - 1"] round_at_multiple by (metis diff_le_mono2 one_le_numeral)
  also have "\<dots> \<le> round53 m"
    unfolding round53_def using m by (rule round_at_mono)
  finally show ?thesis .
qed

lemma round53_exact: "k < 2 ^ 53 \<Longrightarrow> round53 (2 ^ 53 * k) = 2 ^ 53 * k"
proof (cases "k = 0")
  case True
  then show ?thesis by (simp add: round53_def round_at_def)
next
  case False
  assume k: "k < 2 ^ 53"
  let ?n = "2 ^ 53 * k"
  have "2 ^ (bit_count ?n - 1) \<le> ?n" "?n < 2 ^ 106"
    using False k bit_count_bounds [of ?n] by auto
  then have "(2::nat) ^ (bit_count ?n - 1) < 2 ^ 106" by linarith
  then have "bit_count ?n - 1 < 106" by (simp only: power_strict_increasing_iff)
  then have "bit_count ?n - 53 \<le> 53" by simp
  then have "?n = (2 ^ (53 - (bit_count ?n - 53)) * k) * 2 ^ (bit_count ?n - 53)"
    by (subst power_of_two_multiple [of "bit_count ?n - 53" 53]) simp_all
  then show ?thesis unfolding round53_def by (metis round_at_multiple)
qed

lemma percentile_index_mono: "p \<le> q \<Longrightarrow> percentile_index p n \<le> percentile_index q n"
  unfolding percentile_index_def by (intro div_le_mono round53_mono mult_le_mono1)

lemma percentile_index_bound:
  assumes "p \<le> 2 ^ 53" and "n \<le> 2 ^ 53"
  shows "percentile_index p n \<le> n - 1"
proof (cases "n = 0")
  case True
  then show ?thesis by (simp add: percentile_index_def round53_def round_at_def)
next
  case False
  have "percentile_index p n \<le> percentile_index (2 ^ 53) n"
    using assms(1) by (rule percentile_index_mono)
  also have "\<dots> = n - 1"
    using False assms(2) by (simp only: percentile_index_def, subst round53_exact) auto
  finally show ?thesis .
qed

section \<open>Runs of the registry\<close>

text \<open>What the registry does with the effects of the other components.\<close>

fun metrics_apply :: "effect list \<Rightarrow> MetricsRegistry \<Rightarrow> MetricsRegistry" where
  "metrics_apply [] r = r"
| "metrics_apply (MetricInc c v # es) r = metrics_apply es (metrics_increment c v r)"
| "metrics_apply (MetricLatency ns # es) r = metrics_apply es (metrics_observe_latency ns r)"
| "metrics_apply (_ # es) r = metrics_apply es r"

fun latencies :: "effect list \<Rightarrow> u64 list" where
  "latencies [] = []"
| "latencies (MetricLatency ns # es) = ns # latencies es"
| "latencies (_ # es) = latencies es"

lemma metrics_apply_counters:
  "mr_counters (metrics_apply es r) c = mr_counters r c + of_nat (inc_count c es)"
  by (induction es r rule: metrics_apply.induct)
     (auto simp: metrics_increment_def metrics_observe_latency_def)

text \<open>The ring depends on the latencies only.\<close>

definition ring_of :: "u64 list \<Rightarrow> MetricsRegistry" where
  "ring_of ls = fold metrics_observe_latency ls metrics_new"

lemma ring_of_simps:
  "ring_of [] = metrics_new"
  "ring_of (ls @ [x]) = metrics_observe_latency x (ring_of ls)"
  by (simp_all add: ring_of_def)

lemma observe_increment:
  "metrics_observe_latency x (metrics_increment c v r)
   = metrics_increment c v (metrics_observe_latency x r)"
  by (simp add: metrics_increment_def metrics_observe_latency_def)

lemma fold_observe_increment:
  "fold metrics_observe_latency ls (metrics_increment c v r)
   = metrics_increment c v (fold metrics_observe_latency ls r)"
  by (induction ls arbitrary: r) (simp_all add: observe_increment)

lemma metrics_apply_ring:
  "mr_latency_write_index (metrics_apply es r)
     = mr_latency_write_index (fold metrics_observe_latency (latencies es) r)
   \<and> mr_latency_samples (metrics_apply es r)
     = mr_latency_samples (fold metrics_observe_latency (latencies es) r)"
  by (induction es r rule: metrics_apply.induct)
     (simp_all add: fold_observe_increment, simp_all add: metrics_increment_def)

text \<open>Slot by slot, the ring holds the latencies of its window.\<close>

lemma capacity_pos: "0 < LATENCY_CAPACITY"
  by (simp add: LATENCY_CAPACITY_def)

lemma mod_differs: "a < b \<Longrightarrow> b - a < c \<Longrightarrow> a mod c \<noteq> b mod (c :: nat)"
  using mod_eq_dvd_iff_nat [of a b c] by (auto dest: dvd_imp_le)

lemma ring_slots:
  assumes "length ls < 2 ^ 64"
  shows "unat (mr_latency_write_index (ring_of ls)) = length ls
    \<and> length (mr_latency_samples (ring_of ls)) = LATENCY_CAPACITY
    \<and> (\<forall>j<length ls. length ls \<le> j + LATENCY_CAPACITY \<longrightarrow>
         mr_latency_samples (ring_of ls) ! (j mod LATENCY_CAPACITY) = ls ! j)"
  using assms
proof (induction ls rule: rev_induct)
  case Nil
  then show ?case by (simp add: metrics_new_def ring_of_simps)
next
  case (snoc x ls)
  let ?s = "mr_latency_samples (ring_of ls)"
  have IH: "unat (mr_latency_write_index (ring_of ls)) = length ls" "length ?s = LATENCY_CAPACITY"
    "\<And>j. j < length ls \<Longrightarrow> length ls \<le> j + LATENCY_CAPACITY \<Longrightarrow>
       ?s ! (j mod LATENCY_CAPACITY) = ls ! j"
    using snoc by auto
  have index: "unat (mr_latency_write_index (ring_of ls) + 1) = Suc (length ls)"
    using snoc.prems IH(1) by (simp add: unat_plus_one_u64)
  have "?s[length ls mod LATENCY_CAPACITY := x] ! (j mod LATENCY_CAPACITY) = (ls @ [x]) ! j"
    if j: "j \<le> length ls" "Suc (length ls) \<le> j + LATENCY_CAPACITY" for j
  proof (cases "j = length ls")
    case True
    then show ?thesis using capacity_pos IH(2) by simp
  next
    case False
    then have less: "j < length ls" "length ls - j < LATENCY_CAPACITY" using j by auto
    with mod_differs [OF less] IH(3) [of j] j show ?thesis by (simp add: nth_append)
  qed
  with index IH(1,2) show ?case
    by (auto simp: metrics_observe_latency_def ring_of_simps less_Suc_eq_le)
qed

text \<open>The values a snapshot works on are the last 65536 latencies, in some order.\<close>

definition latency_window :: "u64 list \<Rightarrow> u64 list" where
  "latency_window ls = drop (length ls - LATENCY_CAPACITY) ls"

lemma ring_multiset:
  "length ls < 2 ^ 64 \<Longrightarrow>
   mset (take (min (length ls) LATENCY_CAPACITY) (mr_latency_samples (ring_of ls)))
   = mset (latency_window ls)"
proof (induction ls rule: rev_induct)
  case Nil
  then show ?case by (simp add: latency_window_def)
next
  case (snoc x ls)
  let ?s = "mr_latency_samples (ring_of ls)" and ?n = "length ls" and ?c = LATENCY_CAPACITY
  have small: "length ls < 2 ^ 64" using snoc.prems by simp
  note slots = ring_slots [OF small]
  have step: "mr_latency_samples (ring_of (ls @ [x])) = ?s[?n mod ?c := x]"
    using slots by (simp add: ring_of_simps metrics_observe_latency_def)
  show ?case
  proof (cases "?n < ?c")
    case True
    then have "take (Suc ?n) (?s[?n := x]) = take ?n ?s @ [x]"
      using slots by (simp add: take_Suc_conv_app_nth)
    moreover have "drop (Suc ?n - ?c) (ls @ [x]) = ls @ [x]" "drop (?n - ?c) ls = ls"
      using True by simp_all
    ultimately show ?thesis using True snoc.IH [OF small]
      by (simp add: step latency_window_def del: drop_append)
  next
    case False
    have "(?n - ?c) mod ?c = ?n mod ?c" using False by (simp add: le_mod_geq [symmetric])
    moreover have "?n - ?c < ?n" using False capacity_pos by simp
    ultimately have old: "?s ! (?n mod ?c) = ls ! (?n - ?c)"
      using slots False by (metis le_add_diff_inverse2 le_refl not_less)
    have "?n mod ?c < length ?s" using slots capacity_pos by simp
    then have "mset (?s[?n mod ?c := x]) = add_mset x (mset ?s - {#ls ! (?n - ?c)#})"
      by (simp add: mset_update old)
    moreover have "mset ?s = mset (drop (?n - ?c) ls)"
      using snoc.IH [OF small] False slots by (simp add: latency_window_def min_def)
    moreover have "drop (?n - ?c) ls = ls ! (?n - ?c) # drop (Suc ?n - ?c) ls"
      using False \<open>?n - ?c < ?n\<close> by (simp add: Cons_nth_drop_Suc [symmetric] Suc_diff_le)
    moreover have "Suc 0 - ?c = 0" using capacity_pos by simp
    ultimately show ?thesis
      using False slots by (simp add: step latency_window_def min_def)
  qed
qed

lemma metrics_snapshot_values:
  assumes "length (latencies es) < 2 ^ 64"
    and "vs = sort (filter (\<lambda>v. 0 < v) (latency_window (latencies es)))"
  shows "metrics_snapshot (metrics_apply es metrics_new) =
    (let snap = \<lparr>ms_counters = mr_counters (metrics_apply es metrics_new), ms_latency_count = 0,
                 ms_latency_min_ns = 0, ms_latency_p50_ns = 0, ms_latency_p99_ns = 0,
                 ms_latency_p999_ns = 0, ms_latency_max_ns = 0\<rparr>
     in if vs = [] then snap
        else snap\<lparr>ms_latency_count := of_nat (length vs), ms_latency_min_ns := hd vs,
                  ms_latency_p50_ns := vs ! percentile_index p50 (length vs),
                  ms_latency_p99_ns := vs ! percentile_index p99 (length vs),
                  ms_latency_p999_ns := vs ! percentile_index p999 (length vs),
                  ms_latency_max_ns := last vs\<rparr>)"
proof -
  let ?r = "metrics_apply es metrics_new"
  let ?count = "min (unat (mr_latency_write_index ?r)) LATENCY_CAPACITY"
  let ?taken = "filter (\<lambda>v. v > 0) (take ?count (mr_latency_samples ?r))"
  have ring: "mr_latency_write_index ?r = mr_latency_write_index (ring_of (latencies es))"
    "mr_latency_samples ?r = mr_latency_samples (ring_of (latencies es))"
    using metrics_apply_ring [of es metrics_new] by (simp_all add: ring_of_def)
  have "mset (take ?count (mr_latency_samples ?r)) = mset (latency_window (latencies es))"
    using ring_multiset [OF assms(1)] ring_slots [OF assms(1)] by (simp add: ring)
  then have "mset ?taken = mset (filter (\<lambda>v. 0 < v) (latency_window (latencies es)))"
    by (simp add: mset_filter)
  then have vs: "sort ?taken = vs"
    unfolding assms(2) by (intro properties_for_sort) simp_all
  then have nil: "?taken = [] \<longleftrightarrow> vs = []" by (metis length_0_conv length_sort)
  have empty: "?count = 0 \<Longrightarrow> ?taken = []" by simp
  show ?thesis
  proof (cases "?taken = []")
    case True
    then show ?thesis
      using nil by (simp only: metrics_snapshot_def Let_def if_True if_cancel simp_thms)
  next
    case False
    then have "?count \<noteq> 0" using empty by blast
    with False show ?thesis
      using nil by (simp only: metrics_snapshot_def Let_def vs if_False simp_thms)
  qed
qed

text \<open>
  C40.  The metrics are what was reported: after any effects of the program (with fewer than 2 to the
  power 64 latencies) every counter is the sum of its increments modulo 2 to the power 64, and the
  latency figures describe exactly the non-zero latencies among the last 65536: their number, least
  and greatest value, and percentiles that are observed values in the order minimum, p50, p99, p999,
  maximum.
\<close>

theorem metrics_snapshot_correct:
  assumes "length (latencies es) < 2 ^ 64"
    and "vs = sort (filter (\<lambda>v. 0 < v) (latency_window (latencies es)))"
    and "s = metrics_snapshot (metrics_apply es metrics_new)"
  shows "unat (ms_counters s c) = inc_count c es mod 2 ^ 64
    \<and> unat (ms_latency_count s) = length vs
    \<and> (vs \<noteq> [] \<longrightarrow> ms_latency_min_ns s = Min (set vs) \<and> ms_latency_max_ns s = Max (set vs)
         \<and> {ms_latency_p50_ns s, ms_latency_p99_ns s, ms_latency_p999_ns s} \<subseteq> set vs
         \<and> sorted [ms_latency_min_ns s, ms_latency_p50_ns s, ms_latency_p99_ns s,
                   ms_latency_p999_ns s, ms_latency_max_ns s])"
proof -
  note snap = metrics_snapshot_values [OF assms(1,2), folded assms(3)]
  have "ms_counters s c = of_nat (inc_count c es)"
    by (simp add: snap Let_def metrics_apply_counters metrics_new_def)
  then have counter: "unat (ms_counters s c) = inc_count c es mod 2 ^ 64"
    by (simp add: unat_of_nat)
  have "length vs \<le> length (latency_window (latencies es))"
    by (simp add: assms(2))
  also have "\<dots> \<le> 2 ^ 16" by (simp add: latency_window_def LATENCY_CAPACITY_def)
  finally have len: "length vs \<le> 2 ^ 16" .
  then have "unat (of_nat (length vs) :: u64) = length vs" by (intro unat_of_nat_u64) simp
  then have count: "unat (ms_latency_count s) = length vs"
    by (simp add: snap Let_def)
  have sorted: "sorted vs" by (simp add: assms(2))
  have figures: "ms_latency_min_ns s = Min (set vs) \<and> ms_latency_max_ns s = Max (set vs)
     \<and> {ms_latency_p50_ns s, ms_latency_p99_ns s, ms_latency_p999_ns s} \<subseteq> set vs
     \<and> sorted [ms_latency_min_ns s, ms_latency_p50_ns s, ms_latency_p99_ns s,
               ms_latency_p999_ns s, ms_latency_max_ns s]" if ne: "vs \<noteq> []"
  proof -
    have nb: "percentile_index p (length vs) < length vs" if "p \<le> 2 ^ 53" for p
      using percentile_index_bound [OF that, of "length vs"] len ne
      by (cases "length vs") auto
    have p: "p50 \<le> 2 ^ 53" "p99 \<le> 2 ^ 53" "p999 \<le> 2 ^ 53" "p50 \<le> p99" "p99 \<le> p999"
      by (simp_all add: p50_def p99_def p999_def)
    have le: "vs ! percentile_index q (length vs) \<le> vs ! percentile_index q' (length vs)"
      if "q \<le> q'" "q' \<le> 2 ^ 53" for q q'
      using sorted_nth_mono [OF sorted percentile_index_mono [OF that(1)] nb [OF that(2)]] .
    have ends: "hd vs = vs ! 0" "last vs = vs ! (length vs - 1)"
      using ne by (simp_all add: hd_conv_nth last_conv_nth)
    have lo: "vs ! 0 \<le> vs ! i" and hi: "vs ! i \<le> vs ! (length vs - 1)" if "i < length vs" for i
      using that sorted by (auto intro: sorted_nth_mono)
    have bound: "hd vs \<le> y \<and> y \<le> last vs" if "y \<in> set vs" for y
      using that lo hi by (auto simp: ends in_set_conv_nth)
    have "Min (set vs) = hd vs" "Max (set vs) = last vs"
      using hd_in_set [OF ne] last_in_set [OF ne] bound by (auto intro!: Min_eqI Max_eqI)
    with ne nb p le lo hi show ?thesis
      by (simp add: snap Let_def ends)
  qed
  with counter count show ?thesis by blast
qed

theorem metrics_snapshot_correct_witness:
  "unat (ms_latency_count (metrics_snapshot (metrics_apply
      [MetricLatency 30, metric_inc AcksReceived, MetricLatency 0, MetricLatency 10] metrics_new))) = 2"
  using metrics_snapshot_correct [OF _ refl refl,
      of "[MetricLatency 30, metric_inc AcksReceived, MetricLatency 0, MetricLatency 10]" AcksReceived]
  by (simp add: metric_inc_def latency_window_def LATENCY_CAPACITY_def)

end
