(* ===== verification/Live_Router.thy ===== *)
theory Live_Router
  imports Venue_Router Kill_Switch Journal Replay
begin

text \<open>
  The live router of apps/live_multi_venue_router.cpp: nine feed threads call \<open>process_update\<close> on
  one shared state under its mutex, so a session is the sequence of the calls in the order they take
  the lock.  A call checks the kill switch, updates the router, and records the update and the two
  routes it leads to in the replay log and in the journal.

  What a call gets from outside is a \<open>LiveEnv\<close>: whether the halt file exists, the clock readings by
  their place in the call, the answers of the file system to each record, and the order in which an
  iteration visits the router's container.
\<close>

section \<open>State\<close>

record LiveEnv =
  le_halt :: bool
  le_now :: "nat \<Rightarrow> TimestampNs"
  le_write_answers :: "nat \<Rightarrow> int list"
  le_fault :: "nat \<Rightarrow> nat option"
  le_can_open :: bool
  le_pad :: "nat \<Rightarrow> nat \<Rightarrow> byte"
  le_copy_pad :: "nat \<Rightarrow> nat \<Rightarrow> byte"
  le_visit :: "MultiVenueRouter \<Rightarrow> MultiVenueRouter"

record LiveState =
  ls_router :: MultiVenueRouter
  ls_replay :: ReplayWriter
  ls_journal :: JournalWriter
  ls_kill :: KillSwitch
  ls_replay_seq :: Sequence
  ls_journal_seq :: Sequence
  ls_signal_seq :: Sequence
  ls_updates_seen :: u64
  ls_routes_seen :: u64

definition live_limits :: KillSwitchLimits where
  "live_limits = \<lparr>ksl_max_routes_per_run = 1000000, ksl_max_rejects_per_run = 100,
     ksl_max_gateway_disconnects = 5\<rparr>"

text \<open>The state as constructed; the arguments are the files at the two paths.\<close>

definition live_state_new :: "byte list \<Rightarrow> byte list \<Rightarrow> LiveState" where
  "live_state_new replay_file journal_file =
     \<lparr>ls_router = [], ls_replay = replay_writer_new RW_Truncate NR_Simulator replay_file,
      ls_journal = journal_writer_new journal_file, ls_kill = kill_switch_new live_limits,
      ls_replay_seq = 0, ls_journal_seq = 0, ls_signal_seq = 0, ls_updates_seen = 0,
      ls_routes_seen = 0\<rparr>"

section \<open>process_update\<close>

definition make_market_data_env :: "MarketDataUpdate \<Rightarrow> Envelope" where
  "make_market_data_env update = market_data_env update"

definition make_route_signal_env :: "TimestampNs \<Rightarrow> RouteDecision \<Rightarrow> Sequence \<Rightarrow> Envelope" where
  "make_route_signal_env t decision seq =
     signal_env (Signal0\<lparr>sig_header := MessageHeader0\<lparr>hdr_type := MT_Signal,
         hdr_source_node := 2, hdr_destination_node := 3, hdr_sequence := seq,
         hdr_send_ts_ns := t\<rparr>,
       sig_symbol_id := rt_symbol_id decision, sig_side := rt_side decision,
       sig_limit_px := rt_limit_px decision, sig_qty := rt_qty decision,
       sig_confidence_bps := 9000\<rparr>)"

text \<open>
  The pair of appends that follows every envelope; \<open>k\<close> counts the envelopes of the call, \<open>c\<close> the
  clock readings before.
\<close>

definition live_record :: "LiveEnv \<Rightarrow> nat \<Rightarrow> nat \<Rightarrow> Envelope \<Rightarrow> LiveState \<Rightarrow> effect list \<times> LiveState" where
  "live_record env k c e st =
     (let replay_seq = ls_replay_seq st + 1;
          (_, es, _, replay_writer) = replay_append (le_write_answers env k) (le_pad env k)
             (le_copy_pad env k) e replay_seq (le_now env c) (ls_replay st);
          journal_seq = ls_journal_seq st + 1;
          (_, fs, journal) = journal_append (le_can_open env) (le_fault env k) (le_pad env k)
             (le_now env (c + 1)) JR_RuntimeMarker e journal_seq (ls_journal st)
      in (es @ fs, st\<lparr>ls_replay_seq := replay_seq, ls_replay := replay_writer,
                      ls_journal_seq := journal_seq, ls_journal := journal\<rparr>))"

text \<open>The block of a routeable decision; the buy and the sell block differ in the log component.\<close>

definition live_route ::
  "LiveEnv \<Rightarrow> nat \<Rightarrow> nat \<Rightarrow> string \<Rightarrow> RouteDecision \<Rightarrow> LiveState \<Rightarrow> effect list \<times> LiveState" where
  "live_route env k c component route st =
     (if \<not> rt_routeable route then ([], st)
      else
        let (es, kill) = ks_on_route (le_now env c) (ls_kill st);
            signal_seq = ls_signal_seq st + 1;
            route_env = make_route_signal_env (le_now env (c + 1)) route signal_seq;
            (fs, st1) = live_record env k (c + 2) route_env
                          (st\<lparr>ls_kill := kill, ls_signal_seq := signal_seq\<rparr>)
        in (es @ [metric_inc SignalsGenerated] @ fs @ [Log Info component (rt_reason route)],
            st1\<lparr>ls_routes_seen := ls_routes_seen st1 + 1\<rparr>))"

text \<open>
  The line of a book; a symbol without terminator would be read past its end, but the books hold
  symbols made by the constructor, which terminates them.
\<close>

definition live_book_line :: "VenueTopOfBook \<Rightarrow> string option" where
  "live_book_line book = map_option (\<lambda>sym. ''venue='' @ to_string_venue (vtob_venue book)
     @ '' symbol='' @ sym @ '' bid='' @ show_int (sint (vtob_bid_px book))
     @ '' ask='' @ show_int (sint (vtob_ask_px book))
     @ '' seq='' @ show_nat (unat (vtob_exchange_sequence book))) (Symbol_str (vtob_symbol book))"

definition live_report :: "LiveEnv \<Rightarrow> LiveState \<Rightarrow> effect list" where
  "live_report env st =
     (if ls_updates_seen st mod 100 \<noteq> 0 then []
      else [WriteJsonl ''metrics/live_multi_venue_router.jsonl'',
            Stdout (''updates='' @ show_nat (unat (ls_updates_seen st))
              @ '' routes='' @ show_nat (unat (ls_routes_seen st))
              @ '' books='' @ show_nat (length (router_books (ls_router st))))]
           @ map Stdout (List.map_filter live_book_line (router_books (le_visit env (ls_router st)))))"

definition live_probe :: "SymbolId \<Rightarrow> Side \<Rightarrow> Signal" where
  "live_probe sid side = Signal0\<lparr>sig_symbol_id := sid, sig_side := side, sig_qty := 1\<rparr>"

definition process_update ::
  "LiveEnv \<Rightarrow> NormalizedMarketData \<Rightarrow> LiveState \<Rightarrow> effect list \<times> LiveState" where
  "process_update env md st =
     (let now = le_now env 0;
          (enabled, es0, kill) = ks_trading_enabled (le_now env 1) (le_halt env) (ls_kill st);
          st0 = st\<lparr>ls_kill := kill\<rparr>
      in if \<not> enabled then (es0, st0)
         else
           let update = nmd_update md; recv = hdr_recv_ts_ns (md_header update);
               es1 = es0 @ [metric_inc MarketDataReceived]
                     @ (if recv > 0 \<and> now \<ge> recv then [MetricLatency (now - recv)] else []);
               (ok, router) = router_update md (ls_router st0);
               st1 = st0\<lparr>ls_router := router\<rparr>
           in if \<not> ok
              then (es1 @ [metric_inc QueueDrops, Log Warn ''live_multi_venue_router''
                             ''rejected invalid market data update''], st1)
              else
                let (es2, st2) = live_record env 0 2 (make_market_data_env update) st1;
                    st3 = st2\<lparr>ls_updates_seen := ls_updates_seen st2 + 1\<rparr>;
                    books = le_visit env (ls_router st3);
                    buy_route = route_signal (live_probe (md_symbol_id update) Buy) books;
                    sell_route = route_signal (live_probe (md_symbol_id update) Sell) books;
                    (es3, st4) = live_route env 1 4 ''router_buy'' buy_route st3;
                    (es4, st5) = live_route env 2 8 ''router_sell'' sell_route st4
                in (es1 @ es2 @ es3 @ es4 @ live_report env st5, st5))"

section \<open>A session\<close>

fun live_run :: "(LiveEnv \<times> NormalizedMarketData) list \<Rightarrow> LiveState \<Rightarrow> effect list \<times> LiveState" where
  "live_run [] st = ([], st)"
| "live_run ((env, md) # calls) st =
     (let (es, st1) = process_update env md st; (fs, st2) = live_run calls st1 in (es @ fs, st2))"

definition live_open :: "int \<Rightarrow> bool \<Rightarrow> LiveState \<Rightarrow> effect list \<times> LiveState" where
  "live_open fd can_open st =
     (let (_, es, replay_writer) = replay_writer_open fd (ls_replay st);
          (_, fs, journal) = journal_open can_open (ls_journal st)
      in (es @ fs, st\<lparr>ls_replay := replay_writer, ls_journal := journal\<rparr>))"

definition live_main ::
  "int \<Rightarrow> bool \<Rightarrow> (LiveEnv \<times> NormalizedMarketData) list \<Rightarrow> byte list \<Rightarrow> byte list
   \<Rightarrow> effect list \<times> LiveState" where
  "live_main fd can_open calls replay_file journal_file =
     (let (es, st) = live_open fd can_open (live_state_new replay_file journal_file);
          (fs, st1) = live_run calls st;
          (gs, journal) = journal_close (ls_journal st1);
          (hs, replay_writer) = replay_writer_close (ls_replay st1)
      in ([Log Info ''live_multi_venue_router''
             ''starting live multi-symbol multi-venue router''] @ es @ fs
          @ [WriteJsonl ''metrics/live_multi_venue_router.jsonl''] @ gs @ hs
          @ [Log Info ''live_multi_venue_router'' ''stopped live multi-venue router''],
          st1\<lparr>ls_journal := journal, ls_replay := replay_writer\<rparr>))"

section \<open>The two logs of a session\<close>

definition live_env_ok :: "LiveEnv \<Rightarrow> bool" where
  "live_env_ok env \<longleftrightarrow> (\<forall>k<3. list_all (\<lambda>a. 0 < a) (le_write_answers env k)
     \<and> le_fault env k = None \<and> le_copy_pad env k = le_pad env k)"

definition numbered :: "'a list \<Rightarrow> Sequence list" where
  "numbered xs = map (\<lambda>i. of_nat (Suc i)) [0..<length xs]"

lemma numbered_snoc [simp]: "numbered (xs @ [x]) = numbered xs @ [of_nat (Suc (length xs))]"
  by (simp add: numbered_def)

definition live_logs :: "Envelope list \<Rightarrow> LiveState \<Rightarrow> bool" where
  "live_logs es st \<longleftrightarrow>
     (\<exists>xs ys. rw_file (ls_replay st) = replay.image xs \<and> jw_file (ls_journal st) = journal.image ys
        \<and> list_all replay_ok xs \<and> list_all journal_ok ys
        \<and> map rx_envelope xs = es \<and> map je_envelope ys = es
        \<and> map rx_sequence xs = numbered es \<and> map je_sequence ys = numbered es)
     \<and> 0 \<le> rw_fd (ls_replay st) \<and> canonical_role (rw_node_role (ls_replay st))
     \<and> jw_opened (ls_journal st) \<and> jw_good (ls_journal st)
     \<and> ls_replay_seq st = of_nat (length es) \<and> ls_journal_seq st = of_nat (length es)"

lemma live_logs_cong:
  "ls_replay st' = ls_replay st \<Longrightarrow> ls_journal st' = ls_journal st \<Longrightarrow>
   ls_replay_seq st' = ls_replay_seq st \<Longrightarrow> ls_journal_seq st' = ls_journal_seq st \<Longrightarrow>
   live_logs es st' \<longleftrightarrow> live_logs es st"
  by (simp add: live_logs_def)

lemma live_record_logs:
  assumes "live_env_ok env" and "k < 3" and "is_message e" and "live_logs es st"
  shows "live_logs (es @ [e]) (snd (live_record env k c e st))
    \<and> (\<exists>rs js rw jw. snd (live_record env k c e st)
        = st\<lparr>ls_replay_seq := rs, ls_replay := rw, ls_journal_seq := js, ls_journal := jw\<rparr>)"
proof -
  obtain xs ys where logs: "rw_file (ls_replay st) = replay.image xs"
    "jw_file (ls_journal st) = journal.image ys" "list_all replay_ok xs" "list_all journal_ok ys"
    "map rx_envelope xs = es" "map je_envelope ys = es"
    "map rx_sequence xs = numbered es" "map je_sequence ys = numbered es"
    and state: "0 \<le> rw_fd (ls_replay st)" "canonical_role (rw_node_role (ls_replay st))"
    "jw_opened (ls_journal st)" "jw_good (ls_journal st)"
    "ls_replay_seq st = of_nat (length es)" "ls_journal_seq st = of_nat (length es)"
    using assms(4) by (auto simp: live_logs_def)
  have env: "list_all (\<lambda>a. 0 < a) (le_write_answers env k)" "le_fault env k = None"
    "le_copy_pad env k = le_pad env k"
    using assms(1,2) by (auto simp: live_env_ok_def)
  let ?x = "\<lparr>rx_role = rw_node_role (ls_replay st), rx_pad = le_pad env k, rx_envelope = e,
    rx_sequence = of_nat (Suc (length es)), rx_timestamp_ns = le_now env c\<rparr>"
  let ?y = "\<lparr>je_pad = le_pad env k, je_now = le_now env (c + 1), je_type = JR_RuntimeMarker,
    je_envelope = e, je_sequence = of_nat (Suc (length es))\<rparr>"
  have x: "replay_ok ?x" and y: "journal_ok ?y"
    using assms(3) state(2) by (simp_all add: replay_ok_def journal_ok_def)
  obtain os' where rep: "replay_append (le_write_answers env k) (le_pad env k) (le_copy_pad env k) e
      (ls_replay_seq st + 1) (le_now env c) (ls_replay st)
    = (True, [metric_inc ReplayEventsWritten], os',
       (ls_replay st)\<lparr>rw_file := rw_file (ls_replay st) @ replay_bytes (replay_view ?x)\<rparr>)"
    using replay_append_event_ok [OF state(1) env(1), of "replay_view ?x"]
      replay_append_view [of ?x "ls_replay st" "le_write_answers env k"] env(3) state(5)
    by (auto simp: add.commute)
  have jou: "snd (snd (journal_append (le_can_open env) (le_fault env k) (le_pad env k)
      (le_now env (c + 1)) JR_RuntimeMarker e (ls_journal_seq st + 1) (ls_journal st)))
    = (ls_journal st)\<lparr>jw_file := jw_file (ls_journal st) @ journal_bytes ?y\<rparr>"
    using journal_append_entry [OF y state(3), of "le_can_open env" "le_fault env k"] env(2) state(4,6)
    by (simp add: journal_stream_write_def Let_def add.commute)
  have rec: "snd (live_record env k c e st) = st\<lparr>ls_replay_seq := ls_replay_seq st + 1,
      ls_replay := (ls_replay st)\<lparr>rw_file := rw_file (ls_replay st) @ replay_bytes (replay_view ?x)\<rparr>,
      ls_journal_seq := ls_journal_seq st + 1,
      ls_journal := (ls_journal st)\<lparr>jw_file := jw_file (ls_journal st) @ journal_bytes ?y\<rparr>\<rparr>"
    using jou by (simp add: live_record_def rep Let_def split_beta)
  have "live_logs (es @ [e]) (snd (live_record env k c e st))"
    unfolding rec live_logs_def using logs x y state
    by (intro conjI exI [of _ "xs @ [?x]"] exI [of _ "ys @ [?y]"]) (simp_all add: add.commute)
  then show ?thesis using rec by blast
qed

section \<open>What a session should record\<close>

text \<open>
  The specification of a session: the updates that get past the kill switch and the router, and
  for each the update itself, a buy at the lowest ask and a sell at the highest bid of all venues at
  that moment.  \<open>live_accepted\<close> counts routes in natural numbers.
\<close>

fun live_accepted ::
  "nat \<Rightarrow> nat \<Rightarrow> (LiveEnv \<times> NormalizedMarketData) list \<Rightarrow> NormalizedMarketData list" where
  "live_accepted limit routes [] = []"
| "live_accepted limit routes ((env, md) # calls) =
     (if le_halt env \<or> limit < routes then []
      else if valid_nmd md then md # live_accepted limit (routes + 2) calls
      else live_accepted limit routes calls)"

definition best_route :: "NormalizedMarketData list \<Rightarrow> Signal \<Rightarrow> bool" where
  "best_route us sg \<longleftrightarrow> (\<exists>v q. last_quote us v (sig_symbol_id sg) = Some q
     \<and> sig_limit_px sg = (if sig_side sg = Buy then md_ask_px q else md_bid_px q)
     \<and> (\<forall>v' q'. last_quote us v' (sig_symbol_id sg) = Some q' \<longrightarrow>
          (if sig_side sg = Buy then sint (md_ask_px q) \<le> sint (md_ask_px q')
           else sint (md_bid_px q') \<le> sint (md_bid_px q))))"

definition live_triple :: "NormalizedMarketData list \<Rightarrow> NormalizedMarketData \<Rightarrow> Envelope list \<Rightarrow> bool" where
  "live_triple us md trip \<longleftrightarrow> (\<exists>b s. trip = [market_data_env (nmd_update md), signal_env b, signal_env s]
     \<and> sig_symbol_id b = md_symbol_id (nmd_update md) \<and> sig_side b = Buy \<and> sig_qty b = 1
     \<and> sig_symbol_id s = md_symbol_id (nmd_update md) \<and> sig_side s = Sell \<and> sig_qty s = 1
     \<and> best_route us b \<and> best_route us s)"

definition live_inv :: "NormalizedMarketData list \<Rightarrow> LiveState \<Rightarrow> bool" where
  "live_inv acc st \<longleftrightarrow>
     (\<exists>trips. live_logs (concat trips) st \<and> length trips = length acc
        \<and> (\<forall>i<length acc. live_triple (take (Suc i) acc) (acc ! i) (trips ! i)))
     \<and> ls_router st = snd (run_updates router_update acc [])
     \<and> ks_routes_seen (ls_kill st) = of_nat (2 * length acc)
     \<and> ls_updates_seen st = of_nat (length acc) \<and> ls_routes_seen st = of_nat (2 * length acc)
     \<and> ls_signal_seq st = of_nat (2 * length acc)"

lemma run_updates_snoc:
  "snd (run_updates upd (us @ [u]) b) = snd (upd u (snd (run_updates upd us b)))"
  by (induction us arbitrary: b) (simp_all add: split_beta Let_def)

lemma last_quote_snoc:
  "valid_nmd md \<Longrightarrow> last_quote (us @ [md]) (nmd_venue md) (md_symbol_id (nmd_update md))
     = Some (nmd_update md)"
proof -
  let ?P = "\<lambda>m. valid_nmd m \<and> nmd_key m
    = \<lparr>vbk_venue = nmd_venue md, vbk_symbol_id = md_symbol_id (nmd_update md)\<rparr>"
  assume "valid_nmd md"
  then have "filter ?P (us @ [md]) = filter ?P us @ [md]" by (simp add: nmd_key_def)
  then show ?thesis by (cases "filter ?P us") (simp_all add: last_quote_def)
qed

text \<open>After a valid update of a symbol both sides route, to the best venue.\<close>

lemma route_after_update:
  assumes "valid_nmd md" and "mset bs = mset (snd (run_updates router_update (us @ [md]) []))"
    and "d = route_signal (live_probe (md_symbol_id (nmd_update md)) side) bs"
  shows "rt_routeable d \<and> rt_symbol_id d = md_symbol_id (nmd_update md) \<and> rt_side d = side
    \<and> rt_qty d = 1
    \<and> (\<exists>v q. last_quote (us @ [md]) v (md_symbol_id (nmd_update md)) = Some q
        \<and> rt_limit_px d = (if side = Buy then md_ask_px q else md_bid_px q)
        \<and> (\<forall>v' q'. last_quote (us @ [md]) v' (md_symbol_id (nmd_update md)) = Some q' \<longrightarrow>
             (if side = Buy then sint (md_ask_px q) \<le> sint (md_ask_px q')
              else sint (md_bid_px q') \<le> sint (md_bid_px q))))"
proof -
  let ?sid = "md_symbol_id (nmd_update md)"
  have quoted: "\<not> (\<forall>v. last_quote (us @ [md]) v ?sid = None)"
    using last_quote_snoc [OF assms(1), of us] by (metis option.distinct(1))
  have probe: "sig_symbol_id (live_probe ?sid side) = ?sid" "sig_side (live_probe ?sid side) = side"
    "sig_qty (live_probe ?sid side) = 1"
    by (simp_all add: live_probe_def)
  show ?thesis
  proof (cases "side = Buy")
    case True
    with best_ask_quote [OF assms(2), of ?sid] quoted probe show ?thesis
      by (cases "best_ask ?sid bs") (auto simp: assms(3) route_signal_def RouteDecision0_def)
  next
    case False
    with best_bid_quote [OF assms(2), of ?sid] quoted probe show ?thesis
      by (cases "best_bid ?sid bs") (auto simp: assms(3) route_signal_def RouteDecision0_def)
  qed
qed

lemma route_env_message:
  "canonical_side (rt_side d) \<Longrightarrow> is_message (make_route_signal_env t d seq)"
  by (simp add: make_route_signal_env_def is_message_def message_defaults signal_env_def Envelope0_def
      well_tagged_def)

lemma signal_env_eq: "signal_env a = signal_env b \<longleftrightarrow> a = b"
  by (simp add: signal_env_def Envelope0_def)

lemma live_route_logs:
  assumes "live_env_ok env" and "k < 3" and "rt_routeable d" and "canonical_side (rt_side d)"
    and "live_logs es st"
  shows "\<exists>t seq. live_logs (es @ [make_route_signal_env t d seq]) (snd (live_route env k c who d st))"
    and "ls_router (snd (live_route env k c who d st)) = ls_router st"
    and "ls_kill (snd (live_route env k c who d st)) = snd (ks_on_route (le_now env c) (ls_kill st))"
    and "ls_updates_seen (snd (live_route env k c who d st)) = ls_updates_seen st"
    and "ls_routes_seen (snd (live_route env k c who d st)) = ls_routes_seen st + 1"
    and "ls_signal_seq (snd (live_route env k c who d st)) = ls_signal_seq st + 1"
proof -
  let ?kill = "snd (ks_on_route (le_now env c) (ls_kill st))"
  let ?e = "make_route_signal_env (le_now env (c + 1)) d (ls_signal_seq st + 1)"
  let ?st = "st\<lparr>ls_kill := ?kill, ls_signal_seq := ls_signal_seq st + 1\<rparr>"
  have logs: "live_logs es ?st" using assms(5) by (subst live_logs_cong [of _ st]) simp_all
  have msg: "is_message ?e" using assms(4) by (rule route_env_message)
  note rec = live_record_logs [OF assms(1,2) msg logs, of "c + 2"]
  have eq: "snd (live_route env k c who d st)
    = (snd (live_record env k (c + 2) ?e ?st))\<lparr>ls_routes_seen :=
         ls_routes_seen (snd (live_record env k (c + 2) ?e ?st)) + 1\<rparr>"
    using assms(3) by (simp add: live_route_def split_beta Let_def)
  have "live_logs (es @ [?e]) (snd (live_route env k c who d st))"
    unfolding eq using rec
    by (subst live_logs_cong [of _ "snd (live_record env k (c + 2) ?e ?st)"]) simp_all
  then show "\<exists>t seq. live_logs (es @ [make_route_signal_env t d seq]) (snd (live_route env k c who d st))"
    by blast
  show "ls_router (snd (live_route env k c who d st)) = ls_router st"
    "ls_kill (snd (live_route env k c who d st)) = ?kill"
    "ls_updates_seen (snd (live_route env k c who d st)) = ls_updates_seen st"
    "ls_routes_seen (snd (live_route env k c who d st)) = ls_routes_seen st + 1"
    "ls_signal_seq (snd (live_route env k c who d st)) = ls_signal_seq st + 1"
    using rec by (auto simp: eq)
qed

lemma ks_on_route_limit:
  assumes "ks_routes_seen k = of_nat n" and "n < 2 ^ 64 - 1"
  shows "ks_routes_seen (snd (ks_on_route t k)) = of_nat (Suc n)"
    and "ks_limits (snd (ks_on_route t k)) = ks_limits k"
    and "ks_enabled (snd (ks_on_route t k))
      \<longleftrightarrow> ks_enabled k \<and> Suc n \<le> unat (ksl_max_routes_per_run (ks_limits k))"
proof -
  have "unat (of_nat (Suc n) :: u64) = Suc n" using assms(2) by (intro unat_of_nat_u64) simp
  moreover have "ks_routes_seen k + 1 = of_nat (Suc n)" by (simp add: assms(1) add.commute)
  ultimately show "ks_routes_seen (snd (ks_on_route t k)) = of_nat (Suc n)"
    "ks_limits (snd (ks_on_route t k)) = ks_limits k"
    "ks_enabled (snd (ks_on_route t k))
      \<longleftrightarrow> ks_enabled k \<and> Suc n \<le> unat (ksl_max_routes_per_run (ks_limits k))"
    by (auto simp: ks_on_route_def ks_trigger_def Let_def word_less_nat_alt simp del: of_nat_Suc)
qed

definition live_call_ok :: "LiveEnv \<times> NormalizedMarketData \<Rightarrow> bool" where
  "live_call_ok = (\<lambda>(env, md). live_env_ok env
     \<and> (\<forall>bs. mset (le_visit env bs) = mset bs) \<and> is_message (market_data_env (nmd_update md)))"

lemma process_update_halted:
  "\<not> ks_enabled (ls_kill st) \<Longrightarrow> snd (process_update env md st) = st"
  by (simp add: process_update_def ks_trading_enabled_def ks_check_manual_halt_file_def
      ks_trigger_def)

lemma process_update_stopped:
  "le_halt env \<Longrightarrow> \<not> ks_enabled (ls_kill (snd (process_update env md st)))
     \<and> snd (process_update env md st)
         = st\<lparr>ls_kill := snd (ks_trigger (le_now env 1) KS_ManualOperatorHalt (ls_kill st))\<rparr>
     \<and> ks_routes_seen (snd (ks_trigger (le_now env 1) KS_ManualOperatorHalt (ls_kill st)))
         = ks_routes_seen (ls_kill st)"
  by (simp add: process_update_def ks_trading_enabled_def ks_check_manual_halt_file_def
      ks_trigger_def Let_def)

lemma process_update_invalid:
  "\<not> le_halt env \<Longrightarrow> ks_enabled (ls_kill st) \<Longrightarrow> \<not> valid_nmd md \<Longrightarrow>
   snd (process_update env md st) = st"
  by (simp add: process_update_def ks_trading_enabled_def ks_check_manual_halt_file_def
      router_update_eq Let_def)

lemma live_inv_kill:
  "live_inv acc st \<Longrightarrow> ks_routes_seen kill = ks_routes_seen (ls_kill st) \<Longrightarrow>
   live_inv acc (st\<lparr>ls_kill := kill\<rparr>)"
  by (simp add: live_inv_def live_logs_def)

lemma triples_snoc:
  assumes "length trips = length acc"
    and "\<forall>i<length acc. live_triple (take (Suc i) acc) (acc ! i) (trips ! i)"
    and "live_triple (acc @ [md]) md trip"
  shows "\<forall>i<length (acc @ [md]).
    live_triple (take (Suc i) (acc @ [md])) ((acc @ [md]) ! i) ((trips @ [trip]) ! i)"
  using assms by (auto simp: less_Suc_eq nth_append)

text \<open>An accepted call appends one triple to both logs and counts two routes.\<close>

lemma process_update_accepted:
  assumes "live_call_ok (env, md)" and "\<not> le_halt env" and "ks_enabled (ls_kill st)"
    and "valid_nmd md" and "live_inv acc st" and "2 * length acc + 2 < 2 ^ 64"
  shows "live_inv (acc @ [md]) (snd (process_update env md st))"
    and "ks_limits (ls_kill (snd (process_update env md st))) = ks_limits (ls_kill st)"
    and "ks_enabled (ls_kill (snd (process_update env md st)))
      \<longleftrightarrow> 2 * length acc + 2 \<le> unat (ksl_max_routes_per_run (ks_limits (ls_kill st)))"
proof -
  obtain trips where trips: "live_logs (concat trips) st" "length trips = length acc"
    "\<forall>i<length acc. live_triple (take (Suc i) acc) (acc ! i) (trips ! i)"
    and inv: "ls_router st = snd (run_updates router_update acc [])"
    "ks_routes_seen (ls_kill st) = of_nat (2 * length acc)"
    "ls_updates_seen st = of_nat (length acc)" "ls_routes_seen st = of_nat (2 * length acc)"
    "ls_signal_seq st = of_nat (2 * length acc)"
    using assms(5) by (auto simp: live_inv_def)
  have env: "live_env_ok env" and visit: "\<And>bs. mset (le_visit env bs) = mset bs"
    and msg: "is_message (market_data_env (nmd_update md))"
    using assms(1) by (auto simp: live_call_ok_def)
  let ?u = "nmd_update md" and ?router = "snd (router_update md (ls_router st))"
  let ?st1 = "st\<lparr>ls_router := ?router\<rparr>"
  let ?rec = "snd (live_record env 0 2 (market_data_env ?u) ?st1)"
  let ?st3 = "?rec\<lparr>ls_updates_seen := ls_updates_seen ?rec + 1\<rparr>"
  let ?bs = "le_visit env ?router"
  let ?buy = "route_signal (live_probe (md_symbol_id ?u) Buy) ?bs"
  let ?sell = "route_signal (live_probe (md_symbol_id ?u) Sell) ?bs"
  let ?st4 = "snd (live_route env 1 4 ''router_buy'' ?buy ?st3)"
  let ?st5 = "snd (live_route env 2 8 ''router_sell'' ?sell ?st4)"
  have logs1: "live_logs (concat trips) ?st1"
    using trips(1) by (subst live_logs_cong [of _ st]) simp_all
  note rec = live_record_logs [OF env _ msg logs1, of 0 2]
  then have rec_frame: "ls_router ?rec = ?router" "ls_kill ?rec = ls_kill st"
    "ls_updates_seen ?rec = ls_updates_seen st" "ls_routes_seen ?rec = ls_routes_seen st"
    "ls_signal_seq ?rec = ls_signal_seq st"
    by auto
  have run: "snd (process_update env md st) = ?st5"
    using assms(2-4) rec_frame
    by (simp add: process_update_def ks_trading_enabled_def ks_check_manual_halt_file_def
        router_update_eq make_market_data_env_def split_beta Let_def)
  have logs3: "live_logs (concat trips @ [market_data_env ?u]) ?st3"
    using rec by (subst live_logs_cong [of _ ?rec]) simp_all
  have router: "?router = snd (run_updates router_update (acc @ [md]) [])"
    by (simp add: run_updates_snoc inv(1))
  have perm: "mset ?bs = mset (snd (run_updates router_update (acc @ [md]) []))"
    by (simp add: visit router)
  note buy = route_after_update [OF assms(4) perm refl, of Buy]
  note sell = route_after_update [OF assms(4) perm refl, of Sell]
  have sides: "canonical_side (rt_side ?buy)" "canonical_side (rt_side ?sell)"
    using buy sell by simp_all
  note first = live_route_logs [OF env _ conjunct1 [OF buy] sides(1) logs3, of 1]
  obtain t1 s1 where logs4:
    "live_logs ((concat trips @ [market_data_env ?u]) @ [make_route_signal_env t1 ?buy s1]) ?st4"
    using first(1) by fastforce
  note second = live_route_logs [OF env _ conjunct1 [OF sell] sides(2) logs4, of 2]
  obtain t2 s2 where "live_logs (((concat trips @ [market_data_env ?u])
      @ [make_route_signal_env t1 ?buy s1]) @ [make_route_signal_env t2 ?sell s2]) ?st5"
    using second(1) by fastforce
  then have logs5: "live_logs (concat (trips @ [[market_data_env ?u,
      make_route_signal_env t1 ?buy s1, make_route_signal_env t2 ?sell s2]])) ?st5"
    by simp
  have triple: "live_triple (acc @ [md]) md [market_data_env ?u, make_route_signal_env t1 ?buy s1,
      make_route_signal_env t2 ?sell s2]"
    using buy sell
    by (simp add: live_triple_def make_route_signal_env_def signal_env_eq best_route_def Signal0_def)
  have kill: "ls_kill ?st5 = snd (ks_on_route (le_now env 8) (snd (ks_on_route (le_now env 4) (ls_kill st))))"
    using first second rec_frame by simp
  note k1 = ks_on_route_limit [OF inv(2), of "le_now env 4"]
  note k2 = ks_on_route_limit [OF k1(1), of "le_now env 8"]
  show "live_inv (acc @ [md]) (snd (process_update env md st))"
    unfolding run live_inv_def using logs5 triples_snoc [OF trips(2,3) triple] trips(2)
      first second rec_frame router kill k1 k2 inv assms(6)
    by (intro conjI exI [of _ "trips @ [[market_data_env ?u,
      make_route_signal_env t1 ?buy s1, make_route_signal_env t2 ?sell s2]]"]) simp_all
  show "ks_limits (ls_kill (snd (process_update env md st))) = ks_limits (ls_kill st)"
    using kill k1 k2 assms(6) by (simp add: run)
  show "ks_enabled (ls_kill (snd (process_update env md st)))
      \<longleftrightarrow> 2 * length acc + 2 \<le> unat (ksl_max_routes_per_run (ks_limits (ls_kill st)))"
    using kill k1 k2 assms(3,6) by (auto simp: run)
qed

lemma live_run_halted: "\<not> ks_enabled (ls_kill st) \<Longrightarrow> snd (live_run calls st) = st"
proof (induction calls arbitrary: st)
  case Nil
  then show ?case by simp
next
  case (Cons c calls)
  then show ?case
    by (cases c) (simp add: process_update_halted split_beta Let_def)
qed

lemma live_run_inv:
  assumes "list_all live_call_ok calls" and "live_inv acc st"
    and "ks_enabled (ls_kill st)
      \<longleftrightarrow> 2 * length acc \<le> unat (ksl_max_routes_per_run (ks_limits (ls_kill st)))"
    and "2 * (length acc + length calls) + 2 < 2 ^ 64"
  shows "live_inv (acc @ live_accepted (unat (ksl_max_routes_per_run (ks_limits (ls_kill st))))
      (2 * length acc) calls) (snd (live_run calls st))"
  using assms
proof (induction calls arbitrary: acc st)
  case Nil
  then show ?case by simp
next
  case (Cons c calls)
  obtain env md where c: "c = (env, md)" by (cases c)
  let ?limit = "unat (ksl_max_routes_per_run (ks_limits (ls_kill st)))"
  let ?st = "snd (process_update env md st)"
  have run: "snd (live_run (c # calls) st) = snd (live_run calls ?st)"
    by (simp add: c split_beta Let_def)
  show ?case
  proof (cases "ks_enabled (ls_kill st) \<and> \<not> le_halt env \<and> valid_nmd md")
    case True
    have small: "2 * length acc + 2 < 2 ^ 64" and ok: "live_call_ok (env, md)"
      using Cons.prems(1,4) c by simp_all
    note step = process_update_accepted [OF ok _ _ _ Cons.prems(2) small]
    from Cons.IH [of "acc @ [md]" ?st] Cons.prems True step show ?thesis
      unfolding run by (simp add: c)
  next
    case False
    show ?thesis
    proof (cases "ks_enabled (ls_kill st) \<and> \<not> le_halt env")
      case True
      with False have "?st = st" by (simp add: process_update_invalid)
      with False True Cons.IH [of acc st] Cons.prems show ?thesis
        unfolding run by (simp add: c)
    next
      case stopped: False
      then have none: "live_accepted ?limit (2 * length acc) (c # calls) = []"
        using Cons.prems(3) by (auto simp: c)
      have "live_inv acc ?st \<and> \<not> ks_enabled (ls_kill ?st)"
        using stopped process_update_stopped [of env md st] Cons.prems(2)
        by (cases "le_halt env") (auto simp: process_update_halted intro: live_inv_kill)
      then show ?thesis
        unfolding run none by (simp add: live_run_halted)
    qed
  qed
qed

lemma live_session_inv:
  assumes "list_all live_call_ok calls" and "0 \<le> fd" and "2 * length calls + 2 < 2 ^ 64"
  shows "live_inv (live_accepted 1000000 0 calls)
    (snd (live_run calls (snd (live_open fd True (live_state_new old [])))))"
proof -
  let ?st0 = "snd (live_open fd True (live_state_new old []))"
  have limits: "ks_enabled (ls_kill ?st0)"
    "unat (ksl_max_routes_per_run (ks_limits (ls_kill ?st0))) = 1000000"
    by (simp_all add: live_open_def live_state_new_def kill_switch_new_def live_limits_def split_beta Let_def)
  have start: "live_inv [] ?st0"
    using assms(2)
    by (simp add: live_inv_def live_logs_def live_open_def live_state_new_def replay_writer_open_def
        replay_writer_new_def journal_open_def journal_writer_new_def kill_switch_new_def
        split_beta Let_def numbered_def)
  show ?thesis
    using live_run_inv [OF assms(1) start] limits assms(3) by simp
qed

lemma live_session_logs:
  assumes "list_all live_call_ok calls" and "0 \<le> fd" and "2 * length calls + 2 < 2 ^ 64"
    and "live_main fd True calls old [] = (es, st)"
  shows "(let evs = replay_events (rw_file (ls_replay st));
              recs = fst (journal_read_all (Some (jw_file (ls_journal st))));
              acc = live_accepted 1000000 0 calls
    in \<exists>trips. map replay_envelope evs = concat trips \<and> map jr_envelope recs = concat trips
      \<and> map (\<lambda>ev. rh_sequence (re_header ev)) evs = numbered evs
      \<and> map (\<lambda>r. jh_sequence (jr_header r)) recs = numbered evs
      \<and> length trips = length acc
      \<and> (\<forall>i<length acc. live_triple (take (Suc i) acc) (acc ! i) (trips ! i)))"
proof -
  let ?st0 = "snd (live_open fd True (live_state_new old []))"
  let ?acc = "live_accepted 1000000 0 calls"
  have inv: "live_inv ?acc (snd (live_run calls ?st0))"
    using live_session_inv [OF assms(1-3)] .
  have files: "rw_file (ls_replay st) = rw_file (ls_replay (snd (live_run calls ?st0)))"
    "jw_file (ls_journal st) = jw_file (ls_journal (snd (live_run calls ?st0)))"
    using assms(4)
    by (auto simp: live_main_def replay_writer_close_def journal_close_def split_beta Let_def
        split: if_splits)
  obtain trips xs ys where trips: "length trips = length ?acc"
    "\<forall>i<length ?acc. live_triple (take (Suc i) ?acc) (?acc ! i) (trips ! i)"
    and logs: "rw_file (ls_replay st) = replay.image xs" "jw_file (ls_journal st) = journal.image ys"
    "list_all replay_ok xs" "list_all journal_ok ys"
    "map rx_envelope xs = concat trips" "map je_envelope ys = concat trips"
    "map rx_sequence xs = numbered (concat trips)" "map je_sequence ys = numbered (concat trips)"
    using inv unfolding live_inv_def live_logs_def files by blast
  have "replay_events [] = []" "fst (journal_read_loop []) = []"
    by (rule replay.read_stopped, simp add: replay_read_one_def replay_header_size_def)
       (rule journal.read_stopped, simp add: journal_read_one_def journal_header_size_def)
  then have evs: "replay_events (rw_file (ls_replay st)) = map replay_view xs"
    and recs: "fst (journal_read_all (Some (jw_file (ls_journal st)))) = map journal_view ys"
    using replay.read_image [OF logs(3), of "[]"] journal.read_image [OF logs(4), of "[]"]
    by (simp_all add: logs(1,2) journal_read_all_def)
  have "map replay_envelope (map replay_view xs) = concat trips"
    using logs(3) by (simp add: logs(5) [symmetric] list_all_iff replay_view_envelope)
  moreover have "map jr_envelope (map journal_view ys) = concat trips"
    by (simp add: logs(6) [symmetric] journal_view_def)
  moreover have "length xs = length (concat trips)" "length ys = length (concat trips)"
    using logs(5,6) by (metis length_map)+
  then have "numbered (map replay_view xs) = numbered (concat trips)" by (simp add: numbered_def)
  moreover have "map (\<lambda>ev. rh_sequence (re_header ev)) (map replay_view xs) = map rx_sequence xs"
    "map (\<lambda>r. jh_sequence (jr_header r)) (map journal_view ys) = map je_sequence ys"
    by (simp_all add: replay_view_def replay_header_for_def journal_view_def journal_header_for_def)
  ultimately show ?thesis
    unfolding Let_def evs recs using logs(7,8) trips by (intro exI [of _ trips]) simp
qed

text \<open>
  C15.  A live session's two recordings are complete, agree, and show best execution: whatever the
  interleaving of the feeds and the iteration order of the router, when no write fails the replay
  log and the journal decode to the same messages, numbered 1, 2, 3 and so on, and these are, for
  each update admitted before the kill switch stopped the session, the update, a buy at the lowest
  ask and a sell at the highest bid over the last admitted quotes of all venues.
\<close>

theorem live_session_recorded:
  assumes "list_all live_call_ok calls" and "0 \<le> fd" and "2 * length calls + 2 < 2 ^ 64"
    and "live_main fd True calls old [] = (es, st)"
  shows "(let evs = replay_events (rw_file (ls_replay st));
              recs = fst (journal_read_all (Some (jw_file (ls_journal st))));
              acc = live_accepted 1000000 0 calls
    in \<exists>trips. map replay_envelope evs = concat trips \<and> map jr_envelope recs = concat trips
      \<and> map (\<lambda>ev. rh_sequence (re_header ev)) evs = numbered evs
      \<and> map (\<lambda>r. jh_sequence (jr_header r)) recs = numbered evs
      \<and> length trips = length acc
      \<and> (\<forall>i<length acc. live_triple (take (Suc i) acc) (acc ! i) (trips ! i)))"
  by (rule live_session_logs [OF assms])

definition sample_env :: LiveEnv where
  "sample_env = \<lparr>le_halt = False, le_now = (\<lambda>k. 10 + of_nat k), le_write_answers = (\<lambda>_. [7]),
     le_fault = (\<lambda>_. None), le_can_open = True, le_pad = (\<lambda>_ _. 0), le_copy_pad = (\<lambda>_ _. 0),
     le_visit = rev\<rparr>"

definition sample_calls :: "(LiveEnv \<times> NormalizedMarketData) list" where
  "sample_calls = [(sample_env, venue_quote Binance 100 105), (sample_env, venue_quote Coinbase 105 101),
     (sample_env, venue_quote Coinbase 101 104)]"

lemma sample_calls_ok: "list_all live_call_ok sample_calls"
  by (simp add: sample_calls_def live_call_ok_def live_env_ok_def sample_env_def is_message_def
      venue_quote_def message_defaults)

lemma sample_calls_accepted: "length (live_accepted 1000000 0 sample_calls) = 2"
  by (simp add: sample_calls_def sample_env_def venue_quote_def valid_nmd_def valid_quote_def)

theorem live_session_recorded_witness:
  "\<exists>trips. map replay_envelope (replay_events (rw_file (ls_replay
       (snd (live_main 3 True sample_calls [9, 9] []))))) = concat trips \<and> length trips = 2"
proof -
  obtain es st where run: "live_main 3 True sample_calls [9, 9] [] = (es, st)"
    by (cases "live_main 3 True sample_calls [9, 9] []")
  have "2 * length sample_calls + 2 < 2 ^ 64" by (simp add: sample_calls_def)
  from live_session_recorded [OF sample_calls_ok _ this run] show ?thesis
    by (auto simp: Let_def run sample_calls_accepted)
qed

lemma length_live_accepted:
  "list_all (\<lambda>(env, md). \<not> le_halt env) calls \<Longrightarrow>
   length (live_accepted limit routes calls)
   = min (length (filter (\<lambda>(env, md). valid_nmd md) calls))
         (if limit < routes then 0 else (limit - routes) div 2 + 1)"
proof (induction calls arbitrary: routes)
  case Nil
  then show ?case by simp
next
  case (Cons c calls)
  obtain env md where c: "c = (env, md)" by (cases c)
  have "(limit - routes) div 2 + 1 = Suc (if limit < routes + 2 then 0 else (limit - (routes + 2)) div 2 + 1)"
    if "\<not> limit < routes"
    using that by (auto simp: div_eq_0_iff)
  with Cons c show ?case by (auto simp: min_def)
qed

text \<open>
  C35.  The live router's route limit of 1,000,000 lets up to two routes more through: without a
  halt file, a session routes exactly two signals for each valid update until 500,001 updates were
  admitted, 1,000,002 routes, because the switch is asked once per update and counts afterwards.
\<close>

theorem live_routes_admitted:
  assumes "list_all live_call_ok calls" and "0 \<le> fd" and "2 * length calls + 2 < 2 ^ 64"
    and "list_all (\<lambda>(env, md). \<not> le_halt env) calls"
    and "live_main fd True calls old [] = (es, st)"
  shows "unat (ls_routes_seen st)
    = 2 * min (length (filter (\<lambda>(env, md). valid_nmd md) calls)) 500001"
proof -
  let ?st0 = "snd (live_open fd True (live_state_new old []))"
  let ?acc = "live_accepted 1000000 0 calls"
  have "live_inv ?acc (snd (live_run calls ?st0))"
    using live_session_inv [OF assms(1-3)] .
  then have "ls_routes_seen st = of_nat (2 * length ?acc)"
    using assms(5) by (auto simp: live_inv_def live_main_def split_beta Let_def)
  moreover have "length ?acc = min (length (filter (\<lambda>(env, md). valid_nmd md) calls)) 500001"
    by (simp add: length_live_accepted [OF assms(4)])
  ultimately show ?thesis by (simp add: unat_of_nat_u64 del: of_nat_mult)
qed

theorem live_routes_admitted_witness:
  "unat (ls_routes_seen (snd (live_main 3 True sample_calls [] []))) = 4"
proof -
  obtain es st where run: "live_main 3 True sample_calls [] [] = (es, st)"
    by (cases "live_main 3 True sample_calls [] []")
  have calls: "2 * length sample_calls + 2 < 2 ^ 64"
    "list_all (\<lambda>(env, md). \<not> le_halt env) sample_calls"
    and valid: "length (filter (\<lambda>(env, md). valid_nmd md) sample_calls) = 2"
    by (simp_all add: sample_calls_def sample_env_def venue_quote_def valid_nmd_def valid_quote_def)
  from live_routes_admitted [OF sample_calls_ok _ calls run] show ?thesis
    by (simp add: run valid)
qed

end
