(* ===== verification/Recorded_Streams.thy ===== *)
theory Recorded_Streams
  imports Tcp_Transport Journal Replay
begin

text \<open>
  What a replay log, a journal and a connection hold after a run of writes none of which failed:
  one predicate per stream, a lemma that a write extends it, and a lemma that a reader gets it back.
  The nodes of the distributed pipeline use all three.
\<close>

definition replay_holds :: "Envelope list \<Rightarrow> ReplayWriter \<Rightarrow> bool" where
  "replay_holds es w \<longleftrightarrow> (\<exists>xs. rw_file w = replay.image xs \<and> list_all replay_ok xs
     \<and> map rx_envelope xs = es) \<and> 0 \<le> rw_fd w \<and> canonical_role (rw_node_role w)"

definition wire_holds :: "Envelope list \<Rightarrow> byte list \<Rightarrow> bool" where
  "wire_holds es bs \<longleftrightarrow> (\<exists>ms. bs = wire.image ms \<and> list_all tcp_sendable ms \<and> map tcp_view ms = es)"

definition journal_holds :: "(JournalRecordType \<times> Envelope) list \<Rightarrow> JournalWriter \<Rightarrow> bool" where
  "journal_holds rs w \<longleftrightarrow> (\<exists>ys. jw_file w = journal.image ys \<and> list_all journal_ok ys
     \<and> map (\<lambda>y. (je_type y, je_envelope y)) ys = rs) \<and> jw_opened w \<and> jw_good w"

text \<open>A freshly opened stream holds nothing.\<close>

lemma replay_holds_open:
  "0 \<le> fd \<Longrightarrow> canonical_role role \<Longrightarrow>
   replay_holds [] (snd (snd (replay_writer_open fd (replay_writer_new RW_Truncate role old))))"
  by (simp add: replay_holds_def replay_writer_open_def replay_writer_new_def)

lemma wire_holds_Nil: "wire_holds [] []"
  by (simp add: wire_holds_def)

lemma journal_holds_open: "journal_holds [] (snd (snd (journal_open True (journal_writer_new []))))"
  by (simp add: journal_holds_def journal_open_def journal_writer_new_def)

text \<open>A write that meets no failure appends its message.\<close>

lemma replay_holds_append:
  assumes "replay_holds es w" and "is_message e" and "list_all (\<lambda>a. 0 < a) os"
  obtains os' w' where "replay_append os pad pad e seq ts w
      = (True, [metric_inc ReplayEventsWritten], os', w')"
    and "replay_holds (es @ [e]) w'"
proof -
  obtain xs where xs: "rw_file w = replay.image xs" "list_all replay_ok xs" "map rx_envelope xs = es"
    and w: "0 \<le> rw_fd w" "canonical_role (rw_node_role w)"
    using assms(1) by (auto simp: replay_holds_def)
  let ?x = "\<lparr>rx_role = rw_node_role w, rx_pad = pad, rx_envelope = e, rx_sequence = seq,
    rx_timestamp_ns = ts\<rparr>"
  let ?w = "w\<lparr>rw_file := rw_file w @ replay_bytes (replay_view ?x)\<rparr>"
  obtain os' where "replay_append os pad pad e seq ts w
      = (True, [metric_inc ReplayEventsWritten], os', ?w)"
    using replay_append_event_ok [OF w(1) assms(3), of "replay_view ?x"]
      replay_append_view [of ?x w os] by auto
  moreover have "replay_holds (es @ [e]) ?w"
    unfolding replay_holds_def using xs w assms(2)
    by (intro conjI exI [of _ "xs @ [?x]"]) (simp_all add: replay_ok_def)
  ultimately show thesis by (rule that)
qed

lemma wire_holds_send:
  assumes "wire_holds es bs" and "is_message e" and "list_all (\<lambda>a. 0 < a) os" and "0 \<le> fd"
  obtains os' where "tcp_send_envelope os pad e seq fd = (True, tcp_frame (pad, e, seq), [], os')"
    and "wire_holds (es @ [e]) (bs @ tcp_frame (pad, e, seq))"
proof -
  obtain ms where ms: "bs = wire.image ms" "list_all tcp_sendable ms" "map tcp_view ms = es"
    using assms(1) by (auto simp: wire_holds_def)
  obtain out os' where send: "tcp_send_envelope os pad e seq fd = (True, out, [], os')"
    using tcp_send_envelope_ok [OF assms(2,4,3)] by blast
  then have "out = tcp_frame (pad, e, seq)"
    using tcp_send_envelope_frame [OF assms(2,4)] by blast
  moreover have "wire_holds (es @ [e]) (bs @ tcp_frame (pad, e, seq))"
    unfolding wire_holds_def using ms assms(2)
    by (intro exI [of _ "ms @ [(pad, e, seq)]"]) (simp add: tcp_sendable_def tcp_view_def)
  ultimately show thesis using send that by simp
qed

lemma journal_holds_append:
  assumes "journal_holds rs w" and "is_message e" and "canonical_journal_type rt"
  obtains w' where "journal_append can_open None pad now rt e seq w
      = (True, [Log Info ''journal'' ''appended journal record'', metric_inc JournalWrites], w')"
    and "journal_holds (rs @ [(rt, e)]) w'"
proof -
  obtain ys where ys: "jw_file w = journal.image ys" "list_all journal_ok ys"
    "map (\<lambda>y. (je_type y, je_envelope y)) ys = rs" and w: "jw_opened w" "jw_good w"
    using assms(1) by (auto simp: journal_holds_def)
  let ?y = "\<lparr>je_pad = pad, je_now = now, je_type = rt, je_envelope = e, je_sequence = seq\<rparr>"
  let ?w = "w\<lparr>jw_file := jw_file w @ journal_bytes ?y\<rparr>"
  have y: "journal_ok ?y" using assms(2,3) by (simp add: journal_ok_def)
  have "journal_append can_open None pad now rt e seq w
      = (True, [Log Info ''journal'' ''appended journal record'', metric_inc JournalWrites], ?w)"
    using journal_append_entry [OF y w(1), of can_open None] w(2)
    by (simp add: journal_stream_write_def Let_def)
  moreover have "journal_holds (rs @ [(rt, e)]) ?w"
    unfolding journal_holds_def using ys w y
    by (intro conjI exI [of _ "ys @ [?y]"]) simp_all
  ultimately show thesis by (rule that)
qed

text \<open>A reader gets back what a stream holds.\<close>

lemma replay_holds_read:
  assumes "replay_holds es w"
  shows "map replay_envelope (replay_events (rw_file w)) = es"
proof -
  obtain xs where xs: "rw_file w = replay.image xs" "list_all replay_ok xs" "map rx_envelope xs = es"
    using assms by (auto simp: replay_holds_def)
  have "replay_events [] = []"
    by (rule replay.read_stopped) (simp add: replay_read_one_def replay_header_size_def)
  then have "replay_events (rw_file w) = map replay_view xs"
    using replay.read_image [OF xs(2), of "[]"] by (simp add: xs(1))
  then show ?thesis
    using xs(2) by (simp add: xs(3) [symmetric] list_all_iff replay_view_envelope)
qed

lemma wire_holds_read: "wire_holds es bs \<Longrightarrow> tcp_recv_all [] bs = es"
proof -
  assume "wire_holds es bs"
  then obtain ms where ms: "bs = wire.image ms" "list_all tcp_sendable ms" "map tcp_view ms = es"
    by (auto simp: wire_holds_def)
  have "tcp_next [] = None" by (simp add: tcp_next_def tcp_header_size_def)
  from wire.read_stops_at [OF ms(2) this] show ?thesis by (simp add: ms(1,3))
qed

lemma journal_holds_read:
  assumes "journal_holds rs w"
  shows "map (\<lambda>r. (jh_record_type (jr_header r), jr_envelope r))
    (fst (journal_read_all (Some (jw_file w)))) = rs"
proof -
  obtain ys where ys: "jw_file w = journal.image ys" "list_all journal_ok ys"
    "map (\<lambda>y. (je_type y, je_envelope y)) ys = rs"
    using assms by (auto simp: journal_holds_def)
  have "snd (journal_read_one []) = None" by (simp add: journal_read_one_def journal_header_size_def)
  from journal.read_stops_at [OF ys(2) this] show ?thesis
    by (simp add: ys(1) ys(3) [symmetric] journal_read_all_def journal_view_def
        journal_header_for_def)
qed

text \<open>
  The first message of a connection that delivers exactly one: what a request-response exchange
  sees.
\<close>

lemma tcp_recv_single:
  assumes "is_message e" and "0 \<le> fd"
  obtains os' where "tcp_recv_envelope os fd (tcp_frame (pad, e, seq)) = (Some e, [], [], os')"
proof -
  obtain out es rest os' where recv: "tcp_recv_envelope os fd (tcp_frame (pad, e, seq)) = (out, es, rest, os')"
    by (cases "tcp_recv_envelope os fd (tcp_frame (pad, e, seq))")
  have "tcp_next (tcp_frame (pad, e, seq)) = Some (e, [])"
    using tcp_next_frame [OF assms(1), of pad seq "[]"] by simp
  with tcp_recv_eq_next [OF assms(2), where os = os and stream = "tcp_frame (pad, e, seq)"] recv
  have "out = Some e \<and> es = [] \<and> rest = []" by (cases out) auto
  with recv that show thesis by simp
qed

end
