(* ===== verification/Distributed_Nodes.thy ===== *)
theory Distributed_Nodes
  imports Recorded_Streams Strategy_Engine Exchange_Gateway Venue_Router
begin

text \<open>
  The four processes of the distributed pipeline: apps/market_data_node.cpp,
  apps/strategy_node.cpp, apps/oms_node.cpp and apps/gateway_node.cpp.  Each is a loop that receives
  a message, works on it, records and sends the result.  A node's state holds the bytes it has put
  on its outgoing connection.  The order manager sends a request and waits for the answer: what the
  other side does with the request is an argument, instantiated by the gateway node.

  \<open>NodeEnv\<close> is what one iteration gets from outside: clock readings by their place in the iteration,
  padding of the message objects, and the answers of the operating system.
\<close>

record NodeEnv =
  nd_now :: "nat \<Rightarrow> TimestampNs"
  nd_pad :: "nat \<Rightarrow> nat \<Rightarrow> byte"
  nd_copy_pad :: "nat \<Rightarrow> nat \<Rightarrow> byte"
  nd_write_answers :: "nat \<Rightarrow> int list"
  nd_send_answers :: "int list"
  nd_recv_answers :: "nat list"
  nd_reply_answers :: "nat list"
  nd_can_open :: bool
  nd_fault :: "nat \<Rightarrow> nat option"

section \<open>The receive loop\<close>

text \<open>
  \<open>while (true)\<close> of a node: receive, stop with \<open>gone\<close> when there is nothing more, else run the
  body, which says whether to go on.
\<close>

function serve ::
  "effect list \<Rightarrow> (NodeEnv \<Rightarrow> Envelope \<Rightarrow> 's \<Rightarrow> bool \<times> effect list \<times> 's)
   \<Rightarrow> (nat \<Rightarrow> NodeEnv) \<Rightarrow> nat \<Rightarrow> int \<Rightarrow> byte list \<Rightarrow> 's \<Rightarrow> effect list \<times> 's" where
  "serve gone body envs i fd stream st =
     (case tcp_recv_envelope (nd_recv_answers (envs i)) fd stream of
        (None, es, _, _) \<Rightarrow> (es @ gone, st)
      | (Some e, es, rest, _) \<Rightarrow>
          (case body (envs i) e st of
             (False, fs, st') \<Rightarrow> (es @ fs, st')
           | (True, fs, st') \<Rightarrow>
               (let (gs, st'') = serve gone body envs (Suc i) fd rest st'
                in (es @ fs @ gs, st''))))"
  by pat_completeness auto
termination
  by (relation "measure (\<lambda>(gone, body, envs, i, fd, stream, st). length stream)")
     (auto dest: tcp_recv_progress)

declare serve.simps [simp del]

text \<open>The same over the messages the stream decodes to.\<close>

fun serve_list ::
  "(NodeEnv \<Rightarrow> Envelope \<Rightarrow> 's \<Rightarrow> bool \<times> effect list \<times> 's) \<Rightarrow> (nat \<Rightarrow> NodeEnv) \<Rightarrow> nat
   \<Rightarrow> Envelope list \<Rightarrow> 's \<Rightarrow> 's" where
  "serve_list body envs i [] st = st"
| "serve_list body envs i (e # es) st =
     (case body (envs i) e st of
        (False, _, st') \<Rightarrow> st'
      | (True, _, st') \<Rightarrow> serve_list body envs (Suc i) es st')"

lemma serve_decoded:
  assumes "0 \<le> fd"
  shows "snd (serve gone body envs i fd stream st)
    = serve_list body envs i (tcp_recv_all [] stream) st"
proof (induction "length stream" arbitrary: i stream st rule: less_induct)
  case less
  obtain out es rest os' where
    recv: "tcp_recv_envelope (nd_recv_answers (envs i)) fd stream = (out, es, rest, os')"
    by (cases "tcp_recv_envelope (nd_recv_answers (envs i)) fd stream")
  note eq = tcp_recv_eq_next [OF assms, where os = "nd_recv_answers (envs i)" and stream = stream]
  show ?case
  proof (cases out)
    case None
    with eq recv show ?thesis
      by (subst serve.simps) (simp add: tcp_recv_all_next [of "[]" stream])
  next
    case (Some e)
    with eq recv have dec: "tcp_recv_all [] stream = e # tcp_recv_all [] rest"
      by (simp add: tcp_recv_all_next [of "[]" stream])
    have short: "length rest < length stream"
      using tcp_recv_progress [of e es rest os'] recv Some by metis
    show ?thesis
      unfolding dec using recv Some less [OF short]
      by (subst serve.simps) (auto split: prod.split bool.split simp: Let_def split_beta)
  qed
qed

text \<open>An invariant over the messages served so far, when every body goes on.\<close>

lemma serve_list_inv:
  assumes "\<And>k e pre st. ok e \<Longrightarrow> I pre st \<Longrightarrow>
      fst (body (envs k) e st) \<and> I (pre @ [e]) (snd (snd (body (envs k) e st)))"
    and "list_all ok es" and "I pre st"
  shows "I (pre @ es) (serve_list body envs i es st)"
  using assms(2,3)
proof (induction es arbitrary: pre st i)
  case Nil
  then show ?case by simp
next
  case (Cons e es)
  from Cons.prems have step: "fst (body (envs i) e st)"
    "I (pre @ [e]) (snd (snd (body (envs i) e st)))"
    using assms(1) by auto
  from Cons.IH [OF _ step(2), of "Suc i"] Cons.prems(1) step(1) show ?case
    by (cases "body (envs i) e st") auto
qed

section \<open>market_data_node\<close>

record MarketDataNode =
  mn_book :: TopOfBook
  mn_outbound_seq :: Sequence
  mn_replay :: ReplayWriter
  mn_fd :: int
  mn_wire :: "byte list"

definition latency_since :: "TimestampNs \<Rightarrow> MessageHeader \<Rightarrow> effect list" where
  "latency_since now h =
     (if hdr_recv_ts_ns h > 0 \<and> now \<ge> hdr_recv_ts_ns h
      then [MetricLatency (now - hdr_recv_ts_ns h)] else [])"

definition md_book_line :: "MarketDataVenue \<Rightarrow> MarketDataUpdate \<Rightarrow> string option" where
  "md_book_line venue q = map_option (\<lambda>sym. ''md_node book venue='' @ to_string_venue venue
     @ '' symbol='' @ sym @ '' seq='' @ show_nat (unat (md_exchange_sequence q))
     @ '' bid='' @ show_int (sint (md_bid_px q)) @ '' ask='' @ show_int (sint (md_ask_px q)))
     (Symbol_str (md_symbol q))"

definition market_data_callback ::
  "NodeEnv \<Rightarrow> NormalizedMarketData \<Rightarrow> MarketDataNode \<Rightarrow> effect list \<times> MarketDataNode" where
  "market_data_callback env md st =
     (let u = nmd_update md;
          es1 = [metric_inc MarketDataReceived] @ latency_since (nd_now env 0) (md_header u);
          book = tob_apply u (mn_book st);
          es2 = (case tob_snapshot book of
                   None \<Rightarrow> []
                 | Some q \<Rightarrow> map Stdout (case_option [] (\<lambda>l. [l]) (md_book_line (nmd_venue md) q)));
          e = market_data_env u; seq = mn_outbound_seq st + 1;
          (_, es3, _, replay_writer) = replay_append (nd_write_answers env 0) (nd_pad env 0)
             (nd_copy_pad env 0) e seq (nd_now env 1) (mn_replay st);
          es4 = (if seq mod 100 = 0 then [WriteJsonl ''metrics/market_data_node.jsonl''] else []);
          (ok, out, es5, _) = tcp_send_envelope (nd_send_answers env) (nd_pad env 0) e seq (mn_fd st);
          es6 = (if ok then [] else [metric_inc QueueDrops, Log Error ''market_data_node''
                   ''failed to send MarketDataUpdate to strategy''])
      in (es1 @ es2 @ es3 @ es4 @ es5 @ es6,
          st\<lparr>mn_book := book, mn_outbound_seq := seq, mn_replay := replay_writer,
             mn_wire := mn_wire st @ out\<rparr>))"

fun market_data_node ::
  "(nat \<Rightarrow> NodeEnv) \<Rightarrow> nat \<Rightarrow> NormalizedMarketData list \<Rightarrow> MarketDataNode
   \<Rightarrow> effect list \<times> MarketDataNode" where
  "market_data_node envs i [] st = ([], st)"
| "market_data_node envs i (md # mds) st =
     (let (es, st1) = market_data_callback (envs i) md st;
          (fs, st2) = market_data_node envs (Suc i) mds st1
      in (es @ fs, st2))"

definition market_data_node_new :: "int \<Rightarrow> int \<Rightarrow> byte list \<Rightarrow> MarketDataNode" where
  "market_data_node_new fd replay_fd old =
     \<lparr>mn_book = TopOfBook0, mn_outbound_seq = 0,
      mn_replay = snd (snd (replay_writer_open replay_fd
                    (replay_writer_new RW_Truncate NR_MarketData old))),
      mn_fd = fd, mn_wire = []\<rparr>"

section \<open>strategy_node\<close>

record StrategyNode =
  sn_strategy :: StrategyEngine
  sn_signal_seq :: Sequence
  sn_replay :: ReplayWriter
  sn_fd :: int
  sn_wire :: "byte list"

definition strategy_node_body ::
  "NodeEnv \<Rightarrow> Envelope \<Rightarrow> StrategyNode \<Rightarrow> bool \<times> effect list \<times> StrategyNode" where
  "strategy_node_body env e st =
     (case (if env_type e \<noteq> MT_MarketData then None else payload_market_data (env_payload e)) of
        None \<Rightarrow> (True, [], st)
      | Some md \<Rightarrow>
          let es1 = [metric_inc MarketDataReceived] @ latency_since (nd_now env 0) (md_header md);
              (maybe_signal, strategy) = strategy_on_market_data (nd_now env 1) md (sn_strategy st);
              st1 = st\<lparr>sn_strategy := strategy\<rparr>
          in case maybe_signal of
            None \<Rightarrow> (True, es1, st1)
          | Some signal \<Rightarrow>
              let out_env = signal_env signal; seq = sn_signal_seq st1 + 1;
                  (_, es2, _, replay_writer) = replay_append (nd_write_answers env 0) (nd_pad env 0)
                     (nd_copy_pad env 0) out_env seq (nd_now env 2) (sn_replay st1);
                  (ok, out, es3, _) = tcp_send_envelope (nd_send_answers env) (nd_pad env 0)
                     out_env seq (sn_fd st1);
                  es4 = es1 @ [metric_inc SignalsGenerated] @ es2
                        @ [metric_inc ReplayEventsWritten] @ es3;
                  st2 = st1\<lparr>sn_signal_seq := seq, sn_replay := replay_writer,
                            sn_wire := sn_wire st1 @ out\<rparr>
              in if ok
                 then (True, es4 @ [Log Info ''strategy_node'' ''sent Signal to OMS''], st2)
                 else (False, es4 @ [metric_inc QueueDrops,
                         Log Error ''strategy_node'' ''failed to send Signal to OMS''], st2))"

definition strategy_node ::
  "(nat \<Rightarrow> NodeEnv) \<Rightarrow> int \<Rightarrow> byte list \<Rightarrow> StrategyNode \<Rightarrow> effect list \<times> StrategyNode" where
  "strategy_node envs md_fd stream st =
     serve [Log Warn ''strategy_node'' ''market data node disconnected''] strategy_node_body
       envs 0 md_fd stream st"

definition strategy_node_new :: "int \<Rightarrow> int \<Rightarrow> byte list \<Rightarrow> StrategyNode" where
  "strategy_node_new fd replay_fd old =
     \<lparr>sn_strategy = strategy_new 2, sn_signal_seq = 0,
      sn_replay = snd (snd (replay_writer_open replay_fd
                    (replay_writer_new RW_Truncate NR_Strategy old))),
      sn_fd = fd, sn_wire = []\<rparr>"

section \<open>oms_node\<close>

text \<open>
  \<open>on_peer\<close> is the state of the other side of the gateway connection, \<open>on_inbox\<close> what arrived from
  there and was not read yet, \<open>on_wire\<close> everything sent.
\<close>

record 'g OmsNode =
  on_oms :: OrderManager
  on_journal :: JournalWriter
  on_journal_seq :: Sequence
  on_gateway_seq :: Sequence
  on_replay :: ReplayWriter
  on_replay_seq :: Sequence
  on_fd :: int
  on_wire :: "byte list"
  on_inbox :: "byte list"
  on_peer :: 'g

definition oms_node_journal ::
  "NodeEnv \<Rightarrow> nat \<Rightarrow> nat \<Rightarrow> JournalRecordType \<Rightarrow> Envelope \<Rightarrow> 'g OmsNode \<Rightarrow> effect list \<times> 'g OmsNode" where
  "oms_node_journal env k c rt e st =
     (let seq = on_journal_seq st + 1;
          (_, es, journal) = journal_append (nd_can_open env) (nd_fault env k) (nd_pad env k)
             (nd_now env c) rt e seq (on_journal st)
      in (es @ [metric_inc JournalWrites], st\<lparr>on_journal_seq := seq, on_journal := journal\<rparr>))"

definition oms_node_record ::
  "NodeEnv \<Rightarrow> nat \<Rightarrow> nat \<Rightarrow> Envelope \<Rightarrow> 'g OmsNode \<Rightarrow> effect list \<times> 'g OmsNode" where
  "oms_node_record env k c e st =
     (let seq = on_replay_seq st + 1;
          (_, es, _, replay_writer) = replay_append (nd_write_answers env k) (nd_pad env k)
             (nd_copy_pad env k) e seq (nd_now env c) (on_replay st)
      in (es @ [metric_inc ReplayEventsWritten],
          st\<lparr>on_replay_seq := seq, on_replay := replay_writer\<rparr>))"

text \<open>What the node does with the answer of the gateway.\<close>

definition oms_node_answer ::
  "NodeEnv \<Rightarrow> Envelope \<Rightarrow> 'g OmsNode \<Rightarrow> effect list \<times> 'g OmsNode" where
  "oms_node_answer env response st =
     (let (es1, st1) = oms_node_record env 1 5 response st
      in if env_type response = MT_Ack
         then
           let st2 = st1\<lparr>on_oms := oms_absorb response (on_oms st1)\<rparr>;
               (es2, st3) = oms_node_journal env 1 6 JR_GatewayAck response st2
           in (es1 @ es2 @ [metric_inc AcksReceived,
                 Log Info ''oms_node'' ''journaled and processed gateway Ack''], st3)
         else if env_type response = MT_Reject
         then
           let st2 = st1\<lparr>on_oms := oms_absorb response (on_oms st1)\<rparr>;
               (es2, st3) = oms_node_journal env 1 6 JR_GatewayReject response st2
           in (es1 @ es2 @ [metric_inc OrdersRejected,
                 Log Warn ''oms_node'' ''journaled and processed gateway Reject''], st3)
         else if env_type response = MT_Fill then (es1 @ [metric_inc FillsReceived], st1)
         else (es1, st1))"

definition oms_node_body ::
  "(byte list \<Rightarrow> 'g \<Rightarrow> byte list \<times> 'g) \<Rightarrow> NodeEnv \<Rightarrow> Envelope \<Rightarrow> 'g OmsNode
   \<Rightarrow> bool \<times> effect list \<times> 'g OmsNode" where
  "oms_node_body peer env e st =
     (case (if env_type e \<noteq> MT_Signal then None else payload_signal (env_payload e)) of
        None \<Rightarrow> (True, [], st)
      | Some signal \<Rightarrow>
          let (maybe_order, oms) = oms_on_signal (nd_now env 0) (nd_now env 1) signal (on_oms st);
              st1 = st\<lparr>on_oms := oms\<rparr>
          in case maybe_order of
            None \<Rightarrow> (True, [], st1)
          | Some order_env \<Rightarrow>
              if env_type order_env = MT_Reject
              then (True, [metric_inc OrdersRejected,
                           Log Warn ''oms_node'' ''signal rejected by OMS risk''], st1)
              else
                let (es1, st2) = oms_node_journal env 0 2 JR_OrderIntent order_env st1;
                    (es2, st3) = oms_node_record env 0 3 order_env st2;
                    seq = on_gateway_seq st3 + 1;
                    (ok, out, es3, _) = tcp_send_envelope (nd_send_answers env) (nd_pad env 0)
                       order_env seq (on_fd st3);
                    st4 = st3\<lparr>on_gateway_seq := seq, on_wire := on_wire st3 @ out\<rparr>
                in if \<not> ok
                   then (False, es1 @ es2 @ es3 @ [metric_inc GatewayDisconnects,
                           metric_inc QueueDrops,
                           Log Error ''oms_node'' ''failed to send order to gateway''], st4)
                   else
                     let (reply, peer') = peer out (on_peer st4);
                         inbox = on_inbox st4 @ reply;
                         es4 = es1 @ es2 @ es3 @ [metric_inc OrdersSent];
                         st5 = st4\<lparr>on_peer := peer'\<rparr>
                     in case tcp_recv_envelope (nd_reply_answers env) (on_fd st5) inbox of
                       (None, es5, rest, _) \<Rightarrow>
                         (False, es4 @ es5 @ [metric_inc GatewayDisconnects,
                            Log Error ''oms_node'' ''gateway disconnected before response''],
                          st5\<lparr>on_inbox := rest\<rparr>)
                     | (Some response, es5, rest, _) \<Rightarrow>
                         let (es6, st6) = oms_node_answer env response (st5\<lparr>on_inbox := rest\<rparr>)
                         in (True, es4 @ es5 @ es6, st6))"

definition oms_node ::
  "(byte list \<Rightarrow> 'g \<Rightarrow> byte list \<times> 'g) \<Rightarrow> (nat \<Rightarrow> NodeEnv) \<Rightarrow> int \<Rightarrow> byte list
   \<Rightarrow> 'g OmsNode \<Rightarrow> effect list \<times> 'g OmsNode" where
  "oms_node peer envs strategy_fd stream st =
     serve [Log Warn ''oms_node'' ''strategy disconnected''] (oms_node_body peer)
       envs 0 strategy_fd stream st"

definition oms_node_limits :: RiskLimits where
  "oms_node_limits =
     \<lparr>lim_max_position = 10, lim_max_order_qty = 2, lim_max_notional = 100000000\<rparr>"

definition oms_node_new ::
  "int \<Rightarrow> int \<Rightarrow> bool \<Rightarrow> byte list \<Rightarrow> byte list \<Rightarrow> 'g \<Rightarrow> 'g OmsNode" where
  "oms_node_new fd replay_fd can_open old_replay old_journal peer0 =
     \<lparr>on_oms = oms_new 3 oms_node_limits,
      on_journal = snd (snd (journal_open can_open (journal_writer_new old_journal))),
      on_journal_seq = 0, on_gateway_seq = 0,
      on_replay = snd (snd (replay_writer_open replay_fd
                    (replay_writer_new RW_Truncate NR_OMS old_replay))),
      on_replay_seq = 0, on_fd = fd, on_wire = [], on_inbox = [], on_peer = peer0\<rparr>"

section \<open>gateway_node\<close>

datatype GatewayMode = GM_Kraken | GM_Sim

text \<open>
  \<open>gn_venue\<close> is the state of the Kraken gateway object, reached through \<open>kraken\<close>: whether the order
  was accepted, and the raw response.
\<close>

record 'k GatewayNode =
  gn_mode :: GatewayMode
  gn_simulated :: ExchangeGateway
  gn_venue :: 'k
  gn_response_seq :: Sequence
  gn_synthetic_exchange_id :: OrderId
  gn_replay :: ReplayWriter
  gn_fd :: int
  gn_wire :: "byte list"
  gn_inbox :: "byte list"

definition make_ack_from_order :: "TimestampNs \<Rightarrow> NewOrder \<Rightarrow> OrderId \<Rightarrow> Envelope" where
  "make_ack_from_order t ord exchange_order_id =
     ack_env (Ack0\<lparr>ack_header := MessageHeader0\<lparr>hdr_type := MT_Ack, hdr_source_node := 4,
         hdr_destination_node := 3, hdr_sequence := hdr_sequence (ord_header ord),
         hdr_send_ts_ns := t\<rparr>,
       ack_client_order_id := ord_client_order_id ord,
       ack_exchange_order_id := exchange_order_id, ack_state := OS_Accepted\<rparr>)"

definition make_reject_from_order :: "TimestampNs \<Rightarrow> NewOrder \<Rightarrow> RejectReason \<Rightarrow> Envelope" where
  "make_reject_from_order t ord reason =
     reject_env (Reject0\<lparr>rej_header := MessageHeader0\<lparr>hdr_type := MT_Reject, hdr_source_node := 4,
         hdr_destination_node := 3, hdr_sequence := hdr_sequence (ord_header ord),
         hdr_send_ts_ns := t\<rparr>,
       rej_client_order_id := ord_client_order_id ord, rej_reason := reason\<rparr>)"

definition gateway_respond ::
  "(NewOrder \<Rightarrow> 'k \<Rightarrow> (bool \<times> string) \<times> 'k) \<Rightarrow> NodeEnv \<Rightarrow> NewOrder \<Rightarrow> 'k GatewayNode
   \<Rightarrow> Envelope \<times> effect list \<times> 'k GatewayNode" where
  "gateway_respond kraken env ord st =
     (case gn_mode st of
        GM_Kraken \<Rightarrow>
          (let ((success, raw_response), venue) = kraken ord (gn_venue st);
               st1 = st\<lparr>gn_venue := venue\<rparr>
           in if success
              then let id = gn_synthetic_exchange_id st1 + 1
                   in (make_ack_from_order (nd_now env 0) ord id,
                       [metric_inc AcksReceived,
                        Log Info ''gateway_node'' ''Kraken Futures Demo accepted order''],
                       st1\<lparr>gn_synthetic_exchange_id := id\<rparr>)
              else (make_reject_from_order (nd_now env 0) ord RR_GatewayUnavailable,
                    [metric_inc OrdersRejected, Log Error ''gateway_node'' raw_response], st1))
      | GM_Sim \<Rightarrow>
          (case gateway_send_order (nd_now env 0) ord (gn_simulated st) of
             (None, sim) \<Rightarrow>
               (make_reject_from_order (nd_now env 1) ord RR_GatewayUnavailable,
                [metric_inc OrdersRejected], st\<lparr>gn_simulated := sim\<rparr>)
           | (Some response, sim) \<Rightarrow>
               (response,
                if env_type response = MT_Ack then [metric_inc AcksReceived]
                else if env_type response = MT_Reject then [metric_inc OrdersRejected] else [],
                st\<lparr>gn_simulated := sim\<rparr>)))"

text \<open>The response gets the node's own sequence number and a new time stamp.\<close>

definition restamp :: "Sequence \<Rightarrow> TimestampNs \<Rightarrow> Envelope \<Rightarrow> Envelope" where
  "restamp seq t e =
     (let stamp = (\<lambda>h. h\<lparr>hdr_sequence := seq, hdr_send_ts_ns := t\<rparr>)
      in if env_type e = MT_Ack then
           (case env_payload e of
              P_Ack a \<Rightarrow> e\<lparr>env_payload := P_Ack (a\<lparr>ack_header := stamp (ack_header a)\<rparr>)\<rparr> | _ \<Rightarrow> e)
         else if env_type e = MT_Reject then
           (case env_payload e of
              P_Reject r \<Rightarrow> e\<lparr>env_payload := P_Reject (r\<lparr>rej_header := stamp (rej_header r)\<rparr>)\<rparr>
            | _ \<Rightarrow> e)
         else if env_type e = MT_Fill then
           (case env_payload e of
              P_Fill f \<Rightarrow> e\<lparr>env_payload := P_Fill (f\<lparr>fill_header := stamp (fill_header f)\<rparr>)\<rparr> | _ \<Rightarrow> e)
         else e)"

definition gateway_node_body ::
  "(NewOrder \<Rightarrow> 'k \<Rightarrow> (bool \<times> string) \<times> 'k) \<Rightarrow> NodeEnv \<Rightarrow> Envelope \<Rightarrow> 'k GatewayNode
   \<Rightarrow> bool \<times> effect list \<times> 'k GatewayNode" where
  "gateway_node_body kraken env e st =
     (case (if env_type e \<noteq> MT_NewOrder then None else payload_new_order (env_payload e)) of
        None \<Rightarrow> (True, [], st)
      | Some ord \<Rightarrow>
          let (response, es1, st1) = gateway_respond kraken env ord st;
              seq = gn_response_seq st1 + 1;
              out_env = restamp seq (nd_now env 2) response;
              (_, es2, _, replay_writer) = replay_append (nd_write_answers env 0) (nd_pad env 0)
                 (nd_copy_pad env 0) out_env seq (nd_now env 3) (gn_replay st1);
              (ok, out, es3, _) = tcp_send_envelope (nd_send_answers env) (nd_pad env 0) out_env seq
                 (gn_fd st1);
              es4 = [metric_inc OrdersSent] @ es1 @ es2 @ es3;
              st2 = st1\<lparr>gn_response_seq := seq, gn_replay := replay_writer,
                        gn_wire := gn_wire st1 @ out\<rparr>
          in if \<not> ok
             then (False, es4 @ [metric_inc GatewayDisconnects, metric_inc QueueDrops,
                     Log Error ''gateway_node'' ''failed to send gateway response to OMS''], st2)
             else (True, es4 @ [Log Info ''gateway_node''
                                  ''processed NewOrder and returned exchange response'']
                     @ (if seq mod 25 = 0 then [WriteJsonl ''metrics/gateway_node.jsonl''] else []),
                   st2))"

definition gateway_node ::
  "(NewOrder \<Rightarrow> 'k \<Rightarrow> (bool \<times> string) \<times> 'k) \<Rightarrow> (nat \<Rightarrow> NodeEnv) \<Rightarrow> byte list \<Rightarrow> 'k GatewayNode
   \<Rightarrow> effect list \<times> 'k GatewayNode" where
  "gateway_node kraken envs stream st =
     serve [metric_inc GatewayDisconnects, Log Warn ''gateway_node'' ''OMS disconnected'']
       (gateway_node_body kraken) envs 0 (gn_fd st) stream st"

definition gateway_node_new :: "GatewayMode \<Rightarrow> 'k \<Rightarrow> int \<Rightarrow> int \<Rightarrow> byte list \<Rightarrow> 'k GatewayNode" where
  "gateway_node_new mode venue fd replay_fd old =
     \<lparr>gn_mode = mode, gn_simulated = gateway_new 4, gn_venue = venue, gn_response_seq = 0,
      gn_synthetic_exchange_id = 50000,
      gn_replay = snd (snd (replay_writer_open replay_fd
                    (replay_writer_new RW_Truncate NR_Gateway old))),
      gn_fd = fd, gn_wire = [], gn_inbox = []\<rparr>"

text \<open>
  The gateway node as the other side of the order manager: a request arrives, one iteration of its
  loop runs on it, and what the iteration sends is the reply.  The state counts the iterations.
\<close>

definition gateway_peer ::
  "(NewOrder \<Rightarrow> 'k \<Rightarrow> (bool \<times> string) \<times> 'k) \<Rightarrow> (nat \<Rightarrow> NodeEnv) \<Rightarrow> byte list
   \<Rightarrow> nat \<times> 'k GatewayNode \<Rightarrow> byte list \<times> nat \<times> 'k GatewayNode" where
  "gateway_peer kraken envs request = (\<lambda>(i, st).
     case tcp_recv_envelope (nd_recv_answers (envs i)) (gn_fd st) (gn_inbox st @ request) of
        (None, _, _, _) \<Rightarrow> ([], i, st\<lparr>gn_inbox := gn_inbox st @ request\<rparr>)
      | (Some e, _, rest, _) \<Rightarrow>
          (let (_, _, st') = gateway_node_body kraken (envs i) e (st\<lparr>gn_inbox := rest\<rparr>)
           in (drop (length (gn_wire st)) (gn_wire st'), Suc i, st')))"

end
