(* ===== verification/Replay_Tools.thy ===== *)
theory Replay_Tools
  imports Replay Strategy_Engine Exchange_Gateway "HOL-Library.Multiset"
    "HOL-Library.Product_Lexorder"
begin

text \<open>
  The programs over replay files: apps/replay_run.cpp drives strategy, order manager and gateway
  from a recording, apps/replay_merge.cpp merges recordings by time, apps/replay_timeline.cpp prints
  one.  A clock reading is an argument: reading \<open>k\<close> of iteration \<open>i\<close> is \<open>clk i k\<close>.
\<close>

section \<open>replay_run\<close>

record ReplayStats =
  rs_events_read :: u64
  rs_market_data_events :: u64
  rs_signals_generated :: u64
  rs_orders_generated :: u64
  rs_acks_generated :: u64
  rs_rejects_generated :: u64
  rs_corrupt_records :: u64

definition ReplayStats0 :: ReplayStats where
  "ReplayStats0 = \<lparr>rs_events_read = 0, rs_market_data_events = 0, rs_signals_generated = 0,
     rs_orders_generated = 0, rs_acks_generated = 0, rs_rejects_generated = 0,
     rs_corrupt_records = 0\<rparr>"

record ReplayRun =
  run_strategy :: StrategyEngine
  run_oms :: OrderManager
  run_gateway :: ExchangeGateway
  run_stats :: ReplayStats

definition replay_run_limits :: RiskLimits where
  "replay_run_limits =
     \<lparr>lim_max_position = 10, lim_max_order_qty = 2, lim_max_notional = 100000000\<rparr>"

definition replay_run_start :: ReplayRun where
  "replay_run_start = \<lparr>run_strategy = strategy_new 2, run_oms = oms_new 3 replay_run_limits,
     run_gateway = gateway_new 4, run_stats = ReplayStats0\<rparr>"

text \<open>One iteration; \<open>None\<close> of a payload accessor is a tag that does not fit, which no branch here meets.\<close>

definition replay_run_step :: "(nat \<Rightarrow> TimestampNs) \<Rightarrow> ReplayEvent \<Rightarrow> ReplayRun \<Rightarrow> ReplayRun" where
  "replay_run_step now ev run =
     (let e = replay_envelope ev; stats = run_stats run;
          stats1 = stats\<lparr>rs_events_read := rs_events_read stats + 1\<rparr>
      in case (if env_type e \<noteq> MT_MarketData then None else payload_market_data (env_payload e)) of
        None \<Rightarrow> run\<lparr>run_stats := stats1\<rparr>
      | Some md \<Rightarrow>
          let stats2 = stats1\<lparr>rs_market_data_events := rs_market_data_events stats1 + 1\<rparr>;
              (maybe_signal, strategy) = strategy_on_market_data (now 0) md (run_strategy run);
              run2 = run\<lparr>run_strategy := strategy, run_stats := stats2\<rparr>
          in case maybe_signal of
            None \<Rightarrow> run2
          | Some signal \<Rightarrow>
              let stats3 = stats2\<lparr>rs_signals_generated := rs_signals_generated stats2 + 1\<rparr>;
                  (maybe_order, oms) = oms_on_signal (now 1) (now 2) signal (run_oms run2);
                  run3 = run2\<lparr>run_oms := oms, run_stats := stats3\<rparr>
              in case maybe_order of
                None \<Rightarrow> run3
              | Some ord_env \<Rightarrow>
                  if env_type ord_env = MT_Reject
                  then run3\<lparr>run_stats :=
                         stats3\<lparr>rs_rejects_generated := rs_rejects_generated stats3 + 1\<rparr>\<rparr>
                  else case (if env_type ord_env \<noteq> MT_NewOrder then None
                             else payload_new_order (env_payload ord_env)) of
                    None \<Rightarrow> run3
                  | Some ord \<Rightarrow>
                      let stats4 = stats3\<lparr>rs_orders_generated := rs_orders_generated stats3 + 1\<rparr>;
                          (maybe_response, gateway) =
                            gateway_send_order (now 3) ord (run_gateway run3);
                          run4 = run3\<lparr>run_gateway := gateway, run_stats := stats4\<rparr>
                      in case maybe_response of
                        None \<Rightarrow> run4
                      | Some response \<Rightarrow>
                          let run5 = run4\<lparr>run_oms := oms_absorb response (run_oms run4)\<rparr>
                          in if env_type response = MT_Ack
                             then run5\<lparr>run_stats :=
                                    stats4\<lparr>rs_acks_generated := rs_acks_generated stats4 + 1\<rparr>\<rparr>
                             else if env_type response = MT_Reject
                             then run5\<lparr>run_stats :=
                                    stats4\<lparr>rs_rejects_generated := rs_rejects_generated stats4 + 1\<rparr>\<rparr>
                             else run5)"

function replay_run_loop ::
  "(nat \<Rightarrow> nat \<Rightarrow> TimestampNs) \<Rightarrow> nat \<Rightarrow> nat list \<Rightarrow> ReplayReader \<Rightarrow> ReplayRun
   \<Rightarrow> effect list \<times> ReplayReader \<times> ReplayRun" where
  "replay_run_loop clk i os r run =
     (case replay_next os r of
        (None, es, r', _) \<Rightarrow> (es, r', run)
      | (Some ev, es, r', os') \<Rightarrow>
          (let (fs, r'', run') = replay_run_loop clk (Suc i) os' r' (replay_run_step (clk i) ev run)
           in (es @ fs, r'', run')))"
  by pat_completeness auto
termination
  by (relation "measure (\<lambda>(clk, i, os, r, run). length (rr_stream r))")
     (auto dest: replay_next_shrinks)

declare replay_run_loop.simps [simp del]

definition replay_run_report :: "ReplayStats \<Rightarrow> effect list" where
  "replay_run_report s =
     map Stdout [''Replay complete'',
       ''events_read='' @ show_nat (unat (rs_events_read s)),
       ''market_data_events='' @ show_nat (unat (rs_market_data_events s)),
       ''signals_generated='' @ show_nat (unat (rs_signals_generated s)),
       ''orders_generated='' @ show_nat (unat (rs_orders_generated s)),
       ''acks_generated='' @ show_nat (unat (rs_acks_generated s)),
       ''rejects_generated='' @ show_nat (unat (rs_rejects_generated s))]"

definition replay_run_main ::
  "(nat \<Rightarrow> nat \<Rightarrow> TimestampNs) \<Rightarrow> nat list \<Rightarrow> int \<Rightarrow> byte list \<Rightarrow> nat \<times> effect list \<times> ReplayRun" where
  "replay_run_main clk os fd file =
     (case replay_reader_open fd file of
        (False, es, _) \<Rightarrow>
          (1, [Log Info ''replay_run'' ''starting deterministic replay run''] @ es, replay_run_start)
      | (True, es, r) \<Rightarrow>
          (let (fs, r', run) = replay_run_loop clk 0 os r replay_run_start
           in (0, [Log Info ''replay_run'' ''starting deterministic replay run''] @ es @ fs
                  @ replay_run_report (run_stats run)
                  @ [Log Info ''replay_run'' ''deterministic replay run complete''], run)))"

text \<open>The reader does not depend on the steps: the loop is a pass over the events it reads.\<close>

fun replay_run_events ::
  "(nat \<Rightarrow> nat \<Rightarrow> TimestampNs) \<Rightarrow> nat \<Rightarrow> ReplayEvent list \<Rightarrow> ReplayRun \<Rightarrow> ReplayRun" where
  "replay_run_events clk i [] run = run"
| "replay_run_events clk i (ev # evs) run =
     replay_run_events clk (Suc i) evs (replay_run_step (clk i) ev run)"

lemma replay_run_events_snoc:
  "replay_run_events clk i (evs @ [ev]) run
   = replay_run_step (clk (i + length evs)) ev (replay_run_events clk i evs run)"
  by (induction evs arbitrary: i run) simp_all

lemma replay_run_loop_events:
  "snd (snd (replay_run_loop clk i os r run)) = replay_run_events clk i (replay_read_all os r) run"
proof (induction clk i os r run rule: replay_run_loop.induct)
  case (1 clk i os r run)
  obtain out es r' os' where step: "replay_next os r = (out, es, r', os')"
    by (cases "replay_next os r")
  show ?case
  proof (cases out)
    case None
    with step show ?thesis
      by (simp add: replay_run_loop.simps [of clk i os r] replay_read_all.simps [of os r])
  next
    case (Some ev)
    with step "1.IH" [OF step [symmetric] Some refl refl]
    show ?thesis
      by (simp add: replay_run_loop.simps [of clk i os r] replay_read_all.simps [of os r]
          split_beta Let_def)
  qed
qed

section \<open>What a replay run computes\<close>

text \<open>
  The reference: the market data of a recording, the quote the book holds after each of them, the
  wide ones among these, and of those the ones whose order price is within the notional limit.
\<close>

definition event_market_data :: "ReplayEvent \<Rightarrow> MarketDataUpdate option" where
  "event_market_data ev = payload_market_data (env_payload (replay_envelope ev))"

definition recorded_updates :: "ReplayEvent list \<Rightarrow> MarketDataUpdate list" where
  "recorded_updates evs = List.map_filter event_market_data evs"

definition quotes_held :: "MarketDataUpdate list \<Rightarrow> MarketDataUpdate list" where
  "quotes_held us = map (\<lambda>n. tob_last (tob_run (take (Suc n) us) TopOfBook0)) [0..<length us]"

definition priced_within :: "RiskLimits \<Rightarrow> MarketDataUpdate \<Rightarrow> bool" where
  "priced_within lim q \<longleftrightarrow> sint (md_bid_px q + 1) \<le> sint (lim_max_notional lim)"

definition accepted_ids :: "RiskLimits \<Rightarrow> MarketDataUpdate list \<Rightarrow> ClientOrderId set" where
  "accepted_ids lim qs = (\<lambda>i. of_nat (Suc i)) ` {i. i < length qs \<and> priced_within lim (qs ! i)}"

lemma quotes_held_snoc:
  "quotes_held (us @ [u]) = quotes_held us @ [tob_last (tob_run (us @ [u]) TopOfBook0)]"
  by (simp add: quotes_held_def)

lemma accepted_ids_Nil: "accepted_ids lim [] = {}"
  by (simp add: accepted_ids_def)

lemma accepted_ids_snoc:
  "accepted_ids lim (qs @ [q])
   = (if priced_within lim q then insert (of_nat (Suc (length qs))) (accepted_ids lim qs)
      else accepted_ids lim qs)"
proof -
  have "{i. i < length (qs @ [q]) \<and> priced_within lim ((qs @ [q]) ! i)}
      = {i. i < length qs \<and> priced_within lim (qs ! i)}
        \<union> (if priced_within lim q then {length qs} else {})"
    by (auto simp: nth_append less_Suc_eq)
  then show ?thesis by (simp add: accepted_ids_def image_Un del: of_nat_Suc)
qed

lemma event_market_data_type:
  "event_market_data ev =
     (if env_type (replay_envelope ev) \<noteq> MT_MarketData then None
      else payload_market_data (env_payload (replay_envelope ev)))"
  by (cases "msg_type_of_byte (rd8 0 (re_image ev))")
     (simp_all add: event_market_data_def replay_envelope_def envelope_of_bytes_def Let_def)

lemma recorded_updates_snoc:
  "recorded_updates (evs @ [ev])
   = recorded_updates evs @ (case event_market_data ev of None \<Rightarrow> [] | Some u \<Rightarrow> [u])"
  by (simp add: recorded_updates_def List.map_filter_def split: option.split)

lemma risk_check_one_lot:
  assumes "ord_qty ord = 1" and "ord_side ord = Buy" and "om_risk om = risk_new replay_run_limits"
  shows "risk_check (om_risk om) ord
    = (if sint (ord_limit_px ord) \<le> 100000000 then RR_None else RR_RiskLimit)"
  using assms by (simp add: risk_check_def risk_new_def replay_run_limits_def signed_qty_def llabs_def)


definition replay_reference :: "ReplayEvent list \<Rightarrow> ReplayStats \<times> ClientOrderId set" where
  "replay_reference evs =
     (let us = recorded_updates evs; qs = filter wide_quote (quotes_held us);
          ok = filter (priced_within replay_run_limits) qs
      in (\<lparr>rs_events_read = of_nat (length evs), rs_market_data_events = of_nat (length us),
           rs_signals_generated = of_nat (length qs), rs_orders_generated = of_nat (length ok),
           rs_acks_generated = of_nat (length ok),
           rs_rejects_generated = of_nat (length qs - length ok), rs_corrupt_records = 0\<rparr>,
          accepted_ids replay_run_limits qs))"

definition run_matches :: "ReplayEvent list \<Rightarrow> ReplayRun \<Rightarrow> bool" where
  "run_matches evs run \<longleftrightarrow>
     (run_stats run, om_live_orders (run_oms run)) = replay_reference evs
     \<and> str_book (run_strategy run) = tob_run (recorded_updates evs) TopOfBook0
     \<and> om_risk (run_oms run) = risk_new replay_run_limits
     \<and> om_next_client_order_id (run_oms run)
         = of_nat (Suc (length (filter wide_quote (quotes_held (recorded_updates evs)))))
     \<and> gw_available (run_gateway run)"

lemma run_matches_start: "run_matches [] replay_run_start"
  by (simp add: run_matches_def replay_reference_def replay_run_start_def recorded_updates_def
      List.map_filter_def quotes_held_def accepted_ids_def ReplayStats0_def strategy_new_def
      oms_new_def gateway_new_def tob_run_def)

lemma replay_run_step_other:
  "event_market_data ev = None \<Longrightarrow> replay_run_step now ev run
   = run\<lparr>run_stats := (run_stats run)\<lparr>rs_events_read := rs_events_read (run_stats run) + 1\<rparr>\<rparr>"
  by (simp add: replay_run_step_def event_market_data_type Let_def)

lemma replay_run_step_update:
  assumes u: "event_market_data ev = Some u"
    and risk: "om_risk (run_oms run) = risk_new replay_run_limits"
    and up: "gw_available (run_gateway run)"
    and q_def: "q = strategy_view u (run_strategy run)"
    and run': "run' = replay_run_step now ev run"
  shows "str_book (run_strategy run') = tob_apply u (str_book (run_strategy run))
    \<and> om_risk (run_oms run') = risk_new replay_run_limits \<and> gw_available (run_gateway run')
    \<and> om_next_client_order_id (run_oms run')
        = om_next_client_order_id (run_oms run) + (if wide_quote q then 1 else 0)
    \<and> om_live_orders (run_oms run')
        = (if wide_quote q \<and> priced_within replay_run_limits q
           then insert (om_next_client_order_id (run_oms run)) (om_live_orders (run_oms run))
           else om_live_orders (run_oms run))
    \<and> run_stats run' = (let s = run_stats run in
        s\<lparr>rs_events_read := rs_events_read s + 1,
          rs_market_data_events := rs_market_data_events s + 1,
          rs_signals_generated := rs_signals_generated s + (if wide_quote q then 1 else 0),
          rs_orders_generated := rs_orders_generated s
            + (if wide_quote q \<and> priced_within replay_run_limits q then 1 else 0),
          rs_acks_generated := rs_acks_generated s
            + (if wide_quote q \<and> priced_within replay_run_limits q then 1 else 0),
          rs_rejects_generated := rs_rejects_generated s
            + (if wide_quote q \<and> \<not> priced_within replay_run_limits q then 1 else 0)\<rparr>)"
proof -
  let ?om = "run_oms run"
  show ?thesis
  proof (cases rule: strategy_cases [of u "run_strategy run" "now 0"])
    case narrow
    with u show ?thesis
      by (simp add: run' q_def replay_run_step_def event_market_data_type Let_def risk up
          split: if_splits)
  next
    case (wide s)
    have one_lot: "risk_check (om_risk ?om) (oms_make_order (now 1) s ?om)
        = (if priced_within replay_run_limits q then RR_None else RR_RiskLimit)"
      using wide(3-5) risk
      by (subst risk_check_one_lot)
         (simp_all add: oms_make_order_def NewOrder0_def priced_within_def q_def replay_run_limits_def)
    show ?thesis
    proof (cases rule: oms_on_signal_cases [of ?om "now 1" s "now 2"])
      case (accepted ord)
      obtain a g' where ack: "gateway_send_order (now 3) ord (run_gateway run) = (Some (ack_env a), g')"
        "ack_client_order_id a = ord_client_order_id ord" "gw_available g'"
        using gateway_available_acks [OF up] by blast
      have "priced_within replay_run_limits q"
        using one_lot accepted(1) by (simp split: if_splits)
      with u wide accepted(3) ack show ?thesis
        by (simp add: run' q_def replay_run_step_def event_market_data_type Let_def risk
            oms_absorb_def oms_on_gateway_ack_def split: if_splits)
    next
      case (rejected r)
      have "\<not> priced_within replay_run_limits q"
        using one_lot rejected(1) by (simp split: if_splits)
      with u wide rejected(4) show ?thesis
        by (simp add: run' q_def replay_run_step_def event_market_data_type Let_def risk up
            split: if_splits)
    qed
  qed
qed

lemma run_matches_step:
  assumes "run_matches evs run"
  shows "run_matches (evs @ [ev]) (replay_run_step now ev run)"
proof (cases "event_market_data ev")
  case None
  with assms show ?thesis
    by (simp add: run_matches_def replay_reference_def recorded_updates_snoc
        replay_run_step_other Let_def)
next
  case (Some u)
  let ?us = "recorded_updates evs" and ?q = "strategy_view u (run_strategy run)"
  have risk: "om_risk (run_oms run) = risk_new replay_run_limits"
    and up: "gw_available (run_gateway run)"
    using assms by (simp_all add: run_matches_def)
  note step = replay_run_step_update [OF Some risk up refl refl, of now]
  have q: "tob_last (tob_run (?us @ [u]) TopOfBook0) = ?q"
    using assms by (simp add: run_matches_def strategy_view_def tob_run_snoc)
  have le: "length (filter P xs) \<le> length xs" for P and xs :: "MarketDataUpdate list"
    by simp
  show ?thesis
    using assms step q le [of "priced_within replay_run_limits" "filter wide_quote (quotes_held ?us)"]
    by (simp add: run_matches_def replay_reference_def recorded_updates_snoc Some quotes_held_snoc
        accepted_ids_snoc tob_run_snoc Let_def Suc_diff_le of_nat_diff)
qed

lemma run_matches_events:
  "run_matches evs (replay_run_events clk 0 evs replay_run_start)"
proof (induction evs rule: rev_induct)
  case Nil
  then show ?case by (simp add: run_matches_start)
next
  case (snoc ev evs)
  then show ?case by (simp add: replay_run_events_snoc run_matches_step)
qed

text \<open>
  C16.  Replay is deterministic and does what it should: whatever the clock shows and however the
  operating system splits the reads, a run over a file reports exactly the figures of the reference
  (events read, market data, wide quotes, orders within the limit, acknowledgements, rejects), and
  leaves exactly the accepted orders live.
\<close>

theorem replay_run_reference:
  "(case replay_run_main clk os fd file of
      (code, es, run) \<Rightarrow> code = (if fd < 0 then 1 else 0)
        \<and> (run_stats run, om_live_orders (run_oms run))
            = replay_reference (if fd < 0 then [] else replay_events file))"
proof (cases "fd < 0")
  case True
  with run_matches_start show ?thesis
    by (simp add: replay_run_main_def replay_reader_open_def run_matches_def)
next
  case False
  let ?r = "\<lparr>rr_fd = fd, rr_stream = file\<rparr>"
  have "replay_read_all os ?r = replay_events file"
    using False by (simp add: replay_read_all_any replay_events_next [of "file"])
  then have "snd (snd (replay_run_loop clk 0 os ?r replay_run_start))
      = replay_run_events clk 0 (replay_events file) replay_run_start"
    by (simp add: replay_run_loop_events)
  with False run_matches_events [of "replay_events file" clk] show ?thesis
    by (auto simp: replay_run_main_def replay_reader_open_def run_matches_def split_beta Let_def)
qed

section \<open>replay_merge\<close>

text \<open>An input is the answer of \<open>open\<close>, the answers of its reads and the content of the file.\<close>

type_synonym replay_input = "int \<times> nat list \<times> byte list"

definition merge_before :: "ReplayEvent \<Rightarrow> ReplayEvent \<Rightarrow> bool" where
  "merge_before a b =
     (if rh_timestamp_ns (re_header a) \<noteq> rh_timestamp_ns (re_header b)
      then rh_timestamp_ns (re_header a) < rh_timestamp_ns (re_header b)
      else if rh_sequence (re_header a) \<noteq> rh_sequence (re_header b)
      then rh_sequence (re_header a) < rh_sequence (re_header b)
      else unat (node_role_byte (rh_node_role (re_header a)))
             < unat (node_role_byte (rh_node_role (re_header b))))"

text \<open>
  What \<open>std::sort\<close> promises: a permutation in which nothing comes before something it should
  follow.  It is not stable, so the result is not a function of the input; the model takes the
  sorting function as an argument.
\<close>

definition std_sorted :: "('a \<Rightarrow> 'a \<Rightarrow> bool) \<Rightarrow> 'a list \<Rightarrow> 'a list \<Rightarrow> bool" where
  "std_sorted before xs ys \<longleftrightarrow> mset ys = mset xs \<and> sorted_wrt (\<lambda>a b. \<not> before b a) ys"

fun merge_inputs :: "replay_input list \<Rightarrow> ReplayEvent list" where
  "merge_inputs [] = []"
| "merge_inputs ((fd, os, file) # inputs) =
     (case replay_reader_open fd file of
        (False, _, _) \<Rightarrow> merge_inputs inputs
      | (True, _, r) \<Rightarrow> replay_read_all os r @ merge_inputs inputs)"

fun merge_write :: "int list \<Rightarrow> ReplayEvent list \<Rightarrow> ReplayWriter \<Rightarrow> effect list \<times> ReplayWriter" where
  "merge_write os [] w = ([], w)"
| "merge_write os (ev # evs) w =
     (let (_, es, os', w') = replay_append_event os ev w; (fs, w'') = merge_write os' evs w'
      in (es @ fs, w''))"

text \<open>
  \<open>main\<close> with at least two arguments; \<open>fd\<close> and \<open>os\<close> are the answers for the output file and
  \<open>old\<close> its previous content.  The result is the exit code, the effects and the output file.
\<close>

definition replay_merge_main ::
  "(ReplayEvent list \<Rightarrow> ReplayEvent list) \<Rightarrow> replay_input list \<Rightarrow> int \<Rightarrow> int list \<Rightarrow> byte list
   \<Rightarrow> string \<Rightarrow> nat \<times> effect list \<times> byte list" where
  "replay_merge_main sort_events inputs fd os old output_path =
     (let events = sort_events (merge_inputs inputs)
      in case replay_writer_open fd (replay_writer_new RW_Truncate NR_Simulator old) of
        (False, es, w) \<Rightarrow> (1, es, rw_file w)
      | (True, es, w) \<Rightarrow>
          (let (fs, w') = merge_write os events w; (gs, w'') = replay_writer_close w'
           in (0, es @ fs @ gs @ [Stdout (''merged_events='' @ show_nat (length events)),
                                  Stdout (''output='' @ output_path)],
               rw_file w'')))"

text \<open>The comparison is the lexicographic order of time stamp, sequence and role.\<close>

definition merge_key :: "ReplayEvent \<Rightarrow> u64 \<times> u64 \<times> byte" where
  "merge_key ev = (rh_timestamp_ns (re_header ev), rh_sequence (re_header ev),
     node_role_byte (rh_node_role (re_header ev)))"

lemma merge_before_key: "merge_before a b \<longleftrightarrow> merge_key a < merge_key b"
  by (simp add: merge_before_def merge_key_def less_prod_def word_less_nat_alt [symmetric])
     (auto simp: order.strict_iff_order)

lemma std_sorted_key:
  "std_sorted merge_before xs ys \<longleftrightarrow> mset ys = mset xs \<and> sorted (map merge_key ys)"
  by (simp add: std_sorted_def merge_before_key sorted_wrt_map not_less)

lemma std_sorted_sort_key: "std_sorted merge_before xs (sort_key merge_key xs)"
  by (simp add: std_sorted_key)

text \<open>An event that was read is read again from its own bytes.\<close>

definition event_ok :: "ReplayEvent \<Rightarrow> bool" where
  "event_ok ev \<longleftrightarrow> canonical_role (rh_node_role (re_header ev))
     \<and> canonical_type (rh_message_type (re_header ev))
     \<and> rh_magic (re_header ev) = REPLAY_MAGIC \<and> rh_version (re_header ev) = REPLAY_VERSION
     \<and> rh_header_size (re_header ev) = of_nat replay_header_size
     \<and> rh_payload_size (re_header ev) = of_nat envelope_size
     \<and> length (re_image ev) = envelope_size
     \<and> checksum_bytes (re_image ev) = rh_checksum (re_header ev)"

lemma replay_read_one_ok: "replay_read_one bs = Some (ev, rest) \<Longrightarrow> event_ok ev"
  by (auto simp: replay_read_one_def event_ok_def Let_def replay_header_of_bytes_def
      split: if_splits)

lemma replay_events_ok: "list_all event_ok (replay_events bs)"
proof (induction "length bs" arbitrary: bs rule: less_induct)
  case less
  show ?case
  proof (cases "replay_read_one bs")
    case None
    then show ?thesis by (simp add: replay_events_next [of bs])
  next
    case (Some p)
    then obtain ev rest where p: "replay_read_one bs = Some (ev, rest)" by (cases p) auto
    from less replay_read_one_shrinks [OF p] replay_read_one_ok [OF p] p show ?thesis
      by (simp add: replay_events_next [of bs])
  qed
qed

interpretation merged: record_log replay_bytes replay_read_one replay_events "\<lambda>ev. ev" event_ok
proof unfold_locales
  fix ev rest
  assume "event_ok ev"
  then show "replay_read_one (replay_bytes ev @ rest) = Some (ev, rest)"
    by (simp add: replay_bytes_def event_ok_def replay_read_one_header)
next
  fix ev p s
  assume "event_ok ev" "replay_bytes ev = p @ s" "s \<noteq> []"
  then have "length p < length (replay_bytes ev)" by simp
  with \<open>event_ok ev\<close> have "length p < replay_header_size + envelope_size"
    by (simp add: replay_bytes_def event_ok_def)
  then show "replay_read_one p = None" by (simp add: replay_read_one_def)
qed (fact replay_events_next)

lemma merge_inputs_eq:
  "merge_inputs inputs
   = concat (map (\<lambda>(fd, _, file). if fd < 0 then [] else replay_events file) inputs)"
proof (induction inputs)
  case Nil
  then show ?case by simp
next
  case (Cons x inputs)
  obtain fd os bs where "x = (fd, os, bs)" by (cases x)
  then show ?case
    by (simp add: Cons replay_reader_open_def replay_read_all_any replay_events_next [of bs])
qed

lemma merge_inputs_ok: "list_all event_ok (merge_inputs inputs)"
  unfolding merge_inputs_eq using replay_events_ok by (auto simp: list_all_iff)

lemma merge_write_file:
  "list_all (\<lambda>a. 0 < a) os \<Longrightarrow> 0 \<le> rw_fd w \<Longrightarrow>
   rw_file (snd (merge_write os evs w)) = rw_file w @ merged.image evs"
proof (induction evs arbitrary: os w)
  case Nil
  then show ?case by simp
next
  case (Cons ev evs)
  obtain os' where app: "replay_append_event os ev w = (True, [metric_inc ReplayEventsWritten], os',
      w\<lparr>rw_file := rw_file w @ replay_bytes ev\<rparr>)" "list_all (\<lambda>a. 0 < a) os'"
    using replay_append_event_ok [OF Cons.prems(2,1)] by blast
  with Cons.IH [OF app(2)] Cons.prems(2) show ?case
    by (simp add: split_beta Let_def)
qed

text \<open>
  C24.  Merging recordings loses, invents and changes nothing: when no write fails, the merged file
  replays to a permutation of all the events of the inputs that could be opened, header and envelope
  bytes unchanged, ordered by time stamp, then sequence, then role; torn or damaged tails of the
  inputs do not spread into the output.
\<close>

theorem replay_merge_sorted:
  assumes "std_sorted merge_before (merge_inputs inputs) (sort_events (merge_inputs inputs))"
    and "list_all (\<lambda>a. 0 < a) os" and "0 \<le> fd"
    and "replay_merge_main sort_events inputs fd os old path = (code, es, merged_file)"
  shows "code = 0
    \<and> mset (replay_events merged_file)
        = (\<Sum>(fd, _, file)\<leftarrow>inputs. if fd < 0 then {#} else mset (replay_events file))
    \<and> sorted (map merge_key (replay_events merged_file))"
proof -
  let ?evs = "sort_events (merge_inputs inputs)"
  let ?w = "replay_writer_new RW_Truncate NR_Simulator old\<lparr>rw_fd := fd, rw_file := []\<rparr>"
  have sorted: "mset ?evs = mset (merge_inputs inputs)" "sorted (map merge_key ?evs)"
    using assms(1) by (simp_all add: std_sorted_key)
  have w: "0 \<le> rw_fd ?w" "rw_file ?w = []" using assms(3) by simp_all
  have "code = 0" and "merged_file = rw_file (snd (merge_write os ?evs ?w))"
    using assms(3,4)
    by (simp_all add: replay_merge_main_def replay_writer_open_def replay_writer_new_def
        replay_writer_close_def Let_def split_beta split: if_splits)
  then have code: "code = 0" and image: "merged_file = merged.image ?evs"
    using merge_write_file [OF assms(2) w(1)] w(2) by simp_all
  have "set ?evs = set (merge_inputs inputs)" using sorted(1) by (rule mset_eq_setD)
  then have "list_all event_ok ?evs"
    using merge_inputs_ok [of inputs] by (simp add: list_all_iff)
  from merged.read_image [OF this, of "[]"] have "replay_events merged_file = ?evs @ replay_events []"
    by (simp add: image)
  moreover have "replay_events [] = []"
    by (rule merged.read_stopped) (simp add: replay_read_one_def replay_header_size_def)
  ultimately have read: "replay_events merged_file = ?evs" by simp
  have "mset (merge_inputs inputs)
      = (\<Sum>(fd, _, file)\<leftarrow>inputs. if fd < 0 then {#} else mset (replay_events file))"
    unfolding merge_inputs_eq by (induction inputs) auto
  with code sorted read show ?thesis by simp
qed

theorem replay_merge_sorted_witness:
  "\<exists>es merged_file. replay_merge_main (sort_key merge_key)
       [(3, [5], replay_bytes (replay_view sample_replay_entry) @ [1, 2]), (-1, [], [7]),
        (4, [], replay_bytes (replay_view (sample_replay_entry\<lparr>rx_timestamp_ns := 4\<rparr>)))] 5 [20] [9] ''m''
       = (0, es, merged_file)
     \<and> sorted (map merge_key (replay_events merged_file))"
proof -
  let ?inputs = "[(3, [5], replay_bytes (replay_view sample_replay_entry) @ [1, 2]), (-1, [], [7]),
        (4, [], replay_bytes (replay_view (sample_replay_entry\<lparr>rx_timestamp_ns := 4\<rparr>)))]
      :: replay_input list"
  obtain code es merged_file where run:
    "replay_merge_main (sort_key merge_key) ?inputs 5 [20] [9] ''m'' = (code, es, merged_file)"
    by (cases "replay_merge_main (sort_key merge_key) ?inputs 5 [20] [9] ''m''")
  from replay_merge_sorted [OF std_sorted_sort_key _ _ run] run show ?thesis by auto
qed

section \<open>replay_timeline\<close>

text \<open>\<open>None\<close> is a symbol without terminator, which would be read past its end.\<close>

definition describe :: "ReplayEvent \<Rightarrow> string option" where
  "describe ev =
     (let e = replay_envelope ev; type = env_type e
      in if type = MT_MarketData then
           (case payload_market_data (env_payload e) of
              None \<Rightarrow> None
            | Some md \<Rightarrow> map_option (\<lambda>sym. ''MarketData symbol='' @ sym
                @ '' bid='' @ show_int (sint (md_bid_px md))
                @ '' ask='' @ show_int (sint (md_ask_px md))) (Symbol_str (md_symbol md)))
         else if type = MT_Signal then
           map_option (\<lambda>s. ''Signal side='' @ to_string_side (sig_side s)
             @ '' px='' @ show_int (sint (sig_limit_px s))
             @ '' qty='' @ show_int (sint (sig_qty s))) (payload_signal (env_payload e))
         else if type = MT_NewOrder then
           map_option (\<lambda>ord. ''NewOrder clOrdId='' @ show_nat (unat (ord_client_order_id ord))
             @ '' side='' @ to_string_side (ord_side ord)
             @ '' px='' @ show_int (sint (ord_limit_px ord))
             @ '' qty='' @ show_int (sint (ord_qty ord))) (payload_new_order (env_payload e))
         else if type = MT_Ack then
           map_option (\<lambda>a. ''Ack clOrdId='' @ show_nat (unat (ack_client_order_id a))
             @ '' exchOrderId='' @ show_nat (unat (ack_exchange_order_id a)))
             (payload_ack (env_payload e))
         else if type = MT_Reject then
           map_option (\<lambda>r. ''Reject clOrdId='' @ show_nat (unat (rej_client_order_id r)))
             (payload_reject (env_payload e))
         else Some (to_string_msg_type type))"

definition timeline_line :: "ReplayEvent \<Rightarrow> string option" where
  "timeline_line ev = map_option (\<lambda>d. show_nat (unat (rh_timestamp_ns (re_header ev))) @ '' | ''
     @ to_string_role (rh_node_role (re_header ev)) @ '' | seq=''
     @ show_nat (unat (rh_sequence (re_header ev))) @ '' | '' @ d) (describe ev)"

definition replay_timeline_main :: "nat list \<Rightarrow> int \<Rightarrow> byte list \<Rightarrow> nat \<times> string option list" where
  "replay_timeline_main os fd file =
     (case replay_reader_open fd file of
        (False, _, _) \<Rightarrow> (1, [])
      | (True, _, r) \<Rightarrow>
          (let events = replay_read_all os r
           in (0, map timeline_line events
                  @ [Some (''timeline_events='' @ show_nat (length events))])))"

end
