(* ===== verification/Session_Replay.thy ===== *)
theory Session_Replay
  imports Distributed_Nodes Replay_Tools
begin

text \<open>
  The distributed pipeline end to end: what the market data node, the strategy node, the order
  manager and the gateway leave on disk and on their connections when no write fails, and that
  replaying the recording of the market data node reproduces the session.
\<close>

definition node_env_ok :: "NodeEnv \<Rightarrow> bool" where
  "node_env_ok env \<longleftrightarrow> (\<forall>k<2. list_all (\<lambda>a. 0 < a) (nd_write_answers env k)
       \<and> nd_fault env k = None)
     \<and> list_all (\<lambda>a. 0 < a) (nd_send_answers env) \<and> nd_copy_pad env = nd_pad env"

lemma node_env_okD:
  assumes "node_env_ok env"
  shows "list_all (\<lambda>a. 0 < a) (nd_write_answers env 0)" "list_all (\<lambda>a. 0 < a) (nd_write_answers env 1)"
    "nd_fault env 0 = None" "nd_fault env 1 = None"
    "list_all (\<lambda>a. 0 < a) (nd_send_answers env)" "nd_copy_pad env = nd_pad env"
  using assms by (simp_all add: node_env_ok_def)

section \<open>The market data node\<close>

definition md_inv :: "MarketDataUpdate list \<Rightarrow> MarketDataNode \<Rightarrow> bool" where
  "md_inv us st \<longleftrightarrow> replay_holds (map market_data_env us) (mn_replay st)
     \<and> wire_holds (map market_data_env us) (mn_wire st) \<and> 0 \<le> mn_fd st"

lemma market_data_callback_inv:
  assumes "node_env_ok env" and "is_message (market_data_env (nmd_update md))" and "md_inv us st"
  shows "md_inv (us @ [nmd_update md]) (snd (market_data_callback env md st))"
proof -
  note env = node_env_okD [OF assms(1)]
  have st: "replay_holds (map market_data_env us) (mn_replay st)"
    "wire_holds (map market_data_env us) (mn_wire st)" "0 \<le> mn_fd st"
    using assms(3) by (simp_all add: md_inv_def)
  obtain os1 w' where rep: "replay_append (nd_write_answers env 0) (nd_pad env 0) (nd_pad env 0)
      (market_data_env (nmd_update md)) (mn_outbound_seq st + 1) (nd_now env 1) (mn_replay st)
    = (True, [metric_inc ReplayEventsWritten], os1, w')"
    "replay_holds (map market_data_env us @ [market_data_env (nmd_update md)]) w'"
    using replay_holds_append [OF st(1) assms(2) env(1)] by blast
  obtain os2 where send: "tcp_send_envelope (nd_send_answers env) (nd_pad env 0)
      (market_data_env (nmd_update md)) (mn_outbound_seq st + 1) (mn_fd st)
    = (True, tcp_frame (nd_pad env 0, market_data_env (nmd_update md), mn_outbound_seq st + 1), [], os2)"
    "wire_holds (map market_data_env us @ [market_data_env (nmd_update md)])
      (mn_wire st @ tcp_frame (nd_pad env 0, market_data_env (nmd_update md), mn_outbound_seq st + 1))"
    using wire_holds_send [OF st(2) assms(2) env(5) st(3)] by blast
  show ?thesis
    using rep send st(3) by (simp add: md_inv_def market_data_callback_def env(6) Let_def)
qed

lemma market_data_node_inv:
  assumes "\<forall>i. node_env_ok (envs i)"
    and "list_all (\<lambda>md. is_message (market_data_env (nmd_update md))) mds" and "md_inv us st"
  shows "md_inv (us @ map nmd_update mds) (snd (market_data_node envs i mds st))"
  using assms(2,3)
proof (induction mds arbitrary: us st i)
  case Nil
  then show ?case by simp
next
  case (Cons md mds)
  have "md_inv (us @ [nmd_update md]) (snd (market_data_callback (envs i) md st))"
    using Cons.prems assms(1) by (intro market_data_callback_inv) auto
  from Cons.IH [OF _ this, of "Suc i"] Cons.prems(1) show ?case
    by (simp add: split_beta Let_def)
qed

section \<open>The strategy node\<close>

definition received_updates :: "Envelope list \<Rightarrow> MarketDataUpdate list" where
  "received_updates es = List.map_filter (\<lambda>e. payload_market_data (env_payload e)) es"

lemma received_updates_snoc [simp]:
  "received_updates (es @ [market_data_env u]) = received_updates es @ [u]"
  by (simp add: received_updates_def List.map_filter_def)

lemma received_updates_map [simp]: "received_updates (map market_data_env us) = us"
  by (induction us) (simp_all add: received_updates_def List.map_filter_def)

text \<open>What an order of a signal is made from.\<close>

definition quote_key :: "MarketDataUpdate \<Rightarrow> SymbolId \<times> Price" where
  "quote_key q = (md_symbol_id q, md_bid_px q + 1)"

definition signal_key :: "Signal \<Rightarrow> SymbolId \<times> Price" where
  "signal_key s = (sig_symbol_id s, sig_limit_px s)"

definition one_lot_buy :: "Signal \<Rightarrow> bool" where
  "one_lot_buy s \<longleftrightarrow> sig_side s = Buy \<and> sig_qty s = 1 \<and> is_message (signal_env s)"

definition strategy_inv :: "Envelope list \<Rightarrow> StrategyNode \<Rightarrow> bool" where
  "strategy_inv es st \<longleftrightarrow> (\<exists>sigs. map signal_key sigs
         = map quote_key (filter wide_quote (quotes_held (received_updates es)))
       \<and> list_all one_lot_buy sigs
       \<and> replay_holds (map signal_env sigs) (sn_replay st)
       \<and> wire_holds (map signal_env sigs) (sn_wire st))
     \<and> str_book (sn_strategy st) = tob_run (received_updates es) TopOfBook0 \<and> 0 \<le> sn_fd st"

lemma strategy_signal:
  assumes "strategy_on_market_data t u st = (Some s, st')"
  shows "one_lot_buy s \<and> signal_key s = quote_key (strategy_view u st) \<and> wide_quote (strategy_view u st)"
  using assms
  by (auto simp: strategy_on_market_data_eq one_lot_buy_def signal_key_def quote_key_def
      wide_quote_def is_message_def well_tagged_def signal_env_def Envelope0_def Let_def
      split: if_splits)

lemma strategy_no_signal:
  "strategy_on_market_data t u st = (None, st') \<Longrightarrow> \<not> wide_quote (strategy_view u st)"
  by (auto simp: strategy_on_market_data_eq wide_quote_def Let_def split: if_splits)

lemma strategy_node_body_inv:
  assumes "node_env_ok env" and "strategy_inv es st"
  shows "fst (strategy_node_body env (market_data_env u) st)
    \<and> strategy_inv (es @ [market_data_env u]) (snd (snd (strategy_node_body env (market_data_env u) st)))"
proof -
  note env = node_env_okD [OF assms(1)]
  let ?us = "received_updates es" and ?q = "strategy_view u (sn_strategy st)"
  obtain sigs where sigs: "map signal_key sigs = map quote_key (filter wide_quote (quotes_held ?us))"
    "list_all one_lot_buy sigs" "replay_holds (map signal_env sigs) (sn_replay st)"
    "wire_holds (map signal_env sigs) (sn_wire st)"
    and book: "str_book (sn_strategy st) = tob_run ?us TopOfBook0" and fd: "0 \<le> sn_fd st"
    using assms(2) by (auto simp: strategy_inv_def)
  have held: "quotes_held (?us @ [u]) = quotes_held ?us @ [?q]"
    by (simp add: quotes_held_snoc strategy_view_def tob_run_snoc book)
  obtain sig str where run: "strategy_on_market_data (nd_now env 1) u (sn_strategy st) = (sig, str)"
    by (cases "strategy_on_market_data (nd_now env 1) u (sn_strategy st)")
  have book': "str_book str = tob_run (?us @ [u]) TopOfBook0"
    using strategy_book [of "nd_now env 1" u "sn_strategy st"] unfolding run
    by (simp add: book tob_run_snoc)
  show ?thesis
  proof (cases sig)
    case None
    with run have "\<not> wide_quote ?q" by (auto dest: strategy_no_signal)
    with sigs fd book' run None held show ?thesis
      by (simp add: strategy_node_body_def strategy_inv_def Let_def) blast
  next
    case (Some s)
    note s = strategy_signal [OF run [unfolded Some]]
    have msg: "is_message (signal_env s)" using s by (simp add: one_lot_buy_def)
    obtain os1 w' where rep: "replay_append (nd_write_answers env 0) (nd_pad env 0) (nd_pad env 0)
        (signal_env s) (sn_signal_seq st + 1) (nd_now env 2) (sn_replay st)
      = (True, [metric_inc ReplayEventsWritten], os1, w')"
      "replay_holds (map signal_env sigs @ [signal_env s]) w'"
      using replay_holds_append [OF sigs(3) msg env(1)] by blast
    obtain os2 where send: "tcp_send_envelope (nd_send_answers env) (nd_pad env 0)
        (signal_env s) (sn_signal_seq st + 1) (sn_fd st)
      = (True, tcp_frame (nd_pad env 0, signal_env s, sn_signal_seq st + 1), [], os2)"
      "wire_holds (map signal_env sigs @ [signal_env s])
        (sn_wire st @ tcp_frame (nd_pad env 0, signal_env s, sn_signal_seq st + 1))"
      using wire_holds_send [OF sigs(4) msg env(5) fd] by blast
    have "\<exists>sigs'. map signal_key sigs' = map quote_key (filter wide_quote (quotes_held (?us @ [u])))
       \<and> list_all one_lot_buy sigs' \<and> map signal_env sigs' = map signal_env sigs @ [signal_env s]"
      using sigs(1,2) s held by (intro exI [of _ "sigs @ [s]"]) simp
    with rep send fd book' run Some show ?thesis
      by (auto simp: strategy_node_body_def strategy_inv_def env(6) Let_def)
  qed
qed

lemma strategy_node_inv:
  assumes "\<forall>i. node_env_ok (envs i)" and "0 \<le> fd" and "wire_holds (map market_data_env us) stream"
    and "strategy_inv [] st"
  shows "strategy_inv (map market_data_env us) (snd (strategy_node envs fd stream st))"
proof -
  have step: "fst (strategy_node_body (envs k) e st')
      \<and> strategy_inv (pre @ [e]) (snd (snd (strategy_node_body (envs k) e st')))"
    if "\<exists>u. e = market_data_env u" and "strategy_inv pre st'" for k e pre st'
    using that strategy_node_body_inv [OF spec [OF assms(1)]] by blast
  have "list_all (\<lambda>e. \<exists>u. e = market_data_env u) (map market_data_env us)"
    by (auto simp: list_all_iff)
  from serve_list_inv [where I = strategy_inv and ok = "\<lambda>e. \<exists>u. e = market_data_env u"
      and body = strategy_node_body and envs = envs, OF step this assms(4), of 0]
  have "strategy_inv (map market_data_env us)
      (serve_list strategy_node_body envs 0 (map market_data_env us) st)"
    by simp
  then show ?thesis
    by (simp add: strategy_node_def serve_decoded [OF assms(2)] wire_holds_read [OF assms(3)])
qed

section \<open>The gateway node, answering\<close>

definition gateway_inv :: "Envelope list \<Rightarrow> nat \<times> 'k GatewayNode \<Rightarrow> bool" where
  "gateway_inv acks = (\<lambda>(i, st). gn_mode st = GM_Sim \<and> gw_available (gn_simulated st)
     \<and> replay_holds acks (gn_replay st) \<and> wire_holds acks (gn_wire st) \<and> gn_inbox st = []
     \<and> 0 \<le> gn_fd st)"

lemma gateway_respond_sim:
  assumes "gn_mode st = GM_Sim" and "gw_available (gn_simulated st)"
  obtains a es sim where "gateway_respond kraken env ord st
      = (ack_env a, es, st\<lparr>gn_simulated := sim\<rparr>)" "gw_available sim"
    "ack_client_order_id a = ord_client_order_id ord" "ack_state a = OS_Accepted"
  using assms by (simp add: gateway_respond_def gateway_send_order_def Let_def)

lemma restamp_ack:
  "restamp seq t (ack_env a) = ack_env (a\<lparr>ack_header := (ack_header a)\<lparr>hdr_sequence := seq,
     hdr_send_ts_ns := t\<rparr>\<rparr>)"
  by (simp add: restamp_def ack_env_def Envelope0_def Let_def)

lemma gateway_peer_answers:
  assumes "\<forall>i. node_env_ok (envs i)" and "is_message (new_order_env ord)"
    and "gateway_inv acks (i, st)"
  obtains a pad seq' st' where "gateway_peer kraken envs (tcp_frame (p, new_order_env ord, seq)) (i, st)
      = (tcp_frame (pad, ack_env a, seq'), Suc i, st')"
    and "is_message (ack_env a)" and "ack_client_order_id a = ord_client_order_id ord"
    and "gateway_inv (acks @ [ack_env a]) (Suc i, st')"
proof -
  let ?env = "envs i"
  note env = node_env_okD [OF spec [OF assms(1)], of i]
  have st: "gn_mode st = GM_Sim" "gw_available (gn_simulated st)" "replay_holds acks (gn_replay st)"
    "wire_holds acks (gn_wire st)" "gn_inbox st = []" "0 \<le> gn_fd st"
    using assms(3) by (simp_all add: gateway_inv_def)
  obtain os' where recv: "tcp_recv_envelope (nd_recv_answers ?env) (gn_fd st)
      (tcp_frame (p, new_order_env ord, seq)) = (Some (new_order_env ord), [], [], os')"
    using tcp_recv_single [OF assms(2) st(6)] by blast
  obtain a es sim where resp: "gateway_respond kraken ?env ord (st\<lparr>gn_inbox := []\<rparr>)
      = (ack_env a, es, st\<lparr>gn_inbox := [], gn_simulated := sim\<rparr>)" "gw_available sim"
    "ack_client_order_id a = ord_client_order_id ord" "ack_state a = OS_Accepted"
    "canonical_type (hdr_type (ack_header a))"
    using st(1,2) by (simp add: gateway_respond_def gateway_send_order_def Let_def)
  let ?seq = "gn_response_seq st + 1" and ?t = "nd_now ?env 2"
  let ?a = "a\<lparr>ack_header := (ack_header a)\<lparr>hdr_sequence := ?seq, hdr_send_ts_ns := ?t\<rparr>\<rparr>"
  have msg: "is_message (ack_env ?a)"
    using resp(4,5) by (simp add: is_message_def)
  obtain os1 w' where rep: "replay_append (nd_write_answers ?env 0) (nd_pad ?env 0) (nd_pad ?env 0)
      (ack_env ?a) ?seq (nd_now ?env 3) (gn_replay st)
    = (True, [metric_inc ReplayEventsWritten], os1, w')" "replay_holds (acks @ [ack_env ?a]) w'"
    using replay_holds_append [OF st(3) msg env(1)] by blast
  obtain os2 where send: "tcp_send_envelope (nd_send_answers ?env) (nd_pad ?env 0) (ack_env ?a) ?seq
      (gn_fd st) = (True, tcp_frame (nd_pad ?env 0, ack_env ?a, ?seq), [], os2)"
    "wire_holds (acks @ [ack_env ?a]) (gn_wire st @ tcp_frame (nd_pad ?env 0, ack_env ?a, ?seq))"
    using wire_holds_send [OF st(4) msg env(5) st(6)] by blast
  let ?st = "st\<lparr>gn_inbox := [], gn_simulated := sim, gn_response_seq := ?seq, gn_replay := w',
    gn_wire := gn_wire st @ tcp_frame (nd_pad ?env 0, ack_env ?a, ?seq)\<rparr>"
  have "gateway_peer kraken envs (tcp_frame (p, new_order_env ord, seq)) (i, st)
      = (tcp_frame (nd_pad ?env 0, ack_env ?a, ?seq), Suc i, ?st)"
    using rep(1) send(1)
    by (simp add: gateway_peer_def recv st(5) gateway_node_body_def resp(1) restamp_ack env(6)
        numeral_2_eq_2 numeral_3_eq_3 Let_def)
  moreover have "gateway_inv (acks @ [ack_env ?a]) (Suc i, ?st)"
    using st resp(2) rep(2) send(2) by (simp add: gateway_inv_def)
  ultimately show thesis using that msg resp(3) by simp
qed

section \<open>The order manager node\<close>

definition accepted_orders ::
  "RiskLimits \<Rightarrow> (SymbolId \<times> Price) list \<Rightarrow> (ClientOrderId \<times> SymbolId \<times> Price) list" where
  "accepted_orders lim xs = map (\<lambda>i. (of_nat (Suc i), xs ! i))
     (filter (\<lambda>i. sint (snd (xs ! i)) \<le> sint (lim_max_notional lim)) [0..<length xs])"

lemma accepted_orders_Nil [simp]: "accepted_orders lim [] = []"
  by (simp add: accepted_orders_def)

lemma accepted_orders_snoc:
  "accepted_orders lim (xs @ [x]) = accepted_orders lim xs
     @ (if sint (snd x) \<le> sint (lim_max_notional lim) then [(of_nat (Suc (length xs)), x)] else [])"
proof -
  have "map (\<lambda>i. (of_nat (Suc i), (xs @ [x]) ! i))
        (filter (\<lambda>i. sint (snd ((xs @ [x]) ! i)) \<le> sint (lim_max_notional lim)) [0..<length xs])
      = accepted_orders lim xs"
    unfolding accepted_orders_def by (intro map_cong filter_cong refl) (auto simp: nth_append)
  then show ?thesis by (simp add: accepted_orders_def)
qed

lemma accepted_orders_ids:
  "fst ` set (accepted_orders lim (map quote_key qs)) = accepted_ids lim qs"
proof -
  have "{i \<in> set [0..<length (map quote_key qs)]. sint (snd (map quote_key qs ! i)) \<le> sint (lim_max_notional lim)}
      = {i. i < length qs \<and> priced_within lim (qs ! i)}"
    by (auto simp: quote_key_def priced_within_def)
  then show ?thesis
    unfolding accepted_orders_def accepted_ids_def set_map set_filter image_image fst_conv
    by (rule arg_cong)
qed

definition order_key :: "NewOrder \<Rightarrow> ClientOrderId \<times> SymbolId \<times> Price" where
  "order_key ord = (ord_client_order_id ord, ord_symbol_id ord, ord_limit_px ord)"

definition received_signals :: "Envelope list \<Rightarrow> Signal list" where
  "received_signals es = List.map_filter (\<lambda>e. payload_signal (env_payload e)) es"

lemma received_signals_snoc [simp]:
  "received_signals (es @ [signal_env s]) = received_signals es @ [s]"
  by (simp add: received_signals_def List.map_filter_def)

lemma received_signals_map [simp]: "received_signals (map signal_env ss) = ss"
  by (induction ss) (simp_all add: received_signals_def List.map_filter_def)

text \<open>The exchanges of a session: each an order and the acknowledgement that answers it.\<close>

definition exchange_ok :: "NewOrder \<times> Ack \<Rightarrow> bool" where
  "exchange_ok = (\<lambda>(ord, a). ack_client_order_id a = ord_client_order_id ord
     \<and> ord_side ord = Buy \<and> ord_qty ord = 1)"

definition oms_node_inv :: "Envelope list \<Rightarrow> (nat \<times> 'k GatewayNode) OmsNode \<Rightarrow> bool" where
  "oms_node_inv es st \<longleftrightarrow> (\<exists>xs.
       map (\<lambda>x. order_key (fst x)) xs
         = accepted_orders oms_node_limits (map signal_key (received_signals es))
       \<and> list_all exchange_ok xs
       \<and> journal_holds (concat (map (\<lambda>(ord, a). [(JR_OrderIntent, new_order_env ord),
           (JR_GatewayAck, ack_env a)]) xs)) (on_journal st)
       \<and> replay_holds (concat (map (\<lambda>(ord, a). [new_order_env ord, ack_env a]) xs)) (on_replay st)
       \<and> wire_holds (map (\<lambda>x. new_order_env (fst x)) xs) (on_wire st)
       \<and> gateway_inv (map (\<lambda>x. ack_env (snd x)) xs) (on_peer st)
       \<and> om_live_orders (on_oms st) = (\<lambda>x. ord_client_order_id (fst x)) ` set xs)
     \<and> om_risk (on_oms st) = risk_new oms_node_limits
     \<and> om_next_client_order_id (on_oms st) = of_nat (Suc (length (received_signals es)))
     \<and> on_inbox st = [] \<and> 0 \<le> on_fd st"

lemma oms_node_limits_same: "oms_node_limits = replay_run_limits"
  by (simp add: oms_node_limits_def replay_run_limits_def)

lemma oms_node_journal_holds:
  assumes "journal_holds rs (on_journal st)" and "is_message e" and "canonical_journal_type rt"
    and "nd_fault env k = None"
  shows "\<exists>es seq w. oms_node_journal env k c rt e st
      = (es, st\<lparr>on_journal_seq := seq, on_journal := w\<rparr>) \<and> journal_holds (rs @ [(rt, e)]) w"
proof -
  obtain w where "journal_append (nd_can_open env) None (nd_pad env k) (nd_now env c) rt e
      (on_journal_seq st + 1) (on_journal st)
    = (True, [Log Info ''journal'' ''appended journal record'', metric_inc JournalWrites], w)"
    "journal_holds (rs @ [(rt, e)]) w"
    using journal_holds_append [OF assms(1-3)] by blast
  then show ?thesis by (auto simp: oms_node_journal_def assms(4) Let_def)
qed

lemma oms_node_record_holds:
  assumes "replay_holds es (on_replay st)" and "is_message e" and "node_env_ok env" and "k < 2"
  shows "\<exists>fs seq w. oms_node_record env k c e st
      = (fs, st\<lparr>on_replay_seq := seq, on_replay := w\<rparr>) \<and> replay_holds (es @ [e]) w"
proof -
  have ok: "list_all (\<lambda>a. 0 < a) (nd_write_answers env k)" "nd_copy_pad env = nd_pad env"
    using assms(3,4) by (simp_all add: node_env_ok_def)
  obtain os w where "replay_append (nd_write_answers env k) (nd_pad env k) (nd_pad env k) e
      (on_replay_seq st + 1) (nd_now env c) (on_replay st)
    = (True, [metric_inc ReplayEventsWritten], os, w)" "replay_holds (es @ [e]) w"
    using replay_holds_append [OF assms(1,2) ok(1)] by blast
  then show ?thesis by (auto simp: oms_node_record_def ok(2) Let_def)
qed

text \<open>The exchange of an accepted order: journal, record, send, receive, record, journal.\<close>

lemma oms_node_exchange:
  assumes "node_env_ok env" and "\<forall>i. node_env_ok (genvs i)"
    and order: "oms_on_signal (nd_now env 0) (nd_now env 1) s (on_oms st) = (Some (new_order_env ord), om1)"
    and msg: "is_message (new_order_env ord)"
    and "journal_holds rs (on_journal st)" and "replay_holds es (on_replay st)"
    and "wire_holds ws (on_wire st)" and "gateway_inv acks (on_peer st)"
    and "on_inbox st = []" and fd: "0 \<le> on_fd st"
    and body: "oms_node_body (gateway_peer kraken genvs) env (signal_env s) st = (cont, fs, st')"
  obtains a where "cont" and "ack_client_order_id a = ord_client_order_id ord"
    and "journal_holds (rs @ [(JR_OrderIntent, new_order_env ord), (JR_GatewayAck, ack_env a)])
      (on_journal st')"
    and "replay_holds (es @ [new_order_env ord, ack_env a]) (on_replay st')"
    and "wire_holds (ws @ [new_order_env ord]) (on_wire st')"
    and "gateway_inv (acks @ [ack_env a]) (on_peer st')"
    and "on_oms st' = om1" and "on_inbox st' = []" and "on_fd st' = on_fd st"
proof -
  note env = node_env_okD [OF assms(1)]
  let ?oe = "new_order_env ord" and ?st1 = "st\<lparr>on_oms := om1\<rparr>"
  obtain es1 seq1 w1 where j1: "oms_node_journal env 0 2 JR_OrderIntent ?oe ?st1
      = (es1, ?st1\<lparr>on_journal_seq := seq1, on_journal := w1\<rparr>)"
    "journal_holds (rs @ [(JR_OrderIntent, ?oe)]) w1"
    using oms_node_journal_holds [OF _ msg _ env(3), of rs ?st1 JR_OrderIntent 2] assms(5) by force
  let ?st2 = "?st1\<lparr>on_journal_seq := seq1, on_journal := w1\<rparr>"
  obtain es2 seq2 v1 where r1: "oms_node_record env 0 3 ?oe ?st2
      = (es2, ?st2\<lparr>on_replay_seq := seq2, on_replay := v1\<rparr>)" "replay_holds (es @ [?oe]) v1"
    using oms_node_record_holds [OF _ msg assms(1), of es ?st2 0 3] assms(6) by auto
  let ?frame = "tcp_frame (nd_pad env 0, ?oe, on_gateway_seq st + 1)"
  obtain os where send: "tcp_send_envelope (nd_send_answers env) (nd_pad env 0) ?oe
      (on_gateway_seq st + 1) (on_fd st) = (True, ?frame, [], os)"
    "wire_holds (ws @ [?oe]) (on_wire st @ ?frame)"
    using wire_holds_send [OF assms(7) msg env(5) fd] by blast
  obtain i g where peer: "on_peer st = (i, g)" by (cases "on_peer st")
  obtain a pad seq3 g' where answer: "gateway_peer kraken genvs ?frame (i, g)
      = (tcp_frame (pad, ack_env a, seq3), Suc i, g')" "is_message (ack_env a)"
    "ack_client_order_id a = ord_client_order_id ord" "gateway_inv (acks @ [ack_env a]) (Suc i, g')"
    by (rule gateway_peer_answers [OF assms(2) msg assms(8) [unfolded peer]])
  obtain os' where recv: "tcp_recv_envelope (nd_reply_answers env) (on_fd st)
      (tcp_frame (pad, ack_env a, seq3)) = (Some (ack_env a), [], [], os')"
    using tcp_recv_single [OF answer(2) fd] by blast
  let ?st5 = "?st2\<lparr>on_replay_seq := seq2, on_replay := v1, on_gateway_seq := on_gateway_seq st + 1,
    on_wire := on_wire st @ ?frame, on_peer := (Suc i, g'), on_inbox := []\<rparr>"
  obtain es4 seq4 v2 where r2: "oms_node_record env 1 5 (ack_env a) ?st5
      = (es4, ?st5\<lparr>on_replay_seq := seq4, on_replay := v2\<rparr>)"
    "replay_holds ((es @ [?oe]) @ [ack_env a]) v2"
    using oms_node_record_holds [OF _ answer(2) assms(1), of "es @ [?oe]" ?st5 1 5] r1(2) by auto
  let ?st6 = "?st5\<lparr>on_replay_seq := seq4, on_replay := v2,
    on_oms := oms_absorb (ack_env a) om1\<rparr>"
  obtain es5 seq5 w2 where j2: "oms_node_journal env 1 6 JR_GatewayAck (ack_env a) ?st6
      = (es5, ?st6\<lparr>on_journal_seq := seq5, on_journal := w2\<rparr>)"
    "journal_holds ((rs @ [(JR_OrderIntent, ?oe)]) @ [(JR_GatewayAck, ack_env a)]) w2"
    using oms_node_journal_holds [OF _ answer(2) _ env(4), of "rs @ [(JR_OrderIntent, ?oe)]" ?st6
        JR_GatewayAck 6] j1(2) by auto
  have "oms_absorb (ack_env a) om1 = om1"
    by (simp add: oms_absorb_def oms_on_gateway_ack_def)
  with body have "cont \<and> st' = ?st6\<lparr>on_journal_seq := seq5, on_journal := w2\<rparr>"
    using assms(9) j1(1) r1(1) send(1) answer(1) recv r2(1) j2(1) order peer
    by (simp add: oms_node_body_def oms_node_answer_def Let_def)
  with that answer(3,4) j2(2) r2(2) send(2) \<open>oms_absorb (ack_env a) om1 = om1\<close> show thesis
    by simp
qed

lemma one_lot_check:
  assumes "one_lot_buy s" and "om_risk om = risk_new oms_node_limits"
  shows "risk_check (om_risk om) (oms_make_order t s om)
    = (if sint (snd (signal_key s)) \<le> sint (lim_max_notional oms_node_limits) then RR_None
       else RR_RiskLimit)"
  using assms risk_check_one_lot [of "oms_make_order t s om" om]
  by (simp add: oms_node_limits_same oms_make_order_def one_lot_buy_def NewOrder0_def signal_key_def)
     (simp add: replay_run_limits_def)

lemma oms_node_body_inv:
  assumes "node_env_ok env" and "\<forall>i. node_env_ok (genvs i)" and "one_lot_buy s"
    and "oms_node_inv es st"
    and body: "oms_node_body (gateway_peer kraken genvs) env (signal_env s) st = (cont, fs, st')"
  shows "cont \<and> oms_node_inv (es @ [signal_env s]) st'"
proof -
  let ?om = "on_oms st" and ?sigs = "received_signals es" and ?lim = oms_node_limits
  obtain xs where keys: "map (\<lambda>x. order_key (fst x)) xs = accepted_orders ?lim (map signal_key ?sigs)"
    and oks: "list_all exchange_ok xs"
    and streams: "journal_holds (concat (map (\<lambda>(ord, a). [(JR_OrderIntent, new_order_env ord),
           (JR_GatewayAck, ack_env a)]) xs)) (on_journal st)"
      "replay_holds (concat (map (\<lambda>(ord, a). [new_order_env ord, ack_env a]) xs)) (on_replay st)"
      "wire_holds (map (\<lambda>x. new_order_env (fst x)) xs) (on_wire st)"
      "gateway_inv (map (\<lambda>x. ack_env (snd x)) xs) (on_peer st)"
    and liv: "om_live_orders ?om = (\<lambda>x. ord_client_order_id (fst x)) ` set xs"
    and risk: "om_risk ?om = risk_new ?lim"
    and nid: "om_next_client_order_id ?om = of_nat (Suc (length ?sigs))"
    and box: "on_inbox st = []" and fd: "0 \<le> on_fd st"
    using assms(4) unfolding oms_node_inv_def by blast
  note check = one_lot_check [OF assms(3) risk, of "nd_now env 0"]
  show ?thesis
  proof (cases rule: oms_on_signal_cases [of ?om "nd_now env 0" s "nd_now env 1"])
    case (rejected r)
    then have "\<not> sint (snd (signal_key s)) \<le> sint (lim_max_notional ?lim)"
      using check by (simp split: if_splits)
    then have "accepted_orders ?lim (map signal_key (received_signals (es @ [signal_env s])))
        = accepted_orders ?lim (map signal_key ?sigs)"
      by (simp add: accepted_orders_snoc)
    moreover have "cont \<and> st' = st\<lparr>on_oms := snd (oms_on_signal (nd_now env 0) (nd_now env 1) s ?om)\<rparr>"
      using body rejected(4) by (simp add: oms_node_body_def Let_def)
    ultimately show ?thesis
      unfolding oms_node_inv_def using keys oks streams liv risk nid box fd rejected(4)
      by (auto intro!: exI [of _ xs])
  next
    case (accepted ord)
    have within: "sint (snd (signal_key s)) \<le> sint (lim_max_notional ?lim)"
      using check accepted(1) by (simp split: if_splits)
    have ord: "is_message (new_order_env ord)"
      "order_key ord = (of_nat (Suc (length ?sigs)), signal_key s)" "ord_side ord = Buy" "ord_qty ord = 1"
      using assms(3) nid
      by (simp_all add: accepted(2) is_message_def oms_make_order_def NewOrder0_def
          MessageHeader0_def one_lot_buy_def order_key_def signal_key_def del: of_nat_Suc)
    have signalled: "oms_on_signal (nd_now env 0) (nd_now env 1) s ?om
        = (Some (new_order_env ord), snd (oms_on_signal (nd_now env 0) (nd_now env 1) s ?om))"
      by (metis accepted(3) snd_conv)
    obtain a where ex: "cont" "ack_client_order_id a = ord_client_order_id ord"
      "journal_holds (concat (map (\<lambda>(ord, a). [(JR_OrderIntent, new_order_env ord),
           (JR_GatewayAck, ack_env a)]) xs)
         @ [(JR_OrderIntent, new_order_env ord), (JR_GatewayAck, ack_env a)]) (on_journal st')"
      "replay_holds (concat (map (\<lambda>(ord, a). [new_order_env ord, ack_env a]) xs)
         @ [new_order_env ord, ack_env a]) (on_replay st')"
      "wire_holds (map (\<lambda>x. new_order_env (fst x)) xs @ [new_order_env ord]) (on_wire st')"
      "gateway_inv (map (\<lambda>x. ack_env (snd x)) xs @ [ack_env a]) (on_peer st')"
      "on_oms st' = snd (oms_on_signal (nd_now env 0) (nd_now env 1) s ?om)"
      "on_inbox st' = []" "on_fd st' = on_fd st"
      by (rule oms_node_exchange [OF assms(1,2) signalled ord(1) streams box fd body])
    have "map (\<lambda>x. order_key (fst x)) (xs @ [(ord, a)])
        = accepted_orders ?lim (map signal_key (received_signals (es @ [signal_env s])))"
      using keys within ord(2) by (simp add: accepted_orders_snoc)
    moreover have "list_all exchange_ok (xs @ [(ord, a)])"
      using oks ex(2) ord(3,4) by (simp add: exchange_ok_def)
    moreover have "ord_client_order_id ord = om_next_client_order_id ?om"
      using ord(2) nid by (simp add: order_key_def)
    ultimately show ?thesis
      unfolding oms_node_inv_def using ex liv risk nid fd accepted(3)
      by (intro conjI exI [of _ "xs @ [(ord, a)]"]) (simp_all add: add.commute)
  qed
qed


lemma oms_node_run:
  assumes "\<forall>i. node_env_ok (envs i)" and "\<forall>i. node_env_ok (genvs i)" and "0 \<le> fd"
    and "wire_holds (map signal_env sigs) stream" and "list_all one_lot_buy sigs"
    and "oms_node_inv [] st"
  shows "oms_node_inv (map signal_env sigs)
    (snd (oms_node (gateway_peer kraken genvs) envs fd stream st))"
proof -
  let ?ok = "\<lambda>e. \<exists>s. e = signal_env s \<and> one_lot_buy s"
    and ?body = "oms_node_body (gateway_peer kraken genvs)"
  have step: "fst (?body (envs k) e st') \<and> oms_node_inv (pre @ [e]) (snd (snd (?body (envs k) e st')))"
    if "?ok e" and "oms_node_inv pre st'" for k e pre st'
  proof -
    obtain s where s: "e = signal_env s" "one_lot_buy s" using \<open>?ok e\<close> by blast
    obtain cont fs st'' where body: "?body (envs k) e st' = (cont, fs, st'')"
      by (cases "?body (envs k) e st'")
    from oms_node_body_inv [OF spec [OF assms(1)] assms(2) s(2) that(2) body [unfolded s(1)]]
    show ?thesis by (simp add: body [unfolded s(1)] s(1))
  qed
  have "list_all ?ok (map signal_env sigs)"
    using assms(5) by (auto simp: list_all_iff)
  from serve_list_inv [where I = oms_node_inv and ok = ?ok and body = ?body and envs = envs,
      OF step this assms(6), of 0]
  show ?thesis
    by (simp add: oms_node_def serve_decoded [OF assms(3)] wire_holds_read [OF assms(4)])
qed

section \<open>A session\<close>

text \<open>
  The four processes started together: descriptor \<open>fd k\<close> and old file content \<open>old k\<close> for each file
  and connection, \<open>env n i\<close> for iteration \<open>i\<close> of node \<open>n\<close>, a journal that does not exist yet (the
  other files are truncated, the journal is appended to).  A connection delivers what was written to
  it, so each node runs on all of what its predecessor sends.
\<close>

definition distributed_session ::
  "(NewOrder \<Rightarrow> 'k \<Rightarrow> (bool \<times> string) \<times> 'k) \<Rightarrow> 'k \<Rightarrow> (nat \<Rightarrow> int) \<Rightarrow> (nat \<Rightarrow> byte list)
   \<Rightarrow> (nat \<Rightarrow> nat \<Rightarrow> NodeEnv) \<Rightarrow> NormalizedMarketData list
   \<Rightarrow> MarketDataNode \<times> StrategyNode \<times> (nat \<times> 'k GatewayNode) OmsNode" where
  "distributed_session kraken venue fd old env mds =
     (let md = snd (market_data_node (env 0) 0 mds (market_data_node_new (fd 0) (fd 1) (old 0)));
          st = snd (strategy_node (env 1) (fd 2) (mn_wire md)
                      (strategy_node_new (fd 3) (fd 4) (old 1)));
          om = snd (oms_node (gateway_peer kraken (env 3)) (env 2) (fd 5) (sn_wire st)
                      (oms_node_new (fd 6) (fd 7) True (old 2) []
                        (0, gateway_node_new GM_Sim venue (fd 8) (fd 9) (old 3))))
      in (md, st, om))"

lemma md_inv_new: "0 \<le> fd \<Longrightarrow> 0 \<le> rfd \<Longrightarrow> md_inv [] (market_data_node_new fd rfd old)"
  by (simp add: md_inv_def market_data_node_new_def replay_holds_open wire_holds_Nil canonical_named)

lemma strategy_inv_new: "0 \<le> fd \<Longrightarrow> 0 \<le> rfd \<Longrightarrow> strategy_inv [] (strategy_node_new fd rfd old)"
  by (simp add: strategy_inv_def strategy_node_new_def replay_holds_open wire_holds_Nil
      canonical_named strategy_new_def tob_run_def received_updates_def List.map_filter_def
      quotes_held_def)

lemma gateway_inv_new:
  "0 \<le> fd \<Longrightarrow> 0 \<le> rfd \<Longrightarrow> gateway_inv [] (0, gateway_node_new GM_Sim venue fd rfd old)"
  by (simp add: gateway_inv_def gateway_node_new_def replay_holds_open wire_holds_Nil
      canonical_named gateway_new_def)

lemma oms_node_inv_new:
  assumes "0 \<le> fd" and "0 \<le> rfd" and "gateway_inv [] peer"
  shows "oms_node_inv [] (oms_node_new fd rfd True old_replay [] peer)"
  using assms journal_holds_open
  by (simp add: oms_node_inv_def oms_node_new_def replay_holds_open wire_holds_Nil
      canonical_named oms_new_def received_signals_def List.map_filter_def)


lemma accepted_orders_count:
  "length (accepted_orders lim (map quote_key qs)) = length (filter (priced_within lim) qs)"
proof (induction qs rule: rev_induct)
  case Nil
  then show ?case by simp
next
  case (snoc q qs)
  then show ?case by (simp add: accepted_orders_snoc quote_key_def priced_within_def)
qed

text \<open>What a session leaves: the streams of the three nodes, from the quotes held.\<close>

lemma distributed_session_streams:
  assumes "\<forall>n i. node_env_ok (env n i)" and "\<forall>k. 0 \<le> fd k"
    and "list_all (\<lambda>md. is_message (market_data_env (nmd_update md))) mds"
    and "distributed_session kraken venue fd old env mds = (md, st, om)"
    and "qs = filter wide_quote (quotes_held (map nmd_update mds))"
  obtains xs sigs where "md_inv (map nmd_update mds) md"
    and "map signal_key sigs = map quote_key qs" and "replay_holds (map signal_env sigs) (sn_replay st)"
    and "map (\<lambda>x. order_key (fst x)) xs = accepted_orders oms_node_limits (map quote_key qs)"
    and "list_all exchange_ok xs"
    and "journal_holds (concat (map (\<lambda>(ord, a). [(JR_OrderIntent, new_order_env ord),
           (JR_GatewayAck, ack_env a)]) xs)) (on_journal om)"
    and "om_live_orders (on_oms om) = (\<lambda>x. ord_client_order_id (fst x)) ` set xs"
proof -
  let ?peer = "(0, gateway_node_new GM_Sim venue (fd 8) (fd 9) (old 3))"
  have nodes: "md = snd (market_data_node (env 0) 0 mds (market_data_node_new (fd 0) (fd 1) (old 0)))"
    "st = snd (strategy_node (env 1) (fd 2) (mn_wire md) (strategy_node_new (fd 3) (fd 4) (old 1)))"
    "om = snd (oms_node (gateway_peer kraken (env 3)) (env 2) (fd 5) (sn_wire st)
       (oms_node_new (fd 6) (fd 7) True (old 2) [] ?peer))"
    using assms(4) by (auto simp: distributed_session_def Let_def)
  have env: "\<forall>i. node_env_ok (env n i)" for n using assms(1) by blast
  have fd: "0 \<le> fd k" for k using assms(2) by blast
  have md: "md_inv (map nmd_update mds) md"
    using market_data_node_inv [OF env assms(3) md_inv_new [OF fd fd], of 0] by (simp add: nodes(1))
  then have "wire_holds (map market_data_env (map nmd_update mds)) (mn_wire md)"
    by (simp add: md_inv_def)
  from strategy_node_inv [OF env fd this strategy_inv_new [OF fd fd]]
  have "strategy_inv (map market_data_env (map nmd_update mds)) st"
    by (simp add: nodes(2))
  then obtain sigs where sigs: "map signal_key sigs = map quote_key qs"
    "list_all one_lot_buy sigs" "replay_holds (map signal_env sigs) (sn_replay st)"
    "wire_holds (map signal_env sigs) (sn_wire st)"
    unfolding strategy_inv_def received_updates_map assms(5) by blast
  from oms_node_run [OF env env fd sigs(4,2) oms_node_inv_new [OF fd fd gateway_inv_new [OF fd fd]]]
  have "oms_node_inv (map signal_env sigs) om"
    by (simp add: nodes(3))
  then show thesis
    using that [OF md sigs(1,3)] unfolding oms_node_inv_def received_signals_map sigs(1) by blast
qed

text \<open>Records of one kind in a journal of exchanges.\<close>

definition journal_count :: "JournalRecordType \<Rightarrow> JournalRecord list \<Rightarrow> nat" where
  "journal_count rt recs = length (filter (\<lambda>r. jh_record_type (jr_header r) = rt) recs)"

lemma journal_count_view:
  "journal_count rt recs
   = length (filter (\<lambda>p. fst p = rt) (map (\<lambda>r. (jh_record_type (jr_header r), jr_envelope r)) recs))"
  by (simp add: journal_count_def filter_map o_def)

lemma exchanges_count:
  assumes "rt = JR_OrderIntent \<or> rt = JR_GatewayAck"
  shows "length (filter (\<lambda>p. fst p = rt) (concat (map (\<lambda>(ord, a).
      [(JR_OrderIntent, new_order_env ord), (JR_GatewayAck, ack_env a)]) xs))) = length xs"
  using assms by (induction xs) auto



definition sample_node_env :: NodeEnv where
  "sample_node_env = \<lparr>nd_now = (\<lambda>k. of_nat (Suc k)), nd_pad = (\<lambda>_ _. 0), nd_copy_pad = (\<lambda>_ _. 0),
     nd_write_answers = (\<lambda>_. [3]), nd_send_answers = [5], nd_recv_answers = [2],
     nd_reply_answers = [], nd_can_open = True, nd_fault = (\<lambda>_. None)\<rparr>"

definition sample_update :: "Sequence \<Rightarrow> Price \<Rightarrow> Price \<Rightarrow> NormalizedMarketData" where
  "sample_update seq bid ask = \<lparr>nmd_venue = SimulatedItch,
     nmd_update = MarketDataUpdate0\<lparr>md_symbol_id := 1, md_bid_px := bid, md_ask_px := ask,
        md_bid_qty := 1, md_ask_qty := 1,
        md_exchange_sequence := seq\<rparr>\<rparr>"

lemma sample_node_env_ok: "node_env_ok sample_node_env"
  by (simp add: node_env_ok_def sample_node_env_def)

lemma sample_updates_ok:
  "list_all (\<lambda>md. is_message (market_data_env (nmd_update md)))
    [sample_update 1 100 110, sample_update 2 100 101, sample_update 3 105 111]"
  by (simp add: sample_update_def is_message_def message_defaults)


text \<open>
  The order manager's journal is the list of the session's exchanges, each order intent
  followed by the acknowledgement of that order, and the orders are those the quotes call for: one
  per wide quote held by the strategy's book whose price the notional limit admits, one lot bought a
  tick above the bid, numbered by the position of its signal.
\<close>

lemma session_journal_orders:
  assumes "\<forall>n i. node_env_ok (env n i)" and "\<forall>k. 0 \<le> fd k"
    and "list_all (\<lambda>md. is_message (market_data_env (nmd_update md))) mds"
    and "distributed_session kraken venue fd old env mds = (md, st, om)"
    and "recs = fst (journal_read_all (Some (jw_file (on_journal om))))"
  shows "\<exists>xs. map (\<lambda>r. (jh_record_type (jr_header r), jr_envelope r)) recs
      = concat (map (\<lambda>(ord, a). [(JR_OrderIntent, new_order_env ord), (JR_GatewayAck, ack_env a)]) xs)
    \<and> list_all (\<lambda>(ord, a). ack_client_order_id a = ord_client_order_id ord
        \<and> ord_side ord = Buy \<and> ord_qty ord = 1) xs
    \<and> map (\<lambda>(ord, a). (ord_client_order_id ord, ord_symbol_id ord, ord_limit_px ord)) xs
      = accepted_orders oms_node_limits
          (map quote_key (filter wide_quote (quotes_held (map nmd_update mds))))"
proof -
  obtain xs where xs: "map (\<lambda>x. order_key (fst x)) xs = accepted_orders oms_node_limits
      (map quote_key (filter wide_quote (quotes_held (map nmd_update mds))))" "list_all exchange_ok xs"
    "journal_holds (concat (map (\<lambda>(ord, a). [(JR_OrderIntent, new_order_env ord),
       (JR_GatewayAck, ack_env a)]) xs)) (on_journal om)"
    by (rule distributed_session_streams [OF assms(1-4) refl]) blast
  with journal_holds_read [OF xs(3)] show ?thesis
    unfolding assms(5)
    by (intro exI [of _ xs]) (simp add: exchange_ok_def order_key_def case_prod_unfold)
qed

lemma sample_quotes:
  "filter wide_quote (quotes_held (map nmd_update
     [sample_update 1 100 110, sample_update 2 100 101, sample_update 3 105 111]))
   = [nmd_update (sample_update 1 100 110), nmd_update (sample_update 3 105 111)]"
  by code_simp


definition sample_mds :: "NormalizedMarketData list" where
  "sample_mds = [sample_update 1 100 110, sample_update 2 100 101, sample_update 3 105 111]"

definition sample_session :: "MarketDataNode \<times> StrategyNode \<times> (nat \<times> unit GatewayNode) OmsNode" where
  "sample_session = distributed_session (\<lambda>_ v. ((False, []), v)) () (\<lambda>k. int k + 3) (\<lambda>_. [7])
     (\<lambda>_ _. sample_node_env) sample_mds"

lemma sample_orders:
  "accepted_orders oms_node_limits
     (map quote_key (filter wide_quote (quotes_held (map nmd_update sample_mds))))
   = [(1, 1, 101), (2, 1, 106)]"
  unfolding sample_mds_def sample_quotes
  by (simp add: accepted_orders_def oms_node_limits_def quote_key_def sample_update_def
      MarketDataUpdate0_def upt_rec)


end
