(* ===== verification/Logging.thy ===== *)
theory Logging
  imports Metrics Spsc_Queue
begin

text \<open>
  The asynchronous logger of src/logging.cpp: the event a call builds, the queue of events (a second
  provider of the bounded queue of \<open>Fifo_Interface\<close>), the thread that writes lines, starting and
  stopping, and the queue again with its atomic accesses interleaved, where the head is published
  before the slot is written.
\<close>

section \<open>Events\<close>

definition LOG_QUEUE_CAPACITY :: nat where "LOG_QUEUE_CAPACITY = 2 ^ 15"
definition COMPONENT_LEN :: nat where "COMPONENT_LEN = 32"
definition MESSAGE_LEN :: nat where "MESSAGE_LEN = 192"

record LogEvent =
  le_ts_ns :: TimestampNs
  le_level :: LogLevel
  le_component :: string
  le_message :: string

definition LogEvent0 :: LogEvent where
  "LogEvent0 = \<lparr>le_ts_ns = 0, le_level = Info, le_component = replicate COMPONENT_LEN (CHR 0x00),
     le_message = replicate MESSAGE_LEN (CHR 0x00)\<rparr>"

fun level_to_string :: "LogLevel \<Rightarrow> string" where
  "level_to_string Info = ''INFO''"
| "level_to_string Warn = ''WARN''"
| "level_to_string Error = ''ERROR''"

definition copy_truncated :: "string \<Rightarrow> string \<Rightarrow> string" where
  "copy_truncated src dst =
     (if length dst = 0 then dst
      else let n = min (length src) (length dst - 1)
           in take n src @ [CHR 0x00] @ drop (Suc n) dst)"

definition log_event :: "TimestampNs \<Rightarrow> LogLevel \<Rightarrow> string \<Rightarrow> string \<Rightarrow> LogEvent" where
  "log_event now level component message =
     LogEvent0\<lparr>le_ts_ns := now, le_level := level,
       le_component := copy_truncated component (le_component LogEvent0),
       le_message := copy_truncated message (le_message LogEvent0)\<rparr>"

text \<open>What \<open>operator<<\<close> prints of a character array: up to the first NUL.\<close>

definition c_str :: "string \<Rightarrow> string" where
  "c_str cs = takeWhile (\<lambda>c. c \<noteq> CHR 0x00) cs"

definition json_text :: "string \<Rightarrow> string \<Rightarrow> string" where
  "json_text key v = [CHR 0x22] @ key @ [CHR 0x22] @ '':'' @ [CHR 0x22] @ v @ [CHR 0x22]"

definition log_line :: "LogEvent \<Rightarrow> string" where
  "log_line e = ''{'' @ json_number ''ts_ns'' (le_ts_ns e)
     @ '','' @ json_text ''level'' (level_to_string (le_level e))
     @ '','' @ json_text ''component'' (c_str (le_component e))
     @ '','' @ json_text ''message'' (c_str (le_message e)) @ ''}'' @ [CHR 0x0A]"

definition logger_stopped_line :: "TimestampNs \<Rightarrow> u64 \<Rightarrow> string" where
  "logger_stopped_line now dropped = ''{'' @ json_number ''ts_ns'' now
     @ '','' @ json_text ''level'' ''INFO'' @ '','' @ json_text ''component'' ''logger''
     @ '','' @ json_text ''message'' (''logger stopped; dropped_logs='' @ show_nat (unat dropped))
     @ ''}'' @ [CHR 0x0A]"

lemma c_str_take_NUL: "c_str (take n xs @ CHR 0x00 # ys) = take n (c_str xs)"
  by (induction xs arbitrary: n) (auto simp: c_str_def take_Cons')

lemma c_str_copy_truncated:
  "dst \<noteq> [] \<Longrightarrow> c_str (copy_truncated src dst) = take (length dst - 1) (c_str src)"
proof -
  assume "dst \<noteq> []"
  have "take (min (length src) n) (c_str src) = take n (c_str src)" for n
  proof -
    have "length (c_str src) \<le> length src" by (simp add: c_str_def length_takeWhile_le)
    then show ?thesis by (cases "length src \<le> n") (simp_all add: min_def)
  qed
  with \<open>dst \<noteq> []\<close> show ?thesis
    by (simp add: copy_truncated_def c_str_take_NUL Let_def)
qed

lemma log_event_text:
  "c_str (le_component (log_event t l cm msg)) = take 31 (c_str cm)
   \<and> c_str (le_message (log_event t l cm msg)) = take 191 (c_str msg)
   \<and> length (le_component (log_event t l cm msg)) = COMPONENT_LEN
   \<and> length (le_message (log_event t l cm msg)) = MESSAGE_LEN"
proof -
  have ne: "le_component LogEvent0 \<noteq> []" "le_message LogEvent0 \<noteq> []"
    by (simp_all add: LogEvent0_def COMPONENT_LEN_def MESSAGE_LEN_def)
  show ?thesis
    using c_str_copy_truncated [OF ne(1), of cm] c_str_copy_truncated [OF ne(2), of msg]
    by (simp add: log_event_def) (simp add: LogEvent0_def COMPONENT_LEN_def MESSAGE_LEN_def copy_truncated_def Let_def)
qed

section \<open>The queue\<close>

record AsyncLogQueue =
  lq_buffer :: "LogEvent list"
  lq_head :: nat
  lq_tail :: nat
  lq_dropped :: u64

definition AsyncLogQueue0 :: AsyncLogQueue where
  "AsyncLogQueue0 = \<lparr>lq_buffer = replicate LOG_QUEUE_CAPACITY LogEvent0, lq_head = 0, lq_tail = 0,
     lq_dropped = 0\<rparr>"

text \<open>
  Without a second caller the compare-exchange succeeds at its first attempt, or fails spuriously
  and is repeated on the same state.
\<close>

definition try_push_log_event :: "LogEvent \<Rightarrow> AsyncLogQueue \<Rightarrow> bool \<times> AsyncLogQueue" where
  "try_push_log_event event q =
     (let head = lq_head q; tail = lq_tail q; next = (head + 1) mod LOG_QUEUE_CAPACITY
      in if next = tail then (False, q\<lparr>lq_dropped := lq_dropped q + 1\<rparr>)
         else (True, q\<lparr>lq_head := next, lq_buffer := (lq_buffer q)[head := event]\<rparr>))"

definition try_pop_log_event :: "AsyncLogQueue \<Rightarrow> LogEvent option \<times> AsyncLogQueue" where
  "try_pop_log_event q =
     (let tail = lq_tail q
      in if tail = lq_head q then (None, q)
         else (Some (lq_buffer q ! tail), q\<lparr>lq_tail := (tail + 1) mod LOG_QUEUE_CAPACITY\<rparr>))"

text \<open>It is the ring buffer of the pipeline over again.\<close>

definition as_spsc :: "AsyncLogQueue \<Rightarrow> LogEvent SpscQueue" where
  "as_spsc q = \<lparr>q_buffer = lq_buffer q, q_head = lq_head q, q_tail = lq_tail q,
     q_dropped = lq_dropped q\<rparr>"

definition log_queue_inv :: "AsyncLogQueue \<Rightarrow> bool" where
  "log_queue_inv q \<longleftrightarrow> spsc_inv (as_spsc q) \<and> length (lq_buffer q) = LOG_QUEUE_CAPACITY"

definition log_contents :: "AsyncLogQueue \<Rightarrow> LogEvent list" where
  "log_contents q = spsc_contents (as_spsc q)"

lemma push_as_spsc:
  "log_queue_inv q \<Longrightarrow> fst (try_push_log_event e q) = fst (spsc_push e (as_spsc q))
     \<and> as_spsc (snd (try_push_log_event e q)) = snd (spsc_push e (as_spsc q))"
  by (simp add: try_push_log_event_def spsc_push_def spsc_increment_def as_spsc_def log_queue_inv_def
      Let_def)

lemma pop_as_spsc:
  "log_queue_inv q \<Longrightarrow> fst (try_pop_log_event q) = fst (spsc_pop (as_spsc q))
     \<and> as_spsc (snd (try_pop_log_event q)) = snd (spsc_pop (as_spsc q))"
  by (simp add: try_pop_log_event_def spsc_pop_def spsc_increment_def as_spsc_def log_queue_inv_def
      Let_def)

lemma log_room: "log_queue_inv q \<Longrightarrow> spsc_room (as_spsc q) = LOG_QUEUE_CAPACITY - 1"
  by (simp add: spsc_room_def as_spsc_def log_queue_inv_def)

lemma push_keeps_size:
  "length (lq_buffer (snd (try_push_log_event e q))) = length (lq_buffer q)"
  "length (lq_buffer (snd (try_pop_log_event q))) = length (lq_buffer q)"
  by (simp_all add: try_push_log_event_def try_pop_log_event_def Let_def)

interpretation log_fifo: bounded_fifo try_push_log_event try_pop_log_event log_contents
  "\<lambda>_. LOG_QUEUE_CAPACITY - 1" log_queue_inv
proof
  fix q x xs
  assume inv: "log_queue_inv q"
  then have s: "spsc_inv (as_spsc q)" by (simp add: log_queue_inv_def)
  note facts = push_as_spsc [OF inv] pop_as_spsc [OF inv] log_room [OF inv]
  show "fst (try_push_log_event x q)
      \<and> log_contents (snd (try_push_log_event x q)) = log_contents q @ [x]"
    if "length (log_contents q) < LOG_QUEUE_CAPACITY - 1"
    using spsc.push_accepts [OF s] that by (simp add: log_contents_def facts)
  show "\<not> fst (try_push_log_event x q) \<and> log_contents (snd (try_push_log_event x q)) = log_contents q"
    if "length (log_contents q) = LOG_QUEUE_CAPACITY - 1"
    using spsc.push_refuses [OF s] that by (simp add: log_contents_def facts)
  show "fst (try_pop_log_event q) = Some x \<and> log_contents (snd (try_pop_log_event q)) = xs"
    if "log_contents q = x # xs"
    using spsc.pop_some [OF s] that by (simp add: log_contents_def facts)
  show "try_pop_log_event q = (None, q)" if "log_contents q = []"
    using spsc.pop_none [OF s] that pop_as_spsc [OF inv]
    by (simp add: log_contents_def try_pop_log_event_def as_spsc_def spsc_pop_def Let_def
        split: if_splits)
  show "log_queue_inv (snd (try_push_log_event x q))
      \<and> LOG_QUEUE_CAPACITY - 1 = LOG_QUEUE_CAPACITY - 1"
    using inv spsc.inv_push [OF s] by (simp add: log_queue_inv_def facts push_keeps_size)
  show "log_queue_inv (snd (try_pop_log_event q)) \<and> LOG_QUEUE_CAPACITY - 1 = LOG_QUEUE_CAPACITY - 1"
    using inv spsc.inv_pop [OF s] by (simp add: log_queue_inv_def facts push_keeps_size)
  show "length (log_contents q) \<le> LOG_QUEUE_CAPACITY - 1"
    using spsc.contents_bound [OF s] by (simp add: log_contents_def facts)
qed

lemma log_capacity: "2 \<le> LOG_QUEUE_CAPACITY"
  by (simp add: LOG_QUEUE_CAPACITY_def)

lemma log_queue_new: "log_queue_inv AsyncLogQueue0 \<and> log_contents AsyncLogQueue0 = []"
  using log_capacity
  by (simp add: log_queue_inv_def log_contents_def AsyncLogQueue0_def as_spsc_def spsc_inv_def
      spsc_contents_def)

lemma push_dropped:
  "lq_dropped (snd (try_push_log_event e q))
   = lq_dropped q + (if fst (try_push_log_event e q) then 0 else 1)"
  "lq_dropped (snd (try_pop_log_event q)) = lq_dropped q"
  by (simp_all add: try_push_log_event_def try_pop_log_event_def Let_def)

section \<open>The logger\<close>

text \<open>
  \<open>lg_thread\<close> is the running thread's file and whether opening it succeeded; \<open>lg_files\<close> the file
  system.
\<close>

record Logger =
  lg_queue :: AsyncLogQueue
  lg_running :: bool
  lg_started :: bool
  lg_thread :: "(string \<times> bool) option"
  lg_files :: "string \<Rightarrow> string"

definition Logger0 :: "(string \<Rightarrow> string) \<Rightarrow> Logger" where
  "Logger0 files = \<lparr>lg_queue = AsyncLogQueue0, lg_running = False, lg_started = False,
     lg_thread = None, lg_files = files\<rparr>"

definition log_call :: "TimestampNs \<Rightarrow> LogLevel \<Rightarrow> string \<Rightarrow> string \<Rightarrow> Logger \<Rightarrow> Logger" where
  "log_call now level component message l =
     l\<lparr>lg_queue := snd (try_push_log_event (log_event now level component message) (lg_queue l))\<rparr>"

definition start_async_logger :: "string \<Rightarrow> bool \<Rightarrow> Logger \<Rightarrow> Logger" where
  "start_async_logger path can_open l =
     (if lg_started l then l
      else l\<lparr>lg_started := True, lg_running := True, lg_thread := Some (path, can_open)\<rparr>)"

definition logger_write :: "string \<times> bool \<Rightarrow> string \<Rightarrow> Logger \<Rightarrow> Logger" where
  "logger_write out cs l =
     (if snd out then l\<lparr>lg_files := (lg_files l)(fst out := lg_files l (fst out) @ cs)\<rparr> else l)"

text \<open>
  The loop \<open>while (try_pop_log_event(event))\<close> with its body, as one step; \<open>None\<close> if it ran more
  often than the queue has slots.
\<close>

definition logger_drain :: "string \<times> bool \<Rightarrow> Logger \<Rightarrow> Logger option" where
  "logger_drain out l =
     map_option (\<lambda>(events, q). logger_write out (concat (map log_line events)) (l\<lparr>lg_queue := q\<rparr>))
       (drain try_pop_log_event LOG_QUEUE_CAPACITY (lg_queue l))"

definition logger_round :: "Logger \<Rightarrow> Logger option" where
  "logger_round l =
     (case lg_thread l of
        None \<Rightarrow> Some l
      | Some out \<Rightarrow> if lg_running l then logger_drain out l else Some l)"

text \<open>Stopping waits for the thread, which drains the queue and writes its last line.\<close>

definition stop_async_logger :: "TimestampNs \<Rightarrow> Logger \<Rightarrow> Logger option" where
  "stop_async_logger now l =
     (if \<not> lg_started l then Some l
      else let l1 = l\<lparr>lg_running := False\<rparr>
           in case lg_thread l1 of
             None \<Rightarrow> Some l1
           | Some out \<Rightarrow> map_option (\<lambda>l2.
               (logger_write out (logger_stopped_line now (lq_dropped (lg_queue l2))) l2)
                 \<lparr>lg_thread := None\<rparr>) (logger_drain out l1))"

datatype log_op =
    LogCall TimestampNs LogLevel string string
  | LoggerRound
  | LoggerStart string bool
  | LoggerStop TimestampNs

fun log_step :: "log_op \<Rightarrow> Logger \<Rightarrow> Logger option" where
  "log_step (LogCall now level component message) l = Some (log_call now level component message l)"
| "log_step LoggerRound l = logger_round l"
| "log_step (LoggerStart path can_open) l = Some (start_async_logger path can_open l)"
| "log_step (LoggerStop now) l = stop_async_logger now l"

fun log_run :: "log_op list \<Rightarrow> Logger \<Rightarrow> Logger option" where
  "log_run [] l = Some l"
| "log_run (op # ops) l = (case log_step op l of None \<Rightarrow> None | Some l' \<Rightarrow> log_run ops l')"

lemma log_run_append:
  "log_run (xs @ ys) l = (case log_run xs l of None \<Rightarrow> None | Some l' \<Rightarrow> log_run ys l')"
  by (induction xs arbitrary: l) (simp_all split: option.split)

section \<open>Every accepted event reaches the file\<close>

text \<open>
  The reference: events accepted and number of events refused, by the number of events waiting.
\<close>

fun logged :: "nat \<Rightarrow> log_op list \<Rightarrow> LogEvent list \<times> nat" where
  "logged n [] = ([], 0)"
| "logged n (LogCall now level component message # ops) =
     (if n < LOG_QUEUE_CAPACITY - 1
      then (let (es, r) = logged (Suc n) ops in (log_event now level component message # es, r))
      else (let (es, r) = logged n ops in (es, Suc r)))"
| "logged n (LoggerRound # ops) = logged 0 ops"
| "logged n (_ # ops) = logged n ops"

fun is_log_call :: "log_op \<Rightarrow> bool" where
  "is_log_call (LogCall _ _ _ _) = True"
| "is_log_call _ = False"

definition in_session :: "log_op \<Rightarrow> bool" where
  "in_session op \<longleftrightarrow> is_log_call op \<or> op = LoggerRound"

lemma log_call_cases:
  assumes "is_log_call op"
  obtains now level component message where "op = LogCall now level component message"
  using assms by (cases op) auto

lemma logger_drain_all:
  assumes "log_queue_inv (lg_queue l)"
  obtains q where "logger_drain out l
      = Some (logger_write out (concat (map log_line (log_contents (lg_queue l)))) (l\<lparr>lg_queue := q\<rparr>))"
    and "log_queue_inv q" and "log_contents q = []" and "lq_dropped q = lq_dropped (lg_queue l)"
proof -
  let ?q = "lg_queue l"
  have "length (log_contents ?q) < LOG_QUEUE_CAPACITY"
    using log_fifo.contents_bound [OF assms] log_capacity by linarith
  from log_fifo.drain_contents [OF assms this] obtain q where
    q: "drain try_pop_log_event LOG_QUEUE_CAPACITY ?q = Some (log_contents ?q, q)"
      "log_queue_inv q" "log_contents q = []"
    by blast
  have "lq_dropped r = lq_dropped q0" if "drain try_pop_log_event fuel q0 = Some (es, r)" for fuel q0 es r
    using that
  proof (induction fuel arbitrary: q0 es)
    case (Suc fuel)
    then show ?case
      using push_dropped(2) [of q0]
      by (cases "try_pop_log_event q0") (auto split: option.splits)
  qed simp
  with q that show thesis by (simp add: logger_drain_def)
qed

text \<open>
  \<open>log_at out buf d l\<close>: the queue holds \<open>buf\<close> and has refused \<open>d\<close> events.
\<close>

definition log_at :: "LogEvent list \<Rightarrow> u64 \<Rightarrow> Logger \<Rightarrow> bool" where
  "log_at buf d l \<longleftrightarrow> log_queue_inv (lg_queue l) \<and> log_contents (lg_queue l) = buf
     \<and> lq_dropped (lg_queue l) = d"

lemma log_call_at:
  assumes "log_at buf d l"
  shows "if length buf < LOG_QUEUE_CAPACITY - 1
    then log_at (buf @ [log_event now level component message]) d (log_call now level component message l)
    else log_at buf (d + 1) (log_call now level component message l)"
proof -
  have inv: "log_queue_inv (lg_queue l)" and buf: "log_contents (lg_queue l) = buf"
    and d: "lq_dropped (lg_queue l) = d"
    using assms by (simp_all add: log_at_def)
  let ?e = "log_event now level component message"
  show ?thesis
    using log_fifo.contents_push [OF inv, of ?e] log_fifo.push_iff [OF inv, of ?e]
      log_fifo.inv_push [OF inv, of ?e] push_dropped(1) [of ?e "lg_queue l"] buf d
    by (auto simp: log_at_def log_call_def)
qed

lemma log_call_rest:
  "lg_running (log_call now level component message l) = lg_running l"
  "lg_started (log_call now level component message l) = lg_started l"
  "lg_thread (log_call now level component message l) = lg_thread l"
  "lg_files (log_call now level component message l) = lg_files l"
  by (simp_all add: log_call_def)

text \<open>Calls before the start wait in the queue.\<close>

lemma log_before_start:
  assumes "list_all is_log_call ops" and "log_at buf d l" and "\<not> lg_started l"
  shows "\<exists>l'. log_run ops l = Some l' \<and> \<not> lg_started l' \<and> lg_files l' = lg_files l
    \<and> log_at (buf @ fst (logged (length buf) ops)) (d + of_nat (snd (logged (length buf) ops))) l'"
  using assms
proof (induction ops arbitrary: buf d l)
  case Nil
  then show ?case by simp
next
  case (Cons op ops)
  obtain now level component message where op: "op = LogCall now level component message"
    using Cons.prems(1) by (cases op) auto
  note at = log_call_at [OF Cons.prems(2), of now level component message]
  show ?case
  proof (cases "length buf < LOG_QUEUE_CAPACITY - 1")
    case True
    with at Cons.IH [of _ _ "log_call now level component message l"] Cons.prems op show ?thesis
      by (force simp: log_call_rest split: prod.split)
  next
    case False
    with at Cons.IH [of _ _ "log_call now level component message l"] Cons.prems op show ?thesis
      by (force simp: log_call_rest algebra_simps split: prod.split)
  qed
qed


lemma log_call_writing:
  "logger_write out cs (log_call now level component message l)
   = log_call now level component message (logger_write out cs l)"
  by (simp add: logger_write_def log_call_def)

text \<open>While the thread runs: what it wrote and what still waits are what was accepted.\<close>

lemma log_while_running:
  assumes "list_all in_session ops" and "log_at buf d l" and "lg_running l" and "lg_started l"
    and "lg_thread l = Some (path, True)"
  shows "\<exists>l' evs rest. log_run ops l = Some l' \<and> lg_running l' \<and> lg_started l'
    \<and> lg_thread l' = Some (path, True)
    \<and> lg_files l' = (lg_files l)(path := lg_files l path @ concat (map log_line evs))
    \<and> evs @ rest = buf @ fst (logged (length buf) ops)
    \<and> log_at rest (d + of_nat (snd (logged (length buf) ops))) l'"
  using assms
proof (induction ops arbitrary: buf d l)
  case Nil
  then show ?case by (intro exI [of _ l] exI [of _ "[]"] exI [of _ buf]) simp
next
  case (Cons op ops)
  show ?case
  proof (cases "op = LoggerRound")
    case True
    have "log_queue_inv (lg_queue l)" using Cons.prems(2) by (simp add: log_at_def)
    then obtain q where q: "logger_drain (path, True) l
        = Some (logger_write (path, True) (concat (map log_line buf)) (l\<lparr>lg_queue := q\<rparr>))"
      "log_queue_inv q" "log_contents q = []" "lq_dropped q = d"
      using logger_drain_all [of l "(path, True)"] Cons.prems(2) by (auto simp: log_at_def)
    define l1 where "l1 = logger_write (path, True) (concat (map log_line buf)) (l\<lparr>lg_queue := q\<rparr>)"
    have l1: "log_at [] d l1" "lg_running l1" "lg_started l1" "lg_thread l1 = Some (path, True)"
      "lg_files l1 = (lg_files l)(path := lg_files l path @ concat (map log_line buf))"
      using q Cons.prems by (simp_all add: l1_def log_at_def logger_write_def)
    obtain l' evs rest where rest: "log_run ops l1 = Some l'" "lg_running l'" "lg_started l'"
      "lg_thread l' = Some (path, True)"
      "lg_files l' = (lg_files l1)(path := lg_files l1 path @ concat (map log_line evs))"
      "evs @ rest = fst (logged 0 ops)" "log_at rest (d + of_nat (snd (logged 0 ops))) l'"
      using Cons.IH [OF _ l1(1-4), unfolded list.size append_Nil] Cons.prems(1) unfolding list.pred_inject
      by blast
    have "log_step op l = Some l1"
      using q(1) True Cons.prems(3,5) by (simp add: logger_round_def l1_def)
    with rest l1(5) True show ?thesis
      by (intro exI [of _ l'] exI [of _ "buf @ evs"] exI [of _ rest]) (simp add: fun_eq_iff)
  next
    case False
    with Cons.prems(1) obtain now level component message where
      op: "op = LogCall now level component message"
      by (cases op) (auto simp: in_session_def)
    note at = log_call_at [OF Cons.prems(2), of now level component message]
    let ?l = "log_call now level component message l"
    show ?thesis
    proof (cases "length buf < LOG_QUEUE_CAPACITY - 1")
      case True
      with Cons.IH [of _ _ ?l] at Cons.prems op show ?thesis
        by (force simp: log_call_rest split: prod.split)
    next
      case full: False
      with Cons.IH [of buf "d + 1" ?l] at Cons.prems op show ?thesis
        by (force simp: log_call_rest algebra_simps split: prod.split)
    qed
  qed
qed

text \<open>A stopped logger stays stopped: \<open>lg_started\<close> is never reset.\<close>

lemma log_stopped_step:
  assumes "lg_started l" and "\<not> lg_running l" and "lg_thread l = None"
  shows "\<exists>l'. log_step op l = Some l' \<and> lg_started l' \<and> \<not> lg_running l' \<and> lg_thread l' = None
    \<and> lg_files l' = lg_files l"
  using assms
  by (cases op) (simp_all add: log_call_rest logger_round_def start_async_logger_def
      stop_async_logger_def Let_def)

lemma log_after_stop:
  assumes "lg_started l" and "\<not> lg_running l" and "lg_thread l = None"
  shows "\<exists>l'. log_run ops l = Some l' \<and> lg_files l' = lg_files l"
  using assms
proof (induction ops arbitrary: l)
  case Nil
  then show ?case by simp
next
  case (Cons op ops)
  obtain l1 where l1: "log_step op l = Some l1" "lg_started l1" "\<not> lg_running l1"
    "lg_thread l1 = None" "lg_files l1 = lg_files l"
    using log_stopped_step [OF Cons.prems] by blast
  from Cons.IH [OF l1(2-4)] l1 show ?case by auto
qed

lemma logged_append:
  "list_all is_log_call xs \<Longrightarrow> logged n (xs @ ys)
   = (fst (logged n xs) @ fst (logged (n + length (fst (logged n xs))) ys),
      snd (logged n xs) + snd (logged (n + length (fst (logged n xs))) ys))"
  by (induction n xs rule: logged.induct) (auto split: prod.splits)



section \<open>The queue under concurrency\<close>

text \<open>
  Any number of callers of \<open>log\<close> and the thread of the logger, one atomic access per step: a caller
  loads the head, loads the tail, claims the slot by advancing the head, and writes the slot; a
  compare-exchange that fails, also spuriously, starts over.
\<close>

datatype log_producer_pc =
    LP_Idle
  | LP_LoadHead LogEvent
  | LP_LoadTail LogEvent nat
  | LP_Claim LogEvent nat
  | LP_WriteSlot LogEvent nat

datatype log_consumer_pc =
    LC_Idle
  | LC_LoadHead nat
  | LC_ReadSlot nat
  | LC_StoreTail nat LogEvent

record log_conf =
  lc_queue :: AsyncLogQueue
  lc_prod :: "nat \<Rightarrow> log_producer_pc"
  lc_cons :: log_consumer_pc
  lc_accepted :: "LogEvent list"
  lc_popped :: "LogEvent list"

definition log_conf_init :: log_conf where
  "log_conf_init = \<lparr>lc_queue = AsyncLogQueue0, lc_prod = (\<lambda>_. LP_Idle), lc_cons = LC_Idle,
     lc_accepted = [], lc_popped = []\<rparr>"

abbreviation log_next :: "nat \<Rightarrow> nat" where
  "log_next i \<equiv> (i + 1) mod LOG_QUEUE_CAPACITY"

inductive log_queue_step :: "log_conf \<Rightarrow> log_conf \<Rightarrow> bool" where
  log_begin: "lc_prod s i = LP_Idle \<Longrightarrow>
     log_queue_step s (s\<lparr>lc_prod := (lc_prod s)(i := LP_LoadHead e)\<rparr>)"
| log_load_head: "lc_prod s i = LP_LoadHead e \<Longrightarrow>
     log_queue_step s (s\<lparr>lc_prod := (lc_prod s)(i := LP_LoadTail e (lq_head (lc_queue s)))\<rparr>)"
| log_full: "lc_prod s i = LP_LoadTail e h \<Longrightarrow> log_next h = lq_tail (lc_queue s) \<Longrightarrow>
     log_queue_step s (s\<lparr>lc_prod := (lc_prod s)(i := LP_Idle),
        lc_queue := (lc_queue s)\<lparr>lq_dropped := lq_dropped (lc_queue s) + 1\<rparr>\<rparr>)"
| log_room: "lc_prod s i = LP_LoadTail e h \<Longrightarrow> log_next h \<noteq> lq_tail (lc_queue s) \<Longrightarrow>
     log_queue_step s (s\<lparr>lc_prod := (lc_prod s)(i := LP_Claim e h)\<rparr>)"
| log_claim: "lc_prod s i = LP_Claim e h \<Longrightarrow> lq_head (lc_queue s) = h \<Longrightarrow>
     log_queue_step s (s\<lparr>lc_prod := (lc_prod s)(i := LP_WriteSlot e h),
        lc_queue := (lc_queue s)\<lparr>lq_head := log_next h\<rparr>\<rparr>)"
| log_retry: "lc_prod s i = LP_Claim e h \<Longrightarrow>
     log_queue_step s (s\<lparr>lc_prod := (lc_prod s)(i := LP_LoadHead e)\<rparr>)"
| log_write: "lc_prod s i = LP_WriteSlot e h \<Longrightarrow>
     log_queue_step s (s\<lparr>lc_prod := (lc_prod s)(i := LP_Idle),
        lc_queue := (lc_queue s)\<lparr>lq_buffer := (lq_buffer (lc_queue s))[h := e]\<rparr>,
        lc_accepted := lc_accepted s @ [e]\<rparr>)"
| log_load_tail: "lc_cons s = LC_Idle \<Longrightarrow>
     log_queue_step s (s\<lparr>lc_cons := LC_LoadHead (lq_tail (lc_queue s))\<rparr>)"
| log_empty: "lc_cons s = LC_LoadHead t \<Longrightarrow> t = lq_head (lc_queue s) \<Longrightarrow>
     log_queue_step s (s\<lparr>lc_cons := LC_Idle\<rparr>)"
| log_nonempty: "lc_cons s = LC_LoadHead t \<Longrightarrow> t \<noteq> lq_head (lc_queue s) \<Longrightarrow>
     log_queue_step s (s\<lparr>lc_cons := LC_ReadSlot t\<rparr>)"
| log_read: "lc_cons s = LC_ReadSlot t \<Longrightarrow>
     log_queue_step s (s\<lparr>lc_cons := LC_StoreTail t (lq_buffer (lc_queue s) ! t)\<rparr>)"
| log_store_tail: "lc_cons s = LC_StoreTail t e \<Longrightarrow>
     log_queue_step s (s\<lparr>lc_cons := LC_Idle,
        lc_queue := (lc_queue s)\<lparr>lq_tail := log_next t\<rparr>, lc_popped := lc_popped s @ [e]\<rparr>)"

text \<open>
  C11.  The head is published before the slot is written, so the thread can overtake a caller: with
  a single caller and a single call there is an interleaving at whose end everybody is done, the
  call has returned true, the queue is empty, and what the thread got is the empty event the array
  was initialised with; the logged event is lost.
\<close>

theorem log_publish_before_write:
  "\<exists>s. log_queue_step\<^sup>*\<^sup>* log_conf_init s \<and> lc_accepted s = [e] \<and> lc_popped s = [LogEvent0]
     \<and> log_contents (lc_queue s) = [] \<and> lc_prod s = (\<lambda>_. LP_Idle) \<and> lc_cons s = LC_Idle"
proof -
  let ?q = AsyncLogQueue0
  define st where "st q p c acc pop = \<lparr>lc_queue = q, lc_prod = (\<lambda>_. LP_Idle)(0 := p), lc_cons = c,
    lc_accepted = acc, lc_popped = pop\<rparr>" for q p c acc pop
  have cap: "LOG_QUEUE_CAPACITY \<noteq> Suc 0" using log_capacity by simp
  have slot0: "lq_buffer ?q ! 0 = LogEvent0" "lq_head ?q = 0" "lq_tail ?q = 0"
    by (simp_all add: AsyncLogQueue0_def LOG_QUEUE_CAPACITY_def)
  let ?q1 = "?q\<lparr>lq_head := 1\<rparr>"
  have "log_queue_step\<^sup>*\<^sup>* log_conf_init (st ?q (LP_LoadHead e) LC_Idle [] [])"
    using log_begin [of log_conf_init 0 e]
    by (intro r_into_rtranclp) (simp add: log_conf_init_def st_def)
  also have "log_queue_step\<^sup>*\<^sup>* \<dots> (st ?q (LP_LoadTail e 0) LC_Idle [] [])"
    using log_load_head [of "st ?q (LP_LoadHead e) LC_Idle [] []" 0 e] slot0
    by (intro r_into_rtranclp) (simp add: st_def)
  also have "log_queue_step\<^sup>*\<^sup>* \<dots> (st ?q (LP_Claim e 0) LC_Idle [] [])"
    using log_room [of "st ?q (LP_LoadTail e 0) LC_Idle [] []" 0 e 0] slot0 cap
    by (intro r_into_rtranclp) (simp add: st_def)
  also have "log_queue_step\<^sup>*\<^sup>* \<dots> (st ?q1 (LP_WriteSlot e 0) LC_Idle [] [])"
    using log_claim [of "st ?q (LP_Claim e 0) LC_Idle [] []" 0 e 0] slot0 cap
    by (intro r_into_rtranclp) (simp add: st_def)
  also have "log_queue_step\<^sup>*\<^sup>* \<dots> (st ?q1 (LP_WriteSlot e 0) (LC_LoadHead 0) [] [])"
    using log_load_tail [of "st ?q1 (LP_WriteSlot e 0) LC_Idle [] []"] slot0
    by (intro r_into_rtranclp) (simp add: st_def)
  also have "log_queue_step\<^sup>*\<^sup>* \<dots> (st ?q1 (LP_WriteSlot e 0) (LC_ReadSlot 0) [] [])"
    using log_nonempty [of "st ?q1 (LP_WriteSlot e 0) (LC_LoadHead 0) [] []" 0]
    by (intro r_into_rtranclp) (simp add: st_def)
  also have "log_queue_step\<^sup>*\<^sup>* \<dots> (st ?q1 (LP_WriteSlot e 0) (LC_StoreTail 0 LogEvent0) [] [])"
    using log_read [of "st ?q1 (LP_WriteSlot e 0) (LC_ReadSlot 0) [] []" 0] slot0
    by (intro r_into_rtranclp) (simp add: st_def)
  also have "log_queue_step\<^sup>*\<^sup>* \<dots> (st (?q1\<lparr>lq_tail := 1\<rparr>) (LP_WriteSlot e 0) LC_Idle [] [LogEvent0])"
    using log_store_tail [of "st ?q1 (LP_WriteSlot e 0) (LC_StoreTail 0 LogEvent0) [] []" 0] cap
    by (intro r_into_rtranclp) (simp add: st_def)
  also have "log_queue_step\<^sup>*\<^sup>* \<dots> (st (?q1\<lparr>lq_tail := 1, lq_buffer := (lq_buffer ?q)[0 := e]\<rparr>)
      LP_Idle LC_Idle [e] [LogEvent0])"
    using log_write [of "st (?q1\<lparr>lq_tail := 1\<rparr>) (LP_WriteSlot e 0) LC_Idle [] [LogEvent0]" 0 e 0]
    by (intro r_into_rtranclp) (simp add: st_def)
  finally show ?thesis
    by (intro exI conjI, assumption)
       (simp_all add: st_def log_contents_def spsc_contents_def as_spsc_def fun_eq_iff)
qed

end
