(* ===== verification/Local_Bus.thy ===== *)
theory Local_Bus
  imports Strategy_Engine Exchange_Gateway Spsc_Queue Wire_Layout "HOL-Library.Sublist"
begin

text \<open>
  The four queues between the components inside one process (include/llt/message_bus.hpp), the market
  data the local pipelines make up, and a predicate for a queue between two stages: what one stage
  produced, what is on the way, what the other consumed, how much was dropped.  The simulator and the
  threaded runtimes share it.
\<close>

section \<open>The bus\<close>

definition BUS_CAPACITY :: nat where "BUS_CAPACITY = 2 ^ 14"

record LocalBus =
  bus_market_to_strategy :: "Envelope SpscQueue"
  bus_strategy_to_oms :: "Envelope SpscQueue"
  bus_oms_to_gateway :: "Envelope SpscQueue"
  bus_gateway_to_oms :: "Envelope SpscQueue"

definition LocalBus0 :: LocalBus where
  "LocalBus0 = \<lparr>bus_market_to_strategy = spsc_new BUS_CAPACITY Envelope0,
     bus_strategy_to_oms = spsc_new BUS_CAPACITY Envelope0,
     bus_oms_to_gateway = spsc_new BUS_CAPACITY Envelope0,
     bus_gateway_to_oms = spsc_new BUS_CAPACITY Envelope0\<rparr>"

lemma bus_capacity: "2 \<le> BUS_CAPACITY"
  by (simp add: BUS_CAPACITY_def)

text \<open>The update both programs build; the clock is read twice.\<close>

definition local_update ::
  "Sequence \<Rightarrow> TimestampNs \<Rightarrow> TimestampNs \<Rightarrow> Price \<Rightarrow> Price \<Rightarrow> MarketDataUpdate" where
  "local_update seq t1 t2 bid ask =
     MarketDataUpdate0\<lparr>md_header := MessageHeader0\<lparr>hdr_type := MT_MarketData,
         hdr_source_node := 1, hdr_destination_node := 2, hdr_sequence := seq,
         hdr_send_ts_ns := t1, hdr_recv_ts_ns := t2\<rparr>,
       md_symbol_id := 1, md_symbol := Symbol_of ''AAPL'', md_bid_px := bid, md_ask_px := ask,
       md_bid_qty := 100, md_ask_qty := 100, md_exchange_sequence := seq\<rparr>"

section \<open>A queue between two stages\<close>

text \<open>
  \<open>made\<close> is everything the producing stage made, \<open>held\<close> what it has made and not pushed yet, \<open>taken\<close>
  everything the consuming stage popped.
\<close>

definition channel :: "'a SpscQueue \<Rightarrow> 'a list \<Rightarrow> 'a list \<Rightarrow> 'a list \<Rightarrow> bool" where
  "channel q held made taken \<longleftrightarrow> spsc_inv q \<and> spsc_room q = BUS_CAPACITY - 1
     \<and> subseq (taken @ spsc_contents q @ held) made
     \<and> (\<exists>d. q_dropped q = of_nat d
         \<and> length made = length taken + length (spsc_contents q) + length held + d
         \<and> (0 < d \<longrightarrow> BUS_CAPACITY \<le> length made))"

lemma channel_new: "channel (spsc_new BUS_CAPACITY x) [] [] []"
  using bus_capacity
  by (simp add: channel_def spsc_new_inv spsc_new_contents spsc_new_room)
     (simp add: spsc_new_def)

lemma channel_make: "channel q [] made taken \<Longrightarrow> channel q [x] (made @ [x]) taken"
  using subseq_append [of "taken @ spsc_contents q" "[x]" made]
  by (auto simp: channel_def simp del: subseq_append)

lemma spsc_push_dropped:
  "q_dropped (snd (spsc_push x q)) = q_dropped q + (if fst (spsc_push x q) then 0 else 1)"
  "q_dropped (snd (spsc_pop q)) = q_dropped q"
  by (simp_all add: spsc_push_def spsc_pop_def Let_def)

lemma subseq_drop_last: "subseq (xs @ [x]) ys \<Longrightarrow> subseq xs ys"
  by (rule subseq_order.trans [OF _ , of _ "xs @ [x]"]) (simp_all add: subseq_rev_drop_many)

lemma channel_push:
  assumes "channel q [x] made taken"
  shows "channel (snd (spsc_push x q)) [] made taken"
proof -
  have inv: "spsc_inv q" and room: "spsc_room q = BUS_CAPACITY - 1"
    and seq: "subseq (taken @ spsc_contents q @ [x]) made"
    using assms by (simp_all add: channel_def)
  obtain d where d: "q_dropped q = of_nat d"
    "length made = length taken + length (spsc_contents q) + 1 + d"
    "0 < d \<longrightarrow> BUS_CAPACITY \<le> length made"
    using assms by (auto simp: channel_def)
  note push = spsc.contents_push [OF inv, of x] spsc.push_iff [OF inv, of x]
    spsc.inv_push [OF inv, of x] spsc_push_dropped(1) [of x q]
  show ?thesis
  proof (cases "fst (spsc_push x q)")
    case True
    with push d seq room show ?thesis by (auto simp: channel_def)
  next
    case False
    then have full: "length (spsc_contents q) = BUS_CAPACITY - 1"
      using push(2) spsc.contents_bound [OF inv] room by simp
    have "subseq (taken @ spsc_contents q) made"
      using seq subseq_drop_last [of "taken @ spsc_contents q" x made] by simp
    with False push d room full bus_capacity show ?thesis
      by (auto simp: channel_def intro!: exI [of _ "Suc d"])
  qed
qed

lemma channel_pop:
  assumes "channel q held made taken" and "fst (spsc_pop q) = Some x"
  shows "channel (snd (spsc_pop q)) held made (taken @ [x])" and "x \<in> set made"
    and "spsc_contents q = x # spsc_contents (snd (spsc_pop q))"
proof -
  have inv: "spsc_inv q" using assms(1) by (simp add: channel_def)
  show con: "spsc_contents q = x # spsc_contents (snd (spsc_pop q))"
    using spsc.contents_pop [OF inv] assms(2) by simp
  show "channel (snd (spsc_pop q)) held made (taken @ [x])"
    using assms(1) con spsc.inv_pop [OF inv] spsc_push_dropped(2) [of q] by (simp add: channel_def)
  show "x \<in> set made"
    using assms(1) con subseq_order.trans [of "[x]" "taken @ spsc_contents q @ held" made]
    by (simp add: channel_def subseq_singleton_left)
qed

lemma channel_pop_none:
  assumes "channel q held made taken" and "fst (spsc_pop q) = None"
  shows "snd (spsc_pop q) = q" and "spsc_contents q = []"
proof -
  have inv: "spsc_inv q" using assms(1) by (simp add: channel_def)
  show "spsc_contents q = []"
    using spsc.pop_some [OF inv] assms(2) by (cases "spsc_contents q") auto
  with spsc.pop_none [OF inv] show "snd (spsc_pop q) = q" by simp
qed

text \<open>With fewer messages than slots nothing is dropped and nothing is missing.\<close>

lemma channel_complete:
  assumes "channel q held made taken" and "length made < BUS_CAPACITY"
  shows "made = taken @ spsc_contents q @ held" and "q_dropped q = 0"
proof -
  obtain d where d: "q_dropped q = of_nat d"
    "length made = length taken + length (spsc_contents q) + length held + d"
    "0 < d \<longrightarrow> BUS_CAPACITY \<le> length made"
    using assms(1) by (auto simp: channel_def)
  with assms(2) have "d = 0" by auto
  with d assms(1) show "made = taken @ spsc_contents q @ held" and "q_dropped q = 0"
    by (auto simp: channel_def intro!: subseq_same_length [symmetric])
qed

lemma channel_taken: "channel q held made taken \<Longrightarrow> subseq taken made"
  by (auto simp: channel_def subseq_rev_drop_many intro: subseq_order.trans)

section \<open>What the made-up updates lead to\<close>

text \<open>
  Every update the local pipelines make is five ticks wide, so it becomes a signal; the limits admit
  every such signal, so it becomes an order.
\<close>

definition threaded_limits :: RiskLimits where
  "threaded_limits = \<lparr>lim_max_position = 10, lim_max_order_qty = 2, lim_max_notional = 1000000\<rparr>"

definition five_wide :: "MarketDataUpdate \<Rightarrow> bool" where
  "five_wide u \<longleftrightarrow> 10000 \<le> unat (md_bid_px u) \<and> unat (md_bid_px u) < 10025
     \<and> md_ask_px u = md_bid_px u + 5"

definition cheap_signal :: "Envelope \<Rightarrow> bool" where
  "cheap_signal e \<longleftrightarrow> (\<exists>s. e = signal_env s \<and> sig_side s = Buy \<and> sig_qty s = 1
     \<and> unat (sig_limit_px s) < 10026)"

lemma five_wide_signal:
  assumes "five_wide u" and "tob_has_value (str_book s) \<longrightarrow> five_wide (tob_last (str_book s))"
  obtains sig s' where "strategy_on_market_data t u s = (Some sig, s')" and "cheap_signal (signal_env sig)"
    and "five_wide (tob_last (str_book s'))"
proof -
  have view: "five_wide (strategy_view u s)"
    using assms by (simp add: strategy_view_def tob_apply_def)
  have px: "unat (md_bid_px (strategy_view u s) + 1) = Suc (unat (md_bid_px (strategy_view u s)))"
    using view by (subst unat_add_lem [THEN iffD1]) (simp_all add: five_wide_def)
  show thesis
  proof (cases rule: strategy_cases [of u s t])
    case narrow
    with view show ?thesis by (simp add: wide_quote_def five_wide_def)
  next
    case (wide sig)
    have "cheap_signal (signal_env sig)"
      unfolding cheap_signal_def using wide(3-5) px view
      by (intro exI [of _ sig]) (simp add: five_wide_def)
    with that [OF wide(2)] view show ?thesis by (simp add: strategy_view_def)
  qed
qed

lemma cheap_order:
  assumes "cheap_signal (signal_env s)" and "om_risk om = risk_new threaded_limits"
  obtains ord om' where "oms_on_signal t1 t2 s om = (Some (new_order_env ord), om')"
    and "is_message (new_order_env ord)" and "om_risk om' = risk_new threaded_limits"
    and "om_live_orders om' = insert (ord_client_order_id ord) (om_live_orders om)"
    and "ord_client_order_id ord = om_next_client_order_id om"
    and "om_next_client_order_id om' = om_next_client_order_id om + 1"
proof -
  have s: "sig_side s = Buy" "sig_qty s = 1" "unat (sig_limit_px s) < 10026"
    using assms(1) by (auto simp: cheap_signal_def)
  have "sint (sig_limit_px s) = int (unat (sig_limit_px s))"
    using s(3) by (intro sint_small) simp
  with s(3) have "sint (sig_limit_px s) \<le> 1000000" by linarith
  with s assms(2) have none: "risk_check (om_risk om) (oms_make_order t1 s om) = RR_None"
    by (simp add: risk_check_def risk_new_def threaded_limits_def signed_qty_def llabs_def
        oms_make_order_def NewOrder0_def)
  show thesis
  proof (cases rule: oms_on_signal_cases [of om t1 s t2])
    case (accepted ord)
    with that assms(2) s show ?thesis
      by (simp add: is_message_def oms_make_order_def NewOrder0_def MessageHeader0_def)
  next
    case (rejected r)
    with none show ?thesis by simp
  qed
qed


end
