(* ===== verification/Simulator.thy ===== *)
theory Simulator
  imports Local_Bus Effects
begin

text \<open>
  apps/simulator.cpp: the pipeline in one thread.  Each of 25 iterations makes an update and drains
  the four queues one after the other.  Reading \<open>k\<close> of the clock in iteration \<open>i\<close> is \<open>clk i k\<close>.
\<close>

section \<open>The program\<close>

record Simulator =
  sim_bus :: LocalBus
  sim_strategy :: StrategyEngine
  sim_oms :: OrderManager
  sim_gateway :: ExchangeGateway
  sim_md_seq :: Sequence
  sim_reads :: nat

text \<open>
  \<open>while (auto maybe = queue.pop()) body\<close>, on a state the queue is part of; \<open>None\<close> when the body has
  run \<open>fuel\<close> times.
\<close>

fun pop_loop ::
  "nat \<Rightarrow> ('s \<Rightarrow> 'a option \<times> 's) \<Rightarrow> ('a \<Rightarrow> 's \<Rightarrow> effect list \<times> 's) \<Rightarrow> 's
   \<Rightarrow> (effect list \<times> 's) option" where
  "pop_loop 0 pop body st = None"
| "pop_loop (Suc fuel) pop body st =
     (case pop st of
        (None, st') \<Rightarrow> Some ([], st')
      | (Some x, st') \<Rightarrow>
          (let (es, st'') = body x st'
           in map_option (\<lambda>(fs, r). (es @ fs, r)) (pop_loop fuel pop body st'')))"

definition pop_market :: "Simulator \<Rightarrow> Envelope option \<times> Simulator" where
  "pop_market st = (let (x, q) = spsc_pop (bus_market_to_strategy (sim_bus st))
     in (x, st\<lparr>sim_bus := (sim_bus st)\<lparr>bus_market_to_strategy := q\<rparr>\<rparr>))"

definition pop_signals :: "Simulator \<Rightarrow> Envelope option \<times> Simulator" where
  "pop_signals st = (let (x, q) = spsc_pop (bus_strategy_to_oms (sim_bus st))
     in (x, st\<lparr>sim_bus := (sim_bus st)\<lparr>bus_strategy_to_oms := q\<rparr>\<rparr>))"

definition pop_orders :: "Simulator \<Rightarrow> Envelope option \<times> Simulator" where
  "pop_orders st = (let (x, q) = spsc_pop (bus_oms_to_gateway (sim_bus st))
     in (x, st\<lparr>sim_bus := (sim_bus st)\<lparr>bus_oms_to_gateway := q\<rparr>\<rparr>))"

definition pop_answers :: "Simulator \<Rightarrow> Envelope option \<times> Simulator" where
  "pop_answers st = (let (x, q) = spsc_pop (bus_gateway_to_oms (sim_bus st))
     in (x, st\<lparr>sim_bus := (sim_bus st)\<lparr>bus_gateway_to_oms := q\<rparr>\<rparr>))"

text \<open>
  The bodies.  They do not look at the type of the message; \<open>None\<close> of an accessor would be a read of
  the wrong union member, which does not happen.
\<close>

definition sim_strategy_body ::
  "(nat \<Rightarrow> TimestampNs) \<Rightarrow> Envelope \<Rightarrow> Simulator \<Rightarrow> effect list \<times> Simulator" where
  "sim_strategy_body now e st =
     (case payload_market_data (env_payload e) of
        None \<Rightarrow> ([], st)
      | Some md \<Rightarrow>
          (let (signal, strategy) = strategy_on_market_data (now (sim_reads st)) md (sim_strategy st);
               st1 = st\<lparr>sim_strategy := strategy, sim_reads := sim_reads st + 1\<rparr>
           in case signal of
             None \<Rightarrow> ([], st1)
           | Some s \<Rightarrow>
               ([Log Info ''strategy'' ''generated signal''],
                st1\<lparr>sim_bus := (sim_bus st1)\<lparr>bus_strategy_to_oms :=
                  snd (spsc_push (signal_env s) (bus_strategy_to_oms (sim_bus st1)))\<rparr>\<rparr>)))"

definition sim_oms_body ::
  "(nat \<Rightarrow> TimestampNs) \<Rightarrow> Envelope \<Rightarrow> Simulator \<Rightarrow> effect list \<times> Simulator" where
  "sim_oms_body now e st =
     (case payload_signal (env_payload e) of
        None \<Rightarrow> ([], st)
      | Some s \<Rightarrow>
          (let (out, oms) = oms_on_signal (now (sim_reads st)) (now (sim_reads st + 1)) s (sim_oms st);
               st1 = st\<lparr>sim_oms := oms, sim_reads := sim_reads st + 2\<rparr>
           in case out of
             None \<Rightarrow> ([], st1)
           | Some e' \<Rightarrow>
               if env_type e' = MT_NewOrder
               then ([Log Info ''oms'' ''accepted signal and created new order''],
                     st1\<lparr>sim_bus := (sim_bus st1)\<lparr>bus_oms_to_gateway :=
                       snd (spsc_push e' (bus_oms_to_gateway (sim_bus st1)))\<rparr>\<rparr>)
               else ([Log Warn ''oms'' ''rejected signal''], st1)))"

definition sim_gateway_body ::
  "(nat \<Rightarrow> TimestampNs) \<Rightarrow> Envelope \<Rightarrow> Simulator \<Rightarrow> effect list \<times> Simulator" where
  "sim_gateway_body now e st =
     (case payload_new_order (env_payload e) of
        None \<Rightarrow> ([], st)
      | Some ord \<Rightarrow>
          (let (response, gateway) = gateway_send_order (now (sim_reads st)) ord (sim_gateway st);
               st1 = st\<lparr>sim_gateway := gateway, sim_reads := sim_reads st + 1\<rparr>
           in case response of
             None \<Rightarrow> ([], st1)
           | Some e' \<Rightarrow>
               ([], st1\<lparr>sim_bus := (sim_bus st1)\<lparr>bus_gateway_to_oms :=
                 snd (spsc_push e' (bus_gateway_to_oms (sim_bus st1)))\<rparr>\<rparr>)))"

definition sim_answer_body :: "Envelope \<Rightarrow> Simulator \<Rightarrow> effect list \<times> Simulator" where
  "sim_answer_body e st =
     (if env_type e = MT_Ack then [Log Info ''gateway'' ''order acked by simulated exchange'']
      else if env_type e = MT_Reject
      then [Log Warn ''gateway'' ''order rejected by simulated exchange''] else [],
      st\<lparr>sim_oms := oms_absorb e (sim_oms st)\<rparr>)"

definition sim_update :: "(nat \<Rightarrow> TimestampNs) \<Rightarrow> nat \<Rightarrow> Sequence \<Rightarrow> MarketDataUpdate" where
  "sim_update now i seq = local_update seq (now 0) (now 1) (10000 + of_nat i) (10005 + of_nat i)"

definition simulator_iteration ::
  "(nat \<Rightarrow> nat \<Rightarrow> TimestampNs) \<Rightarrow> nat \<Rightarrow> Simulator \<Rightarrow> (effect list \<times> Simulator) option" where
  "simulator_iteration clk i st =
     (let seq = sim_md_seq st + 1; e = market_data_env (sim_update (clk i) i seq);
          st1 = st\<lparr>sim_md_seq := seq, sim_reads := 2, sim_bus := (sim_bus st)\<lparr>bus_market_to_strategy :=
                   snd (spsc_push e (bus_market_to_strategy (sim_bus st)))\<rparr>\<rparr>
      in case pop_loop BUS_CAPACITY pop_market (sim_strategy_body (clk i)) st1 of
        None \<Rightarrow> None
      | Some (es1, st2) \<Rightarrow>
      (case pop_loop BUS_CAPACITY pop_signals (sim_oms_body (clk i)) st2 of
        None \<Rightarrow> None
      | Some (es2, st3) \<Rightarrow>
      (case pop_loop BUS_CAPACITY pop_orders (sim_gateway_body (clk i)) st3 of
        None \<Rightarrow> None
      | Some (es3, st4) \<Rightarrow>
      (case pop_loop BUS_CAPACITY pop_answers sim_answer_body st4 of
        None \<Rightarrow> None
      | Some (es4, st5) \<Rightarrow> Some (es1 @ es2 @ es3 @ es4, st5)))))"

fun simulator_loop ::
  "(nat \<Rightarrow> nat \<Rightarrow> TimestampNs) \<Rightarrow> nat list \<Rightarrow> Simulator \<Rightarrow> (effect list \<times> Simulator) option" where
  "simulator_loop clk [] st = Some ([], st)"
| "simulator_loop clk (i # is) st =
     (case simulator_iteration clk i st of
        None \<Rightarrow> None
      | Some (es, st') \<Rightarrow> map_option (\<lambda>(fs, r). (es @ fs, r)) (simulator_loop clk is st'))"

definition simulator_limits :: RiskLimits where
  "simulator_limits = \<lparr>lim_max_position = 10, lim_max_order_qty = 2, lim_max_notional = 1000000\<rparr>"

definition simulator_start :: Simulator where
  "simulator_start = \<lparr>sim_bus = LocalBus0, sim_strategy = strategy_new 2,
     sim_oms = oms_new 3 simulator_limits, sim_gateway = gateway_new 4, sim_md_seq = 0, sim_reads = 0\<rparr>"

definition simulator_main :: "(nat \<Rightarrow> nat \<Rightarrow> TimestampNs) \<Rightarrow> (effect list \<times> Simulator) option" where
  "simulator_main clk =
     map_option (\<lambda>(es, st). ([Log Info ''simulator'' ''starting full local pipeline simulation''] @ es
         @ [Log Info ''simulator'' ''simulation complete''], st))
       (simulator_loop clk [0..<25] simulator_start)"

section \<open>The components without the queues\<close>

type_synonym direct_state = "StrategyEngine \<times> OrderManager \<times> ExchangeGateway"

definition direct_iteration ::
  "(nat \<Rightarrow> nat \<Rightarrow> TimestampNs) \<Rightarrow> nat \<Rightarrow> direct_state \<Rightarrow> direct_state" where
  "direct_iteration clk i = (\<lambda>(strategy, oms, gateway).
     case strategy_on_market_data (clk i 2) (sim_update (clk i) i (of_nat (Suc i))) strategy of
       (None, strategy') \<Rightarrow> (strategy', oms, gateway)
     | (Some s, strategy') \<Rightarrow>
         (case oms_on_signal (clk i 3) (clk i 4) s oms of
            (None, oms') \<Rightarrow> (strategy', oms', gateway)
          | (Some e, oms') \<Rightarrow>
              (case payload_new_order (env_payload e) of
                 None \<Rightarrow> (strategy', oms', gateway)
               | Some ord \<Rightarrow>
                   (strategy', submit_order gateway_send_order (clk i 5) ord (oms', gateway)))))"

text \<open>A queue that is empty, and one that got a message.\<close>

definition idle_queue :: "Envelope SpscQueue \<Rightarrow> bool" where
  "idle_queue q \<longleftrightarrow> spsc_inv q \<and> spsc_room q = BUS_CAPACITY - 1 \<and> spsc_contents q = []"

lemma idle_queue_pop: "idle_queue q \<Longrightarrow> spsc_pop q = (None, q)"
  using spsc.pop_none [of q] by (simp add: idle_queue_def)

lemma idle_queue_push:
  assumes "idle_queue q"
  obtains q' where "spsc_pop (snd (spsc_push e q)) = (Some e, q')" and "idle_queue q'"
proof -
  have inv: "spsc_inv q" and q: "spsc_contents q = []" "spsc_room q = BUS_CAPACITY - 1"
    using assms by (simp_all add: idle_queue_def)
  have "spsc_contents (snd (spsc_push e q)) = [e]"
    using spsc.push_accepts [OF inv, of e] q bus_capacity by simp
  moreover have inv': "spsc_inv (snd (spsc_push e q))" "spsc_room (snd (spsc_push e q)) = BUS_CAPACITY - 1"
    using spsc.inv_push [OF inv, of e] q by simp_all
  ultimately have "fst (spsc_pop (snd (spsc_push e q))) = Some e"
    "idle_queue (snd (spsc_pop (snd (spsc_push e q))))"
    using spsc.pop_some [OF inv'(1)] spsc.inv_pop [OF inv'(1)] by (auto simp: idle_queue_def)
  with that show thesis by (metis prod.collapse)
qed


definition sim_at :: "nat \<Rightarrow> Simulator \<Rightarrow> bool" where
  "sim_at i st \<longleftrightarrow> idle_queue (bus_market_to_strategy (sim_bus st))
     \<and> idle_queue (bus_strategy_to_oms (sim_bus st)) \<and> idle_queue (bus_oms_to_gateway (sim_bus st))
     \<and> idle_queue (bus_gateway_to_oms (sim_bus st)) \<and> sim_md_seq st = of_nat i
     \<and> (tob_has_value (str_book (sim_strategy st)) \<longrightarrow> five_wide (tob_last (str_book (sim_strategy st))))
     \<and> om_risk (sim_oms st) = risk_new threaded_limits
     \<and> om_next_client_order_id (sim_oms st) = of_nat (Suc i)
     \<and> om_live_orders (sim_oms st) = of_nat ` {1..i} \<and> gw_available (sim_gateway st)"

definition acked_log :: effect where
  "acked_log = Log Info ''gateway'' ''order acked by simulated exchange''"

lemma sim_update_five_wide: "i < 25 \<Longrightarrow> five_wide (sim_update now i seq)"
proof -
  assume "i < 25"
  then have "unat (10000 + of_nat i :: 64 word) = 10000 + i"
    by (subst unat_add_lem [THEN iffD1]) (simp_all add: unat_of_nat)
  with \<open>i < 25\<close> show ?thesis by (simp add: five_wide_def sim_update_def local_update_def)
qed

lemma simulator_start_at: "sim_at 0 simulator_start"
  using bus_capacity
  by (simp add: sim_at_def simulator_start_def LocalBus0_def idle_queue_def spsc_new_inv
      spsc_new_contents spsc_new_room oms_new_def gateway_new_def strategy_new_def TopOfBook0_def
      simulator_limits_def threaded_limits_def)

lemma simulator_iteration_direct:
  assumes at: "sim_at i st" and i: "i < 25"
  obtains es st' where "simulator_iteration clk i st = Some (es, st')" and "sim_at (Suc i) st'"
    and "(sim_strategy st', sim_oms st', sim_gateway st')
      = direct_iteration clk i (sim_strategy st, sim_oms st, sim_gateway st)"
    and "count_list es acked_log = 1"
proof -
  obtain n where fuel: "BUS_CAPACITY = Suc (Suc n)"
    using bus_capacity le_Suc_ex [of 2 BUS_CAPACITY] by auto
  have q: "idle_queue (bus_market_to_strategy (sim_bus st))" "idle_queue (bus_strategy_to_oms (sim_bus st))"
    "idle_queue (bus_oms_to_gateway (sim_bus st))" "idle_queue (bus_gateway_to_oms (sim_bus st))"
    using at by (simp_all add: sim_at_def)
  let ?seq = "sim_md_seq st + 1"
  define u where "u = sim_update (clk i) i ?seq"
  have seq: "?seq = of_nat (Suc i)" using at by (simp add: sim_at_def)
  obtain q1 where q1: "spsc_pop (snd (spsc_push (market_data_env u) (bus_market_to_strategy (sim_bus st))))
      = (Some (market_data_env u), q1)" "idle_queue q1"
    using idle_queue_push [OF q(1)] by blast
  have "five_wide u" using sim_update_five_wide [OF i] by (simp add: u_def)
  then obtain s strat where s: "strategy_on_market_data (clk i 2) u (sim_strategy st) = (Some s, strat)"
    "cheap_signal (signal_env s)" "five_wide (tob_last (str_book strat))"
    using five_wide_signal at by (metis sim_at_def)
  obtain q2 where q2: "spsc_pop (snd (spsc_push (signal_env s) (bus_strategy_to_oms (sim_bus st))))
      = (Some (signal_env s), q2)" "idle_queue q2"
    using idle_queue_push [OF q(2)] by blast
  have risk: "om_risk (sim_oms st) = risk_new threaded_limits" using at by (simp add: sim_at_def)
  obtain ord om where ord: "oms_on_signal (clk i 3) (clk i 4) s (sim_oms st) = (Some (new_order_env ord), om)"
    "om_risk om = risk_new threaded_limits"
    "om_live_orders om = insert (ord_client_order_id ord) (om_live_orders (sim_oms st))"
    "ord_client_order_id ord = om_next_client_order_id (sim_oms st)"
    "om_next_client_order_id om = om_next_client_order_id (sim_oms st) + 1"
    using cheap_order [OF s(2) risk] by blast
  obtain q3 where q3: "spsc_pop (snd (spsc_push (new_order_env ord) (bus_oms_to_gateway (sim_bus st))))
      = (Some (new_order_env ord), q3)" "idle_queue q3"
    using idle_queue_push [OF q(3)] by blast
  obtain a g where a: "gateway_send_order (clk i 5) ord (sim_gateway st) = (Some (ack_env a), g)" "gw_available g"
    using gateway_available_acks [of "sim_gateway st"] at by (metis sim_at_def)
  obtain q4 where q4: "spsc_pop (snd (spsc_push (ack_env a) (bus_gateway_to_oms (sim_bus st))))
      = (Some (ack_env a), q4)" "idle_queue q4"
    using idle_queue_push [OF q(4)] by blast
  define st1 where "st1 = st\<lparr>sim_md_seq := ?seq, sim_reads := 2, sim_bus := (sim_bus st)\<lparr>bus_market_to_strategy :=
     snd (spsc_push (market_data_env u) (bus_market_to_strategy (sim_bus st)))\<rparr>\<rparr>"
  define st2 where "st2 = st1\<lparr>sim_strategy := strat, sim_reads := 3, sim_bus := (sim_bus st)\<lparr>bus_market_to_strategy := q1,
     bus_strategy_to_oms := snd (spsc_push (signal_env s) (bus_strategy_to_oms (sim_bus st)))\<rparr>\<rparr>"
  define st3 where "st3 = st2\<lparr>sim_oms := om, sim_reads := 5, sim_bus := (sim_bus st)\<lparr>bus_market_to_strategy := q1,
     bus_strategy_to_oms := q2, bus_oms_to_gateway := snd (spsc_push (new_order_env ord) (bus_oms_to_gateway (sim_bus st)))\<rparr>\<rparr>"
  define st4 where "st4 = st3\<lparr>sim_gateway := g, sim_reads := 6, sim_bus := (sim_bus st)\<lparr>bus_market_to_strategy := q1,
     bus_strategy_to_oms := q2, bus_oms_to_gateway := q3,
     bus_gateway_to_oms := snd (spsc_push (ack_env a) (bus_gateway_to_oms (sim_bus st)))\<rparr>\<rparr>"
  define st5 where "st5 = st4\<lparr>sim_bus := (sim_bus st)\<lparr>bus_market_to_strategy := q1,
     bus_strategy_to_oms := q2, bus_oms_to_gateway := q3, bus_gateway_to_oms := q4\<rparr>\<rparr>"
  note idle = idle_queue_pop [OF q1(2)] idle_queue_pop [OF q2(2)] idle_queue_pop [OF q3(2)] idle_queue_pop [OF q4(2)]
  have l1: "pop_loop BUS_CAPACITY pop_market (sim_strategy_body (clk i)) st1
      = Some ([Log Info ''strategy'' ''generated signal''], st2)"
    by (simp add: fuel pop_market_def st1_def st2_def q1(1) s(1) idle sim_strategy_body_def Let_def)
  have l2: "pop_loop BUS_CAPACITY pop_signals (sim_oms_body (clk i)) st2
      = Some ([Log Info ''oms'' ''accepted signal and created new order''], st3)"
    by (simp add: fuel pop_signals_def st1_def st2_def st3_def q2(1) ord(1) idle sim_oms_body_def Let_def)
  have l3: "pop_loop BUS_CAPACITY pop_orders (sim_gateway_body (clk i)) st3 = Some ([], st4)"
    by (simp add: fuel pop_orders_def st1_def st2_def st3_def st4_def q3(1) a(1) idle sim_gateway_body_def Let_def)
  have absorb: "oms_absorb (ack_env a) om = om"
    by (simp add: oms_absorb_def oms_on_gateway_ack_def)
  have l4: "pop_loop BUS_CAPACITY pop_answers sim_answer_body st4 = Some ([acked_log], st5)"
    by (simp add: fuel pop_answers_def st1_def st2_def st3_def st4_def st5_def q4(1) absorb idle
         sim_answer_body_def acked_log_def)
  have "simulator_iteration clk i st = Some ([Log Info ''strategy'' ''generated signal'',
      Log Info ''oms'' ''accepted signal and created new order'', acked_log], st5)"
    by (simp add: simulator_iteration_def Let_def u_def [symmetric] st1_def [symmetric] l1 l2 l3 l4)
  moreover have "sim_at (Suc i) st5"
    using at q1(2) q2(2) q3(2) q4(2) s(3) ord(2-5) a(2)
    by (auto simp: sim_at_def st1_def st2_def st3_def st4_def st5_def atLeastAtMostSuc_conv)
  moreover have "(sim_strategy st5, sim_oms st5, sim_gateway st5)
      = direct_iteration clk i (sim_strategy st, sim_oms st, sim_gateway st)"
    using s(1) ord(1) a(1)
    by (simp add: direct_iteration_def u_def seq submit_order_def absorb st1_def st2_def st3_def
        st4_def st5_def del: of_nat_Suc)
  ultimately show thesis by (rule that) (simp add: acked_log_def)
qed

lemma simulator_loop_direct:
  assumes "sim_at i st" and "i + n \<le> 25"
  shows "\<exists>es st'. simulator_loop clk [i..<i + n] st = Some (es, st') \<and> sim_at (i + n) st'
    \<and> (sim_strategy st', sim_oms st', sim_gateway st')
        = fold (direct_iteration clk) [i..<i + n] (sim_strategy st, sim_oms st, sim_gateway st)
    \<and> count_list es acked_log = n"
  using assms
proof (induction n arbitrary: i st)
  case 0
  then show ?case by simp
next
  case (Suc n)
  have "i < 25" using Suc.prems(2) by simp
  obtain es st1 where it: "simulator_iteration clk i st = Some (es, st1)" "sim_at (Suc i) st1"
    "(sim_strategy st1, sim_oms st1, sim_gateway st1)
      = direct_iteration clk i (sim_strategy st, sim_oms st, sim_gateway st)" "count_list es acked_log = 1"
    by (rule simulator_iteration_direct [OF Suc.prems(1) \<open>i < 25\<close>])
  obtain fs st2 where rest: "simulator_loop clk [Suc i..<Suc i + n] st1 = Some (fs, st2)" "sim_at (Suc i + n) st2"
    "(sim_strategy st2, sim_oms st2, sim_gateway st2)
      = fold (direct_iteration clk) [Suc i..<Suc i + n] (sim_strategy st1, sim_oms st1, sim_gateway st1)"
    "count_list fs acked_log = n"
    using Suc.IH [OF it(2)] Suc.prems(2) by auto
  have "[i..<i + Suc n] = i # [Suc i..<Suc i + n]" by (simp add: upt_conv_Cons)
  with it rest show ?case by (simp del: upt_Suc)
qed

text \<open>
  C9.  The simulation ends and its queues change nothing: none of its four draining loops runs for
  ever, the strategy, the order manager and the gateway end in the state that handing each message
  over directly gives, and that state has the 25 orders live, each acknowledged once.
\<close>

theorem simulator_direct:
  "\<exists>es st. simulator_main clk = Some (es, st)
     \<and> (sim_strategy st, sim_oms st, sim_gateway st)
         = fold (direct_iteration clk) [0..<25] (strategy_new 2, oms_new 3 simulator_limits, gateway_new 4)
     \<and> om_live_orders (sim_oms st) = of_nat ` {1..25} \<and> count_list es acked_log = 25"
proof -
  obtain es st where run: "simulator_loop clk [0..<25] simulator_start = Some (es, st)" "sim_at 25 st"
    "(sim_strategy st, sim_oms st, sim_gateway st) = fold (direct_iteration clk) [0..<25]
       (sim_strategy simulator_start, sim_oms simulator_start, sim_gateway simulator_start)"
    "count_list es acked_log = 25"
    using simulator_loop_direct [OF simulator_start_at, of 25 clk] by auto
  then show ?thesis
    by (simp add: simulator_main_def simulator_start_def sim_at_def acked_log_def del: upt_Suc fold_simps)
qed

end
