(* ===== verification/Threaded_Runtime.thy ===== *)
theory Threaded_Runtime
  imports Local_Bus Distributed_Nodes
begin

text \<open>
  apps/threaded_runtime.cpp: four threads over the four queues of the bus.  A step is what one thread
  does up to and including its next queue operation (each of which \<open>Spsc_Concurrent\<close> shows to behave
  as one step whatever the interleaving of its accesses), so a thread that has built a message and not
  pushed it yet holds it.  A schedule is a list of steps of the threads, with the clock readings of
  each, and any list is allowed.
\<close>

section \<open>The threads\<close>

datatype oms_pc =
    OmsSignals            \<comment> \<open>head of the loop: next it pops a signal\<close>
  | OmsSend Envelope      \<comment> \<open>order made and journaled: next it is pushed\<close>
  | OmsAnswers            \<comment> \<open>next it pops an answer of the gateway\<close>

text \<open>\<open>rt_submitted\<close> records the orders \<open>send_order\<close> of the gateway was called with.\<close>

record Runtime =
  rt_running :: bool
  rt_bus :: LocalBus
  rt_md_seq :: Sequence
  rt_strategy :: StrategyEngine
  rt_signal :: "Envelope option"
  rt_oms :: OrderManager
  rt_oms_pc :: oms_pc
  rt_journal :: JournalWriter
  rt_journal_sequence :: Sequence
  rt_gateway :: ExchangeGateway
  rt_response :: "Envelope option"
  rt_submitted :: "NewOrder list"

definition market_data_thread ::
  "TimestampNs \<Rightarrow> TimestampNs \<Rightarrow> Runtime \<Rightarrow> effect list \<times> Runtime" where
  "market_data_thread t1 t2 st =
     (if \<not> rt_running st then ([], st)
      else let seq = rt_md_seq st + 1; bid = 10000 + seq mod 25;
               e = market_data_env (local_update seq t1 t2 bid (bid + 5));
               (ok, q) = spsc_push e (bus_market_to_strategy (rt_bus st))
           in (if ok then [] else [Log Warn ''market_data''
                 ''market_to_strategy queue full; dropped market data''],
               st\<lparr>rt_md_seq := seq, rt_bus := (rt_bus st)\<lparr>bus_market_to_strategy := q\<rparr>\<rparr>))"

definition strategy_thread :: "TimestampNs \<Rightarrow> Runtime \<Rightarrow> effect list \<times> Runtime" where
  "strategy_thread t st =
     (case rt_signal st of
        Some out \<Rightarrow>
          (let (ok, q) = spsc_push out (bus_strategy_to_oms (rt_bus st))
           in (if ok then [Log Info ''strategy'' ''generated signal'']
               else [Log Warn ''strategy'' ''strategy_to_oms queue full; dropped signal''],
               st\<lparr>rt_signal := None, rt_bus := (rt_bus st)\<lparr>bus_strategy_to_oms := q\<rparr>\<rparr>))
      | None \<Rightarrow>
          if \<not> rt_running st then ([], st)
          else let (maybe_msg, q) = spsc_pop (bus_market_to_strategy (rt_bus st));
                   st1 = st\<lparr>rt_bus := (rt_bus st)\<lparr>bus_market_to_strategy := q\<rparr>\<rparr>
               in case maybe_msg of
                 None \<Rightarrow> ([], st1)
               | Some e \<Rightarrow>
                   (case (if env_type e \<noteq> MT_MarketData then None
                          else payload_market_data (env_payload e)) of
                      None \<Rightarrow> ([], st1)
                    | Some md \<Rightarrow>
                        (let (maybe_signal, strategy) = strategy_on_market_data t md (rt_strategy st1)
                         in ([], st1\<lparr>rt_strategy := strategy,
                                    rt_signal := map_option signal_env maybe_signal\<rparr>))))"

definition rt_journal_append ::
  "NodeEnv \<Rightarrow> JournalRecordType \<Rightarrow> Envelope \<Rightarrow> Runtime \<Rightarrow> effect list \<times> Runtime" where
  "rt_journal_append env rt e st =
     (let seq = rt_journal_sequence st + 1;
          (_, es, journal) = journal_append (nd_can_open env) (nd_fault env 0) (nd_pad env 0)
             (nd_now env 2) rt e seq (rt_journal st)
      in (es, st\<lparr>rt_journal_sequence := seq, rt_journal := journal\<rparr>))"

text \<open>The answer is journaled before the order manager sees it.\<close>

definition oms_thread_answer :: "NodeEnv \<Rightarrow> Envelope \<Rightarrow> Runtime \<Rightarrow> effect list \<times> Runtime" where
  "oms_thread_answer env e st =
     (if env_type e = MT_Ack then
        (let (es, st1) = rt_journal_append env JR_GatewayAck e st
         in (es @ [Log Info ''oms'' ''processed gateway ack''],
             st1\<lparr>rt_oms := oms_absorb e (rt_oms st1)\<rparr>))
      else if env_type e = MT_Reject then
        (let (es, st1) = rt_journal_append env JR_GatewayReject e st
         in (es, st1\<lparr>rt_oms := oms_absorb e (rt_oms st1)\<rparr>))
      else ([], st))"

definition oms_thread :: "NodeEnv \<Rightarrow> Runtime \<Rightarrow> effect list \<times> Runtime" where
  "oms_thread env st =
     (case rt_oms_pc st of
        OmsSignals \<Rightarrow>
          if \<not> rt_running st then ([], st)
          else let (maybe_signal, q) = spsc_pop (bus_strategy_to_oms (rt_bus st));
                   st1 = st\<lparr>rt_oms_pc := OmsAnswers,
                            rt_bus := (rt_bus st)\<lparr>bus_strategy_to_oms := q\<rparr>\<rparr>
               in (case (case maybe_signal of None \<Rightarrow> None
                         | Some e \<Rightarrow> if env_type e \<noteq> MT_Signal then None
                                     else payload_signal (env_payload e)) of
                     None \<Rightarrow> ([], st1)
                   | Some signal \<Rightarrow>
                       (let (maybe_order, oms) = oms_on_signal (nd_now env 0) (nd_now env 1) signal
                              (rt_oms st1);
                            st2 = st1\<lparr>rt_oms := oms\<rparr>
                        in case maybe_order of
                          None \<Rightarrow> ([], st2)
                        | Some order \<Rightarrow>
                            if env_type order = MT_NewOrder then
                              (let (es, st3) = rt_journal_append env JR_OrderIntent order st2
                               in (es, st3\<lparr>rt_oms_pc := OmsSend order\<rparr>))
                            else if env_type order = MT_Reject then
                              ([Log Warn ''oms'' ''signal rejected by risk engine''], st2)
                            else ([], st2)))
      | OmsSend order \<Rightarrow>
          (let (ok, q) = spsc_push order (bus_oms_to_gateway (rt_bus st))
           in (if ok then [Log Info ''oms'' ''accepted signal and created order'']
               else [Log Warn ''oms'' ''oms_to_gateway queue full; dropped order''],
               st\<lparr>rt_oms_pc := OmsAnswers, rt_bus := (rt_bus st)\<lparr>bus_oms_to_gateway := q\<rparr>\<rparr>))
      | OmsAnswers \<Rightarrow>
          (let (maybe_gateway_msg, q) = spsc_pop (bus_gateway_to_oms (rt_bus st));
               st1 = st\<lparr>rt_oms_pc := OmsSignals, rt_bus := (rt_bus st)\<lparr>bus_gateway_to_oms := q\<rparr>\<rparr>
           in case maybe_gateway_msg of
             None \<Rightarrow> ([], st1)
           | Some e \<Rightarrow> oms_thread_answer env e st1))"

definition gateway_thread :: "TimestampNs \<Rightarrow> Runtime \<Rightarrow> effect list \<times> Runtime" where
  "gateway_thread t st =
     (case rt_response st of
        Some response \<Rightarrow>
          (let (ok, q) = spsc_push response (bus_gateway_to_oms (rt_bus st))
           in (if ok then [Log Info ''gateway'' ''sent order and produced exchange response'']
               else [Log Warn ''gateway'' ''gateway_to_oms queue full; dropped gateway response''],
               st\<lparr>rt_response := None, rt_bus := (rt_bus st)\<lparr>bus_gateway_to_oms := q\<rparr>\<rparr>))
      | None \<Rightarrow>
          if \<not> rt_running st then ([], st)
          else let (maybe_order, q) = spsc_pop (bus_oms_to_gateway (rt_bus st));
                   st1 = st\<lparr>rt_bus := (rt_bus st)\<lparr>bus_oms_to_gateway := q\<rparr>\<rparr>
               in (case (case maybe_order of None \<Rightarrow> None
                         | Some e \<Rightarrow> if env_type e \<noteq> MT_NewOrder then None
                                     else payload_new_order (env_payload e)) of
                     None \<Rightarrow> ([], st1)
                   | Some ord \<Rightarrow>
                       (let (maybe_response, gateway) = gateway_send_order t ord (rt_gateway st1)
                        in ([], st1\<lparr>rt_gateway := gateway, rt_response := maybe_response,
                                   rt_submitted := rt_submitted st1 @ [ord]\<rparr>))))"

section \<open>Schedules\<close>

datatype rt_event =
    MarketDataStep TimestampNs TimestampNs
  | StrategyStep TimestampNs
  | OmsStep NodeEnv
  | GatewayStep TimestampNs
  | Shutdown

fun rt_step :: "rt_event \<Rightarrow> Runtime \<Rightarrow> effect list \<times> Runtime" where
  "rt_step (MarketDataStep t1 t2) st = market_data_thread t1 t2 st"
| "rt_step (StrategyStep t) st = strategy_thread t st"
| "rt_step (OmsStep env) st = oms_thread env st"
| "rt_step (GatewayStep t) st = gateway_thread t st"
| "rt_step Shutdown st = ([], st\<lparr>rt_running := False\<rparr>)"

fun rt_run :: "rt_event list \<Rightarrow> Runtime \<Rightarrow> effect list \<times> Runtime" where
  "rt_run [] st = ([], st)"
| "rt_run (ev # evs) st =
     (let (es, st1) = rt_step ev st; (fs, st2) = rt_run evs st1 in (es @ fs, st2))"

definition runtime_start :: "bool \<Rightarrow> byte list \<Rightarrow> Runtime" where
  "runtime_start can_open old =
     \<lparr>rt_running = True, rt_bus = LocalBus0, rt_md_seq = 0, rt_strategy = strategy_new 2,
      rt_signal = None, rt_oms = oms_new 3 threaded_limits, rt_oms_pc = OmsSignals,
      rt_journal = snd (snd (journal_open can_open (journal_writer_new old))),
      rt_journal_sequence = 0, rt_gateway = gateway_new 4, rt_response = None, rt_submitted = []\<rparr>"

text \<open>
  \<open>main\<close>: the threads run, the flag goes down, they finish the iteration they are in, log their end,
  and the order manager closes the journal.
\<close>

definition runtime_join :: "Runtime \<Rightarrow> effect list \<times> Runtime" where
  "runtime_join st =
     (let (es, journal) = journal_close (rt_journal st)
      in (map (\<lambda>thread. Log Info thread ''thread stopped'')
            [''market_data'', ''strategy'', ''gateway'', ''oms'']
          @ es @ [Log Info ''threaded_runtime'' ''shutdown complete''],
          st\<lparr>rt_journal := journal\<rparr>))"

definition threaded_runtime_main ::
  "bool \<Rightarrow> byte list \<Rightarrow> rt_event list \<Rightarrow> rt_event list \<Rightarrow> effect list \<times> Runtime" where
  "threaded_runtime_main can_open old before after =
     (let (es, st) = rt_run (before @ Shutdown # after) (runtime_start can_open old);
          (fs, st') = runtime_join st
      in ([Log Info ''threaded_runtime'' ''starting phase 1 CPU-pinned multi-threaded runtime'']
          @ es @ fs, st'))"

section \<open>The invariant\<close>

definition records_of :: "JournalRecordType \<Rightarrow> (JournalRecordType \<times> Envelope) list \<Rightarrow> Envelope list" where
  "records_of rt rs = map snd (filter (\<lambda>r. fst r = rt) rs)"

lemma records_of_append [simp]: "records_of rt (rs @ rs') = records_of rt rs @ records_of rt rs'"
  by (simp add: records_of_def)

lemma records_of_single [simp]: "records_of rt [(rt', e)] = (if rt = rt' then [e] else [])"
  by (simp add: records_of_def)

lemma records_of_Nil [simp]: "records_of rt [] = []"
  by (simp add: records_of_def)

fun oms_holds :: "oms_pc \<Rightarrow> Envelope list" where
  "oms_holds (OmsSend e) = [e]"
| "oms_holds _ = []"

abbreviation opt_list :: "'a option \<Rightarrow> 'a list" where
  "opt_list x \<equiv> (case x of None \<Rightarrow> [] | Some y \<Rightarrow> [y])"

text \<open>What the stages have made and taken so far; the rest of it is in the state.\<close>

record History =
  h_updates :: "Envelope list"
  h_updates_taken :: "Envelope list"
  h_signals :: "Envelope list"
  h_signals_taken :: "Envelope list"
  h_orders :: "NewOrder list"
  h_answers :: "Ack list"
  h_records :: "(JournalRecordType \<times> Envelope) list"

definition channels_ok :: "History \<Rightarrow> Runtime \<Rightarrow> bool" where
  "channels_ok h st \<longleftrightarrow>
     channel (bus_market_to_strategy (rt_bus st)) [] (h_updates h) (h_updates_taken h)
     \<and> channel (bus_strategy_to_oms (rt_bus st)) (opt_list (rt_signal st)) (h_signals h)
         (h_signals_taken h)
     \<and> channel (bus_oms_to_gateway (rt_bus st)) (oms_holds (rt_oms_pc st))
         (map new_order_env (h_orders h)) (map new_order_env (rt_submitted st))
     \<and> channel (bus_gateway_to_oms (rt_bus st)) (opt_list (rt_response st))
         (map ack_env (h_answers h)) (records_of JR_GatewayAck (h_records h))"

definition history_ok :: "History \<Rightarrow> NewOrder list \<Rightarrow> bool" where
  "history_ok h submitted \<longleftrightarrow>
     (\<forall>e \<in> set (h_updates h). \<exists>u. e = market_data_env u \<and> five_wide u)
     \<and> length (h_signals h) = length (h_updates_taken h) \<and> list_all cheap_signal (h_signals h)
     \<and> length (h_orders h) = length (h_signals_taken h)
     \<and> map ack_client_order_id (h_answers h) = map ord_client_order_id submitted
     \<and> list_all (\<lambda>a. is_message (ack_env a)) (h_answers h)
     \<and> records_of JR_OrderIntent (h_records h) = map new_order_env (h_orders h)"

definition components_ok :: "History \<Rightarrow> Runtime \<Rightarrow> bool" where
  "components_ok h st \<longleftrightarrow> rt_md_seq st = of_nat (length (h_updates h)) \<and> journal_holds (h_records h) (rt_journal st)
     \<and> om_live_orders (rt_oms st) = set (map ord_client_order_id (h_orders h))
     \<and> om_risk (rt_oms st) = risk_new threaded_limits \<and> gw_available (rt_gateway st)
     \<and> (tob_has_value (str_book (rt_strategy st)) \<longrightarrow> five_wide (tob_last (str_book (rt_strategy st))))"

definition rt_inv :: "History \<Rightarrow> Runtime \<Rightarrow> bool" where
  "rt_inv h st \<longleftrightarrow> channels_ok h st \<and> history_ok h (rt_submitted st) \<and> components_ok h st"

lemma rt_inv_channels:
  assumes "rt_inv h st"
  shows "channel (bus_market_to_strategy (rt_bus st)) [] (h_updates h) (h_updates_taken h)"
    and "channel (bus_strategy_to_oms (rt_bus st)) (opt_list (rt_signal st)) (h_signals h)
       (h_signals_taken h)"
    and "channel (bus_oms_to_gateway (rt_bus st)) (oms_holds (rt_oms_pc st))
       (map new_order_env (h_orders h)) (map new_order_env (rt_submitted st))"
    and "channel (bus_gateway_to_oms (rt_bus st)) (opt_list (rt_response st))
       (map ack_env (h_answers h)) (records_of JR_GatewayAck (h_records h))"
  using assms by (simp_all add: rt_inv_def channels_ok_def)

definition History0 :: History where
  "History0 = \<lparr>h_updates = [], h_updates_taken = [], h_signals = [], h_signals_taken = [],
     h_orders = [], h_answers = [], h_records = []\<rparr>"

lemmas rt_inv_defs = rt_inv_def channels_ok_def history_ok_def components_ok_def

fun rt_event_ok :: "rt_event \<Rightarrow> bool" where
  "rt_event_ok (OmsStep env) = (nd_fault env 0 = None)"
| "rt_event_ok _ = True"

fun is_market_data :: "rt_event \<Rightarrow> bool" where
  "is_market_data (MarketDataStep _ _) = True"
| "is_market_data _ = False"

lemma rt_inv_start: "rt_inv History0 (runtime_start True [])"
  using journal_holds_open channel_new [of Envelope0]
  by (simp add: rt_inv_defs History0_def runtime_start_def LocalBus0_def oms_new_def gateway_new_def
      strategy_new_def TopOfBook0_def)

lemma local_update_five_wide:
  "five_wide (local_update seq t1 t2 (10000 + seq mod 25) ((10000 + seq mod 25) + 5))"
proof -
  have "unat (seq mod 25) < 25" by (simp add: unat_mod_distrib)
  moreover have "unat (10000 + seq mod 25 :: 64 word) = 10000 + unat (seq mod 25)"
    using calculation by (subst unat_add_lem [THEN iffD1]) simp_all
  ultimately show ?thesis by (simp add: five_wide_def local_update_def)
qed

lemma rt_inv_market_data:
  assumes "rt_inv h st"
  shows "\<exists>h'. rt_inv h' (snd (market_data_thread t1 t2 st))
    \<and> length (h_updates h') = length (h_updates h) + (if rt_running st then 1 else 0)"
proof (cases "rt_running st")
  case False
  with assms show ?thesis by (intro exI [of _ h]) (simp add: market_data_thread_def)
next
  case True
  let ?seq = "rt_md_seq st + 1"
  let ?e = "market_data_env (local_update ?seq t1 t2 (10000 + ?seq mod 25) ((10000 + ?seq mod 25) + 5))"
  let ?q = "bus_market_to_strategy (rt_bus st)"
  have st': "snd (market_data_thread t1 t2 st) = st\<lparr>rt_md_seq := ?seq,
      rt_bus := (rt_bus st)\<lparr>bus_market_to_strategy := snd (spsc_push ?e ?q)\<rparr>\<rparr>"
    using True by (simp add: market_data_thread_def split_beta Let_def)
  have "channel (snd (spsc_push ?e ?q)) [] (h_updates h @ [?e]) (h_updates_taken h)"
    using assms by (intro channel_push channel_make) (simp add: rt_inv_defs)
  with assms local_update_five_wide [of ?seq t1 t2] True show ?thesis
    by (intro exI [of _ "h\<lparr>h_updates := h_updates h @ [?e]\<rparr>"]) (auto simp: rt_inv_defs st')
qed

text \<open>The strategy: every update taken becomes a signal.\<close>

lemma rt_inv_strategy:
  assumes "rt_inv h st"
  shows "\<exists>h'. rt_inv h' (snd (strategy_thread t st)) \<and> h_updates h' = h_updates h"
proof (cases "rt_signal st")
  case (Some out)
  let ?q = "bus_strategy_to_oms (rt_bus st)"
  have st': "snd (strategy_thread t st) = st\<lparr>rt_signal := None,
      rt_bus := (rt_bus st)\<lparr>bus_strategy_to_oms := snd (spsc_push out ?q)\<rparr>\<rparr>"
    using Some by (simp add: strategy_thread_def split_beta Let_def)
  have "channel (snd (spsc_push out ?q)) [] (h_signals h) (h_signals_taken h)"
    using assms Some by (intro channel_push) (simp add: rt_inv_defs)
  with assms show ?thesis by (intro exI [of _ h]) (simp add: rt_inv_defs st')
next
  case idle: None
  let ?q = "bus_market_to_strategy (rt_bus st)"
  have chan: "channel ?q [] (h_updates h) (h_updates_taken h)"
    using assms by (simp add: rt_inv_defs)
  show ?thesis
  proof (cases "rt_running st \<and> fst (spsc_pop ?q) \<noteq> None")
    case False
    then have "snd (strategy_thread t st) = st"
      using channel_pop_none(1) [OF chan] idle
      by (cases "spsc_pop ?q") (auto simp: strategy_thread_def Let_def)
    with assms show ?thesis by auto
  next
    case True
    then obtain e where e: "fst (spsc_pop ?q) = Some e" by auto
    note popped = channel_pop [OF chan e]
    obtain u where u: "e = market_data_env u" "five_wide u"
      using popped(2) assms by (auto simp: rt_inv_defs)
    obtain sig s' where run: "strategy_on_market_data t u (rt_strategy st) = (Some sig, s')"
      "cheap_signal (signal_env sig)" "five_wide (tob_last (str_book s'))"
      using five_wide_signal [OF u(2), of "rt_strategy st" t] assms by (auto simp: rt_inv_defs)
    have st': "snd (strategy_thread t st) = st\<lparr>rt_strategy := s', rt_signal := Some (signal_env sig),
        rt_bus := (rt_bus st)\<lparr>bus_market_to_strategy := snd (spsc_pop ?q)\<rparr>\<rparr>"
      using True idle e u(1) run(1) by (simp add: strategy_thread_def split_beta Let_def)
    have "channel (bus_strategy_to_oms (rt_bus st)) [signal_env sig]
        (h_signals h @ [signal_env sig]) (h_signals_taken h)"
      using assms idle by (intro channel_make) (simp add: rt_inv_defs)
    with assms popped(1) run(2,3) show ?thesis
      by (intro exI [of _ "h\<lparr>h_updates_taken := h_updates_taken h @ [e],
            h_signals := h_signals h @ [signal_env sig]\<rparr>"]) (simp add: rt_inv_defs st')
  qed
qed

text \<open>The order manager: every signal taken becomes a journaled order.\<close>

lemma rt_journal_append_holds:
  assumes "journal_holds rs (rt_journal st)" and "is_message e" and "canonical_journal_type rt"
    and "nd_fault env 0 = None"
  shows "\<exists>es seq w. rt_journal_append env rt e st
      = (es, st\<lparr>rt_journal_sequence := seq, rt_journal := w\<rparr>) \<and> journal_holds (rs @ [(rt, e)]) w"
proof -
  obtain w where "journal_append (nd_can_open env) None (nd_pad env 0) (nd_now env 2) rt e
      (rt_journal_sequence st + 1) (rt_journal st)
    = (True, [Log Info ''journal'' ''appended journal record'', metric_inc JournalWrites], w)"
    "journal_holds (rs @ [(rt, e)]) w"
    using journal_holds_append [OF assms(1-3)] by blast
  then show ?thesis by (auto simp: rt_journal_append_def assms(4) Let_def)
qed

lemma rt_inv_oms_signal:
  assumes "rt_inv h st" and "nd_fault env 0 = None" and "rt_oms_pc st = OmsSignals"
  shows "\<exists>h'. rt_inv h' (snd (oms_thread env st)) \<and> h_updates h' = h_updates h"
proof -
  let ?q = "bus_strategy_to_oms (rt_bus st)"
  have chan: "channel ?q (opt_list (rt_signal st)) (h_signals h) (h_signals_taken h)"
    using assms(1) by (simp add: rt_inv_defs)
  show ?thesis
  proof (cases "rt_running st")
    case False
    with assms show ?thesis by (auto simp: oms_thread_def)
  next
    case running: True
    show ?thesis
    proof (cases "fst (spsc_pop ?q)")
      case None
      then have "snd (oms_thread env st) = st\<lparr>rt_oms_pc := OmsAnswers\<rparr>"
        using channel_pop_none(1) [OF chan] assms(3) running
        by (cases "spsc_pop ?q") (simp add: oms_thread_def Let_def)
      with assms(1,3) show ?thesis by (intro exI [of _ h]) (simp add: rt_inv_defs)
    next
      case (Some e)
      note popped = channel_pop [OF chan Some]
      have "list_all cheap_signal (h_signals h)" using assms(1) by (simp add: rt_inv_defs)
      with popped(2) have "cheap_signal e" by (simp add: list_all_iff)
      then obtain s where s: "e = signal_env s" "cheap_signal (signal_env s)"
        by (auto simp: cheap_signal_def)
      have risk: "om_risk (rt_oms st) = risk_new threaded_limits" using assms(1) by (simp add: rt_inv_defs)
      obtain ord om' where ord: "oms_on_signal (nd_now env 0) (nd_now env 1) s (rt_oms st)
          = (Some (new_order_env ord), om')" "is_message (new_order_env ord)"
        "om_risk om' = risk_new threaded_limits"
        "om_live_orders om' = insert (ord_client_order_id ord) (om_live_orders (rt_oms st))"
        using cheap_order [OF s(2) risk] by blast
      let ?st2 = "st\<lparr>rt_oms_pc := OmsAnswers, rt_bus := (rt_bus st)\<lparr>bus_strategy_to_oms := snd (spsc_pop ?q)\<rparr>,
        rt_oms := om'\<rparr>"
      obtain es seq w where jr: "rt_journal_append env JR_OrderIntent (new_order_env ord) ?st2
          = (es, ?st2\<lparr>rt_journal_sequence := seq, rt_journal := w\<rparr>)"
        "journal_holds (h_records h @ [(JR_OrderIntent, new_order_env ord)]) w"
        using rt_journal_append_holds [of "h_records h" ?st2 "new_order_env ord" JR_OrderIntent env]
          assms(1,2) ord(2) by (auto simp: rt_inv_defs)
      have st': "snd (oms_thread env st) = ?st2\<lparr>rt_journal_sequence := seq, rt_journal := w,
          rt_oms_pc := OmsSend (new_order_env ord)\<rparr>"
        using running assms(3) Some s(1) ord(1) jr(1) by (simp add: oms_thread_def split_beta Let_def)
      have "channel (bus_oms_to_gateway (rt_bus st)) [new_order_env ord]
          (map new_order_env (h_orders h) @ [new_order_env ord]) (map new_order_env (rt_submitted st))"
        using assms(1,3) by (intro channel_make) (simp add: rt_inv_defs)
      with assms(1) popped(1) ord(3,4) jr(2) show ?thesis
        by (intro exI [of _ "h\<lparr>h_signals_taken := h_signals_taken h @ [e],
              h_orders := h_orders h @ [ord],
              h_records := h_records h @ [(JR_OrderIntent, new_order_env ord)]\<rparr>"])
           (simp add: rt_inv_defs st')
    qed
  qed
qed

lemma rt_inv_oms_answers:
  assumes "rt_inv h st" and "nd_fault env 0 = None" and "rt_oms_pc st = OmsAnswers"
  shows "\<exists>h'. rt_inv h' (snd (oms_thread env st)) \<and> h_updates h' = h_updates h"
proof -
  let ?q = "bus_gateway_to_oms (rt_bus st)"
  have chan: "channel ?q (opt_list (rt_response st)) (map ack_env (h_answers h))
      (records_of JR_GatewayAck (h_records h))"
    using assms(1) by (simp add: rt_inv_defs)
  show ?thesis
  proof (cases "fst (spsc_pop ?q)")
    case None
    then have "snd (oms_thread env st) = st\<lparr>rt_oms_pc := OmsSignals\<rparr>"
      using channel_pop_none(1) [OF chan] assms(3)
      by (cases "spsc_pop ?q") (simp add: oms_thread_def Let_def)
    with assms(1,3) show ?thesis by (intro exI [of _ h]) (simp add: rt_inv_defs)
  next
    case (Some e)
    note popped = channel_pop [OF chan Some]
    obtain a where a: "e = ack_env a" "is_message (ack_env a)"
      using popped(2) assms(1) by (auto simp: rt_inv_defs list_all_iff)
    let ?st1 = "st\<lparr>rt_oms_pc := OmsSignals, rt_bus := (rt_bus st)\<lparr>bus_gateway_to_oms := snd (spsc_pop ?q)\<rparr>\<rparr>"
    obtain es seq w where jr: "rt_journal_append env JR_GatewayAck (ack_env a) ?st1
        = (es, ?st1\<lparr>rt_journal_sequence := seq, rt_journal := w\<rparr>)"
      "journal_holds (h_records h @ [(JR_GatewayAck, ack_env a)]) w"
      using rt_journal_append_holds [of "h_records h" ?st1 "ack_env a" JR_GatewayAck env]
        assms(1,2) a(2) by (auto simp: rt_inv_defs)
    have "oms_absorb (ack_env a) om = om" for om
      by (simp add: oms_absorb_def oms_on_gateway_ack_def)
    then have st': "snd (oms_thread env st) = ?st1\<lparr>rt_journal_sequence := seq, rt_journal := w\<rparr>"
      using assms(3) Some a(1) jr(1)
      by (simp add: oms_thread_def oms_thread_answer_def split_beta Let_def)
    from assms popped(1) jr(2) a(1) show ?thesis
      by (intro exI [of _ "h\<lparr>h_records := h_records h @ [(JR_GatewayAck, ack_env a)]\<rparr>"])
         (simp add: rt_inv_defs st')
  qed
qed

lemma rt_inv_oms:
  assumes "rt_inv h st" and "nd_fault env 0 = None"
  shows "\<exists>h'. rt_inv h' (snd (oms_thread env st)) \<and> h_updates h' = h_updates h"
proof (cases "rt_oms_pc st")
  case (OmsSend e)
  let ?q = "bus_oms_to_gateway (rt_bus st)"
  have st': "snd (oms_thread env st) = st\<lparr>rt_oms_pc := OmsAnswers,
      rt_bus := (rt_bus st)\<lparr>bus_oms_to_gateway := snd (spsc_push e ?q)\<rparr>\<rparr>"
    using OmsSend by (simp add: oms_thread_def split_beta Let_def)
  have "channel (snd (spsc_push e ?q)) [] (map new_order_env (h_orders h))
      (map new_order_env (rt_submitted st))"
    using assms(1) OmsSend by (intro channel_push) (simp add: rt_inv_defs)
  with assms(1) show ?thesis by (intro exI [of _ h]) (simp add: rt_inv_defs st')
qed (use assms rt_inv_oms_signal rt_inv_oms_answers in blast)+

text \<open>The gateway: every order taken is acknowledged.\<close>

lemma rt_inv_gateway:
  assumes "rt_inv h st"
  shows "\<exists>h'. rt_inv h' (snd (gateway_thread t st)) \<and> h_updates h' = h_updates h"
proof (cases "rt_response st")
  case (Some out)
  let ?q = "bus_gateway_to_oms (rt_bus st)"
  have st': "snd (gateway_thread t st) = st\<lparr>rt_response := None,
      rt_bus := (rt_bus st)\<lparr>bus_gateway_to_oms := snd (spsc_push out ?q)\<rparr>\<rparr>"
    using Some by (simp add: gateway_thread_def split_beta Let_def)
  have "channel (snd (spsc_push out ?q)) [] (map ack_env (h_answers h))
      (records_of JR_GatewayAck (h_records h))"
    using assms Some by (intro channel_push) (simp add: rt_inv_defs)
  with assms show ?thesis by (intro exI [of _ h]) (simp add: rt_inv_defs st')
next
  case idle: None
  let ?q = "bus_oms_to_gateway (rt_bus st)"
  have chan: "channel ?q (oms_holds (rt_oms_pc st)) (map new_order_env (h_orders h))
      (map new_order_env (rt_submitted st))"
    using assms by (simp add: rt_inv_defs)
  show ?thesis
  proof (cases "rt_running st \<and> fst (spsc_pop ?q) \<noteq> None")
    case False
    then have "snd (gateway_thread t st) = st"
      using channel_pop_none(1) [OF chan] idle
      by (cases "spsc_pop ?q") (auto simp: gateway_thread_def Let_def)
    with assms show ?thesis by auto
  next
    case True
    then obtain e where e: "fst (spsc_pop ?q) = Some e" by auto
    note popped = channel_pop [OF chan e]
    obtain ord where ord: "e = new_order_env ord" using popped(2) by auto
    obtain a g' where ack: "gateway_send_order t ord (rt_gateway st) = (Some (ack_env a), g')"
      "ack_client_order_id a = ord_client_order_id ord" "gw_available g'" "is_message (ack_env a)"
      using assms by (simp add: rt_inv_defs gateway_send_order_def Let_def is_message_def Ack0_def
          MessageHeader0_def)
    have st': "snd (gateway_thread t st) = st\<lparr>rt_gateway := g', rt_response := Some (ack_env a),
        rt_submitted := rt_submitted st @ [ord],
        rt_bus := (rt_bus st)\<lparr>bus_oms_to_gateway := snd (spsc_pop ?q)\<rparr>\<rparr>"
      using True idle e ord ack(1) by (simp add: gateway_thread_def split_beta Let_def)
    have "channel (bus_gateway_to_oms (rt_bus st)) [ack_env a]
        (map ack_env (h_answers h) @ [ack_env a]) (records_of JR_GatewayAck (h_records h))"
      using assms idle by (intro channel_make) (simp add: rt_inv_defs)
    with assms popped(1) ack(2-4) ord show ?thesis
      by (intro exI [of _ "h\<lparr>h_answers := h_answers h @ [a]\<rparr>"]) (simp add: rt_inv_defs st')
  qed
qed


section \<open>Every schedule\<close>

definition md_steps :: "rt_event list \<Rightarrow> nat" where
  "md_steps evs = length (filter is_market_data evs)"

lemma rt_inv_step:
  assumes "rt_inv h st" and "rt_event_ok ev"
  shows "\<exists>h'. rt_inv h' (snd (rt_step ev st)) \<and> length (h_updates h')
    = length (h_updates h) + (if is_market_data ev \<and> rt_running st then 1 else 0)"
proof (cases ev)
  case (MarketDataStep t1 t2)
  then show ?thesis using rt_inv_market_data [OF assms(1), of t1 t2] by simp
next
  case (StrategyStep t)
  then show ?thesis using rt_inv_strategy [OF assms(1), of t] by auto
next
  case (OmsStep env)
  then show ?thesis using rt_inv_oms [OF assms(1), of env] assms(2) by auto
next
  case (GatewayStep t)
  then show ?thesis using rt_inv_gateway [OF assms(1), of t] by auto
next
  case Shutdown
  then show ?thesis using assms(1) by (intro exI [of _ h]) (simp add: rt_inv_defs)
qed

lemma rt_step_running:
  "rt_running (snd (rt_step ev st)) \<longleftrightarrow> rt_running st \<and> ev \<noteq> Shutdown"
  by (cases ev) (auto simp: market_data_thread_def strategy_thread_def oms_thread_def
      gateway_thread_def oms_thread_answer_def rt_journal_append_def Let_def split_beta
      split: option.splits oms_pc.splits)

lemma rt_inv_run:
  assumes "rt_inv h st" and "list_all rt_event_ok evs"
  shows "\<exists>h'. rt_inv h' (snd (rt_run evs st)) \<and> length (h_updates h') \<le> length (h_updates h) + md_steps evs
    \<and> (rt_running st \<and> Shutdown \<notin> set evs \<longrightarrow> rt_running (snd (rt_run evs st))
        \<and> length (h_updates h') = length (h_updates h) + md_steps evs)"
  using assms
proof (induction evs arbitrary: h st)
  case Nil
  then show ?case by (auto simp: md_steps_def)
next
  case (Cons ev evs)
  let ?st1 = "snd (rt_step ev st)"
  obtain h1 where h1: "rt_inv h1 ?st1" "length (h_updates h1)
      = length (h_updates h) + (if is_market_data ev \<and> rt_running st then 1 else 0)"
    using rt_inv_step [OF Cons.prems(1)] Cons.prems(2) by auto
  obtain h2 where h2: "rt_inv h2 (snd (rt_run evs ?st1))"
    "length (h_updates h2) \<le> length (h_updates h1) + md_steps evs"
    "rt_running ?st1 \<and> Shutdown \<notin> set evs \<longrightarrow> rt_running (snd (rt_run evs ?st1))
       \<and> length (h_updates h2) = length (h_updates h1) + md_steps evs"
    using Cons.IH [OF h1(1)] Cons.prems(2) by auto
  have "snd (rt_run (ev # evs) st) = snd (rt_run evs ?st1)"
    by (simp add: split_beta Let_def)
  with h1(2) h2 show ?case
    by (intro exI [of _ h2]) (auto simp: md_steps_def rt_step_running split: if_splits)
qed

lemma rt_run_append: "snd (rt_run (xs @ ys) st) = snd (rt_run ys (snd (rt_run xs st)))"
  by (induction xs arbitrary: st) (simp_all add: split_beta Let_def)

text \<open>What the journal on disk says of a state.\<close>

definition journaled :: "JournalRecordType \<Rightarrow> Runtime \<Rightarrow> Envelope list" where
  "journaled rt st = records_of rt (map (\<lambda>r. (jh_record_type (jr_header r), jr_envelope r))
     (fst (journal_read_all (Some (jw_file (rt_journal st))))))"

lemma rt_inv_journaled:
  assumes "rt_inv h st"
  shows "journaled JR_OrderIntent st = map new_order_env (h_orders h)"
    and "journaled JR_GatewayAck st = records_of JR_GatewayAck (h_records h)"
proof -
  have holds: "journal_holds (h_records h) (rt_journal st)" using assms by (simp add: rt_inv_defs)
  show "journaled JR_OrderIntent st = map new_order_env (h_orders h)"
    "journaled JR_GatewayAck st = records_of JR_GatewayAck (h_records h)"
    using assms by (simp_all add: journaled_def journal_holds_read [OF holds])
       (simp add: rt_inv_defs)
qed

lemma subseq_map_inj:
  assumes "subseq (map f xs) (map f ys)" and "\<And>x. g (f x) = x"
  shows "subseq xs ys"
  using subseq_map [OF assms(1), of g] by (simp add: o_def assms(2))

lemma subseq_of_map: "subseq xs (map f ys) \<Longrightarrow> \<exists>zs. xs = map f zs \<and> subseq zs ys"
proof (induction xs "map f ys" arbitrary: ys rule: list_emb.induct)
  case (list_emb_Nil zs)
  then show ?case by (intro exI [of _ "[]"]) simp
next
  case (list_emb_Cons xs zs y)
  then obtain b bs where "ys = b # bs" "zs = map f bs" by (cases ys) auto
  with list_emb_Cons show ?case by (metis list_emb.list_emb_Cons)
next
  case (list_emb_Cons2 x y xs zs)
  then obtain b bs where b: "ys = b # bs" "zs = map f bs" "y = f b" by (cases ys) auto
  with list_emb_Cons2 obtain cs where "xs = map f cs" "subseq cs bs" by blast
  with b list_emb_Cons2(1) show ?case by (intro exI [of _ "b # cs"]) auto
qed

definition sample_oms_env :: NodeEnv where
  "sample_oms_env = \<lparr>nd_now = of_nat, nd_pad = (\<lambda>_ _. 0), nd_copy_pad = (\<lambda>_ _. 0),
     nd_write_answers = (\<lambda>_. []), nd_send_answers = [], nd_recv_answers = [], nd_reply_answers = [],
     nd_can_open = True, nd_fault = (\<lambda>_. None)\<rparr>"

text \<open>
  C4.  The order manager writes ahead, under every schedule of the threads, with any clock and a
  shutdown at any moment: in every state that can be reached while the journal can be written, the
  orders the gateway was called with are journaled order intents, in the order of the journal; the
  journaled acknowledgements answer orders the gateway was called with, in that order; and the live
  orders are exactly the journaled intents, so a recovery that reads the journal knows every order
  that may be at the exchange.
\<close>

theorem threaded_write_ahead:
  assumes "list_all rt_event_ok evs" and "rt_run evs (runtime_start True []) = (es, st)"
  shows "\<exists>ords acks. journaled JR_OrderIntent st = map new_order_env ords
    \<and> subseq (rt_submitted st) ords
    \<and> journaled JR_GatewayAck st = map ack_env acks
    \<and> subseq (map ack_client_order_id acks) (map ord_client_order_id (rt_submitted st))
    \<and> om_live_orders (rt_oms st) = set (map ord_client_order_id ords)"
proof -
  obtain h where h: "rt_inv h st"
    using rt_inv_run [OF rt_inv_start assms(1)] assms(2) by auto
  have "subseq (map new_order_env (rt_submitted st)) (map new_order_env (h_orders h))"
    by (rule channel_taken [OF rt_inv_channels(3) [OF h]])
  then have "subseq (rt_submitted st) (h_orders h)"
    by (rule subseq_map_inj [where g = "\<lambda>e. the (payload_new_order (env_payload e))"]) simp
  moreover have "subseq (records_of JR_GatewayAck (h_records h)) (map ack_env (h_answers h))"
    by (rule channel_taken [OF rt_inv_channels(4) [OF h]])
  from subseq_of_map [OF this] obtain acks where
    acks: "records_of JR_GatewayAck (h_records h) = map ack_env acks" "subseq acks (h_answers h)"
    by blast
  moreover have "subseq (map ack_client_order_id acks) (map ord_client_order_id (rt_submitted st))"
    using subseq_map [OF acks(2), of ack_client_order_id] h by (simp add: rt_inv_defs)
  ultimately show ?thesis
    using h rt_inv_journaled [OF h] by (intro exI [of _ "h_orders h"] exI [of _ acks]) (simp add: rt_inv_defs)
qed


theorem threaded_write_ahead_witness:
  "case rt_run [MarketDataStep 1 2, StrategyStep 3, StrategyStep 4, OmsStep sample_oms_env,
       OmsStep sample_oms_env, Shutdown, GatewayStep 5] (runtime_start True []) of
     (es, st) \<Rightarrow> \<exists>ords. journaled JR_OrderIntent st = map new_order_env ords
       \<and> subseq (rt_submitted st) ords"
proof -
  let ?evs = "[MarketDataStep 1 2, StrategyStep 3, StrategyStep 4, OmsStep sample_oms_env,
    OmsStep sample_oms_env, Shutdown, GatewayStep 5]"
  obtain es st where run: "rt_run ?evs (runtime_start True []) = (es, st)"
    by (cases "rt_run ?evs (runtime_start True [])")
  have "list_all rt_event_ok ?evs" by (simp add: sample_oms_env_def)
  from threaded_write_ahead [OF this run] run show ?thesis by auto
qed

section \<open>No drops in the time the program runs\<close>

text \<open>
  The program runs for thirty seconds and makes an update every ten milliseconds, about 3000 in all;
  a queue has room for 16383.
\<close>

lemma channels_complete:
  assumes "rt_inv h st" and "length (h_updates h) < BUS_CAPACITY"
  shows "h_updates h = h_updates_taken h @ spsc_contents (bus_market_to_strategy (rt_bus st))"
    and "h_signals h = h_signals_taken h @ spsc_contents (bus_strategy_to_oms (rt_bus st))
      @ opt_list (rt_signal st)"
    and "map new_order_env (h_orders h) = map new_order_env (rt_submitted st)
      @ spsc_contents (bus_oms_to_gateway (rt_bus st)) @ oms_holds (rt_oms_pc st)"
    and "map ack_env (h_answers h) = records_of JR_GatewayAck (h_records h)
      @ spsc_contents (bus_gateway_to_oms (rt_bus st)) @ opt_list (rt_response st)"
    and "q_dropped (bus_market_to_strategy (rt_bus st)) = 0"
    and "q_dropped (bus_strategy_to_oms (rt_bus st)) = 0"
    and "q_dropped (bus_oms_to_gateway (rt_bus st)) = 0"
    and "q_dropped (bus_gateway_to_oms (rt_bus st)) = 0"
proof -
  note ch = rt_inv_channels [OF assms(1)]
  note c1 = channel_complete [OF ch(1) assms(2)]
  have len: "length (h_signals h) = length (h_updates_taken h)" "length (h_orders h) = length (h_signals_taken h)"
    "length (h_answers h) = length (rt_submitted st)"
    using assms(1) by (auto simp: rt_inv_defs dest: map_eq_imp_length_eq)
  have n2: "length (h_signals h) < BUS_CAPACITY"
    using len(1) assms(2) arg_cong [OF c1(1), of length] by simp
  note c2 = channel_complete [OF ch(2) n2]
  have n3: "length (map new_order_env (h_orders h)) < BUS_CAPACITY"
    using len(2) n2 arg_cong [OF c2(1), of length] by simp
  note c3 = channel_complete [OF ch(3) n3]
  have n4: "length (map ack_env (h_answers h)) < BUS_CAPACITY"
    using len(3) n3 arg_cong [OF c3(1), of length] by simp
  note c4 = channel_complete [OF ch(4) n4]
  show "h_updates h = h_updates_taken h @ spsc_contents (bus_market_to_strategy (rt_bus st))"
    using c1(1) by simp
  show "h_signals h = h_signals_taken h @ spsc_contents (bus_strategy_to_oms (rt_bus st))
      @ opt_list (rt_signal st)" by (rule c2(1))
  show "map new_order_env (h_orders h) = map new_order_env (rt_submitted st)
      @ spsc_contents (bus_oms_to_gateway (rt_bus st)) @ oms_holds (rt_oms_pc st)" by (rule c3(1))
  show "map ack_env (h_answers h) = records_of JR_GatewayAck (h_records h)
      @ spsc_contents (bus_gateway_to_oms (rt_bus st)) @ opt_list (rt_response st)" by (rule c4(1))
  show "q_dropped (bus_market_to_strategy (rt_bus st)) = 0"
    "q_dropped (bus_strategy_to_oms (rt_bus st)) = 0" "q_dropped (bus_oms_to_gateway (rt_bus st)) = 0"
    "q_dropped (bus_gateway_to_oms (rt_bus st)) = 0"
    by (rule c1(2) c2(2) c3(2) c4(2))+
qed

text \<open>
  C7.  Up to 16383 updates, under every schedule and with a shutdown at any moment, no queue refuses
  a message and none is lost: the updates made are those still waiting, the signals waiting or held,
  and the journaled orders; and the journaled orders are those the gateway was called with followed
  by those waiting or held.
\<close>

theorem threaded_no_drops:
  assumes "list_all rt_event_ok evs" and "md_steps evs < BUS_CAPACITY"
    and "rt_run evs (runtime_start True []) = (es, st)"
  shows "q_dropped (bus_market_to_strategy (rt_bus st)) = 0
    \<and> q_dropped (bus_strategy_to_oms (rt_bus st)) = 0
    \<and> q_dropped (bus_oms_to_gateway (rt_bus st)) = 0
    \<and> q_dropped (bus_gateway_to_oms (rt_bus st)) = 0
    \<and> unat (rt_md_seq st) = length (spsc_contents (bus_market_to_strategy (rt_bus st)))
        + length (spsc_contents (bus_strategy_to_oms (rt_bus st))) + length (opt_list (rt_signal st))
        + length (journaled JR_OrderIntent st)
    \<and> journaled JR_OrderIntent st = map new_order_env (rt_submitted st)
        @ spsc_contents (bus_oms_to_gateway (rt_bus st)) @ oms_holds (rt_oms_pc st)"
proof -
  obtain h where h: "rt_inv h st" "length (h_updates h) \<le> md_steps evs"
    using rt_inv_run [OF rt_inv_start assms(1)] assms(3) by (auto simp: History0_def)
  then have n: "length (h_updates h) < BUS_CAPACITY" using assms(2) by simp
  note c = channels_complete [OF h(1) n]
  have "unat (rt_md_seq st) = length (h_updates h)"
    using h(1) n by (simp add: rt_inv_defs unat_of_nat BUS_CAPACITY_def)
  moreover have "length (h_updates h) = length (h_orders h)
      + length (spsc_contents (bus_market_to_strategy (rt_bus st)))
      + length (spsc_contents (bus_strategy_to_oms (rt_bus st))) + length (opt_list (rt_signal st))"
    using arg_cong [OF c(1), of length] arg_cong [OF c(2), of length] h(1) by (simp add: rt_inv_defs)
  moreover have orders: "length (h_orders h) = length (rt_submitted st)
      + (length (spsc_contents (bus_oms_to_gateway (rt_bus st))) + length (oms_holds (rt_oms_pc st)))"
    using arg_cong [OF c(3), of length] by (simp only: length_map length_append)
  ultimately show ?thesis
    using c(3,5-8) rt_inv_journaled(1) [OF h(1)] orders by simp
qed

theorem threaded_no_drops_witness:
  "case rt_run (replicate 3000 (MarketDataStep 1 2) @ [Shutdown]) (runtime_start True []) of
     (es, st) \<Rightarrow> q_dropped (bus_market_to_strategy (rt_bus st)) = 0"
proof -
  let ?evs = "replicate 3000 (MarketDataStep 1 2) @ [Shutdown]"
  obtain es st where run: "rt_run ?evs (runtime_start True []) = (es, st)"
    by (cases "rt_run ?evs (runtime_start True [])")
  have "list_all rt_event_ok ?evs" "md_steps ?evs < BUS_CAPACITY"
    by (simp_all add: md_steps_def BUS_CAPACITY_def list_all_iff)
  from threaded_no_drops [OF this run] run show ?thesis by auto
qed


section \<open>Every update is answered\<close>

text \<open>
  The work left in a state: each message weighs the number of moves it still has to make.  No step of
  the three consuming threads adds to it, and a thread with something to do takes some away.
\<close>

definition rt_work :: "Runtime \<Rightarrow> nat" where
  "rt_work st = 8 * length (spsc_contents (bus_market_to_strategy (rt_bus st)))
     + 7 * length (opt_list (rt_signal st))
     + 6 * length (spsc_contents (bus_strategy_to_oms (rt_bus st)))
     + 5 * length (oms_holds (rt_oms_pc st))
     + 4 * length (spsc_contents (bus_oms_to_gateway (rt_bus st)))
     + 3 * length (opt_list (rt_response st))
     + 2 * length (spsc_contents (bus_gateway_to_oms (rt_bus st)))"

definition bus_ok :: "LocalBus \<Rightarrow> bool" where
  "bus_ok b \<longleftrightarrow> spsc_inv (bus_market_to_strategy b) \<and> spsc_inv (bus_strategy_to_oms b)
     \<and> spsc_inv (bus_oms_to_gateway b) \<and> spsc_inv (bus_gateway_to_oms b)"

lemma length_push:
  "spsc_inv q \<Longrightarrow> length (spsc_contents (snd (spsc_push x q))) \<le> Suc (length (spsc_contents q))"
  using spsc.contents_push [of q x] by simp

lemma length_pop:
  assumes "spsc_inv q"
  shows "fst (spsc_pop q) = Some x \<Longrightarrow>
      length (spsc_contents q) = Suc (length (spsc_contents (snd (spsc_pop q))))"
    and "fst (spsc_pop q) = None \<longleftrightarrow> spsc_contents q = []"
    and "spsc_contents q = [] \<Longrightarrow> snd (spsc_pop q) = q"
  using spsc.contents_pop [OF assms] spsc.pop_none [OF assms] spsc.pop_some [OF assms]
  by (cases "spsc_contents q"; force)+

text \<open>One step: the queues stay queues, the work does not grow, and shrinks when there is a message.\<close>

lemma strategy_work:
  assumes "bus_ok (rt_bus st)" and "rt_running st"
  shows "bus_ok (rt_bus (snd (strategy_thread t st))) \<and> rt_running (snd (strategy_thread t st))
    \<and> (if rt_signal st = None \<and> spsc_contents (bus_market_to_strategy (rt_bus st)) = []
       then snd (strategy_thread t st) = st else rt_work (snd (strategy_thread t st)) < rt_work st)"
proof (cases "rt_signal st")
  case (Some out)
  with assms length_push [of "bus_strategy_to_oms (rt_bus st)" out]
    spsc.inv_push [of "bus_strategy_to_oms (rt_bus st)" out] show ?thesis
    by (simp add: strategy_thread_def split_beta Let_def bus_ok_def rt_work_def)
next
  case None
  let ?q = "bus_market_to_strategy (rt_bus st)"
  have inv: "spsc_inv ?q" using assms(1) by (simp add: bus_ok_def)
  show ?thesis
  proof (cases "fst (spsc_pop ?q)")
    case empty: None
    with None length_pop [OF inv] assms show ?thesis
      by (cases "spsc_pop ?q") (simp add: strategy_thread_def)
  next
    case (Some e)
    then have len: "length (spsc_contents ?q) = Suc (length (spsc_contents (snd (spsc_pop ?q))))"
      and ne: "spsc_contents ?q \<noteq> []"
      using length_pop [OF inv] by auto
    let ?st' = "snd (strategy_thread t st)"
    have "rt_bus ?st' = (rt_bus st)\<lparr>bus_market_to_strategy := snd (spsc_pop ?q)\<rparr>"
      "rt_oms_pc ?st' = rt_oms_pc st" "rt_response ?st' = rt_response st" "rt_running ?st'"
      using None Some assms(2)
      by (simp_all add: strategy_thread_def split_beta Let_def split: option.split)
    moreover have "length (opt_list (rt_signal ?st')) \<le> 1" by (simp split: option.split)
    ultimately show ?thesis
      using len ne None spsc.inv_pop [OF inv] assms by (simp add: bus_ok_def rt_work_def)
  qed
qed


lemma gateway_work:
  assumes "bus_ok (rt_bus st)" and "rt_running st"
  shows "bus_ok (rt_bus (snd (gateway_thread t st))) \<and> rt_running (snd (gateway_thread t st))
    \<and> (if rt_response st = None \<and> spsc_contents (bus_oms_to_gateway (rt_bus st)) = []
       then snd (gateway_thread t st) = st else rt_work (snd (gateway_thread t st)) < rt_work st)"
proof (cases "rt_response st")
  case (Some out)
  with assms length_push [of "bus_gateway_to_oms (rt_bus st)" out]
    spsc.inv_push [of "bus_gateway_to_oms (rt_bus st)" out] show ?thesis
    by (simp add: gateway_thread_def split_beta Let_def bus_ok_def rt_work_def)
next
  case None
  let ?q = "bus_oms_to_gateway (rt_bus st)"
  have inv: "spsc_inv ?q" using assms(1) by (simp add: bus_ok_def)
  show ?thesis
  proof (cases "fst (spsc_pop ?q)")
    case empty: None
    with None length_pop [OF inv] assms show ?thesis
      by (cases "spsc_pop ?q") (simp add: gateway_thread_def)
  next
    case (Some e)
    then have len: "length (spsc_contents ?q) = Suc (length (spsc_contents (snd (spsc_pop ?q))))"
      and ne: "spsc_contents ?q \<noteq> []"
      using length_pop [OF inv] by auto
    let ?st' = "snd (gateway_thread t st)"
    have "rt_bus ?st' = (rt_bus st)\<lparr>bus_oms_to_gateway := snd (spsc_pop ?q)\<rparr>"
      "rt_oms_pc ?st' = rt_oms_pc st" "rt_signal ?st' = rt_signal st" "rt_running ?st'"
      using None Some assms(2)
      by (simp_all add: gateway_thread_def split_beta Let_def split: option.split)
    moreover have "length (opt_list (rt_response ?st')) \<le> 1" by (simp split: option.split)
    ultimately show ?thesis
      using len ne None spsc.inv_pop [OF inv] assms by (simp add: bus_ok_def rt_work_def)
  qed
qed

lemma oms_work:
  assumes "bus_ok (rt_bus st)" and "rt_running st"
  shows "bus_ok (rt_bus (snd (oms_thread env st))) \<and> rt_running (snd (oms_thread env st))
    \<and> (case rt_oms_pc st of
         OmsSend e \<Rightarrow> rt_work (snd (oms_thread env st)) < rt_work st
       | OmsSignals \<Rightarrow> if spsc_contents (bus_strategy_to_oms (rt_bus st)) = []
           then snd (oms_thread env st) = st\<lparr>rt_oms_pc := OmsAnswers\<rparr>
           else rt_work (snd (oms_thread env st)) < rt_work st
       | OmsAnswers \<Rightarrow> if spsc_contents (bus_gateway_to_oms (rt_bus st)) = []
           then snd (oms_thread env st) = st\<lparr>rt_oms_pc := OmsSignals\<rparr>
           else rt_work (snd (oms_thread env st)) < rt_work st)"
proof (cases "rt_oms_pc st")
  case (OmsSend e)
  with assms length_push [of "bus_oms_to_gateway (rt_bus st)" e]
    spsc.inv_push [of "bus_oms_to_gateway (rt_bus st)" e] show ?thesis
    by (simp add: oms_thread_def split_beta Let_def bus_ok_def rt_work_def)
next
  case OmsSignals
  let ?q = "bus_strategy_to_oms (rt_bus st)" and ?st' = "snd (oms_thread env st)"
  have inv: "spsc_inv ?q" using assms(1) by (simp add: bus_ok_def)
  show ?thesis
  proof (cases "fst (spsc_pop ?q)")
    case None
    with OmsSignals length_pop [OF inv] assms show ?thesis
      by (cases "spsc_pop ?q") (simp add: oms_thread_def)
  next
    case (Some e)
    then have len: "length (spsc_contents ?q) = Suc (length (spsc_contents (snd (spsc_pop ?q))))"
      and ne: "spsc_contents ?q \<noteq> []"
      using length_pop [OF inv] by auto
    have "rt_bus ?st' = (rt_bus st)\<lparr>bus_strategy_to_oms := snd (spsc_pop ?q)\<rparr>"
      "rt_response ?st' = rt_response st" "rt_signal ?st' = rt_signal st" "rt_running ?st'"
      using OmsSignals Some assms(2)
      by (simp_all add: oms_thread_def rt_journal_append_def split_beta Let_def split: option.split)
    moreover have "length (oms_holds (rt_oms_pc ?st')) \<le> 1" by (cases "rt_oms_pc ?st'") simp_all
    ultimately show ?thesis
      using len ne OmsSignals spsc.inv_pop [OF inv] assms by (simp add: bus_ok_def rt_work_def)
  qed
next
  case OmsAnswers
  let ?q = "bus_gateway_to_oms (rt_bus st)" and ?st' = "snd (oms_thread env st)"
  have inv: "spsc_inv ?q" using assms(1) by (simp add: bus_ok_def)
  show ?thesis
  proof (cases "fst (spsc_pop ?q)")
    case None
    with OmsAnswers length_pop [OF inv] assms show ?thesis
      by (cases "spsc_pop ?q") (simp add: oms_thread_def)
  next
    case (Some e)
    then have len: "length (spsc_contents ?q) = Suc (length (spsc_contents (snd (spsc_pop ?q))))"
      and ne: "spsc_contents ?q \<noteq> []"
      using length_pop [OF inv] by auto
    have "rt_bus ?st' = (rt_bus st)\<lparr>bus_gateway_to_oms := snd (spsc_pop ?q)\<rparr>"
      "rt_response ?st' = rt_response st" "rt_signal ?st' = rt_signal st" "rt_running ?st'"
      "rt_oms_pc ?st' = OmsSignals"
      using OmsAnswers Some assms(2)
      by (simp_all add: oms_thread_def oms_thread_answer_def rt_journal_append_def split_beta Let_def)
    with len ne OmsAnswers spsc.inv_pop [OF inv] assms show ?thesis
      by (simp add: bus_ok_def rt_work_def)
  qed
qed


text \<open>
  One round of the three threads; the order manager gets two steps, one for each of its queues.
\<close>

type_synonym rt_round = "TimestampNs \<times> NodeEnv \<times> NodeEnv \<times> TimestampNs"

fun round_steps :: "rt_round \<Rightarrow> rt_event list" where
  "round_steps (t, env, env', t') = [StrategyStep t, OmsStep env, OmsStep env', GatewayStep t']"

fun round_ok :: "rt_round \<Rightarrow> bool" where
  "round_ok (t, env, env', t') \<longleftrightarrow> nd_fault env 0 = None \<and> nd_fault env' 0 = None"

lemma oms_two_work:
  assumes "bus_ok (rt_bus st)" and "rt_running st"
    and st'_def: "st' = snd (oms_thread env' (snd (oms_thread env st)))"
  shows "bus_ok (rt_bus st') \<and> rt_running st' \<and> (rt_work st' < rt_work st
    \<or> (rt_work st' = rt_work st \<and> rt_bus st' = rt_bus st \<and> rt_response st' = rt_response st
       \<and> rt_signal st' = rt_signal st \<and> oms_holds (rt_oms_pc st) = []
       \<and> spsc_contents (bus_strategy_to_oms (rt_bus st)) = []
       \<and> spsc_contents (bus_gateway_to_oms (rt_bus st)) = []))"
proof -
  let ?st1 = "snd (oms_thread env st)"
  note one = oms_work [OF assms(1,2), of env]
  have ok: "bus_ok (rt_bus ?st1)" "rt_running ?st1" using one by simp_all
  note two = oms_work [OF ok, of env']
  have le: "rt_work st' \<le> rt_work ?st1"
    using two unfolding st'_def by (cases "rt_oms_pc ?st1") (auto simp: rt_work_def split: if_splits)
  show ?thesis
  proof (cases "rt_work ?st1 < rt_work st")
    case True
    with two le show ?thesis by (simp add: st'_def)
  next
    case False
    then show ?thesis
      using one two by (cases "rt_oms_pc st") (auto simp: st'_def rt_work_def split: if_splits)
  qed
qed

lemma round_work:
  assumes "bus_ok (rt_bus st)" and "rt_running st"
    and st'_def: "st' = snd (rt_run (round_steps r) st)"
  shows "bus_ok (rt_bus st') \<and> rt_running st' \<and> (rt_work st' < rt_work st \<or> rt_work st = 0 \<and> rt_work st' = 0)"
proof -
  obtain t env env' t' where r: "r = (t, env, env', t')" by (cases r)
  let ?a = "snd (strategy_thread t st)" and ?b = "snd (oms_thread env' (snd (oms_thread env (snd (strategy_thread t st)))))"
  have st': "st' = snd (gateway_thread t' ?b)"
    by (simp add: st'_def r split_beta Let_def)
  note a = strategy_work [OF assms(1,2), of t]
  have ok_a: "bus_ok (rt_bus ?a)" "rt_running ?a" using a by simp_all
  note b = oms_two_work [OF ok_a refl, of env' env]
  have ok_b: "bus_ok (rt_bus ?b)" "rt_running ?b" using b by simp_all
  note c = gateway_work [OF ok_b, of t']
  have le: "rt_work ?a \<le> rt_work st" "rt_work ?b \<le> rt_work ?a" "rt_work st' \<le> rt_work ?b"
    using a b c by (auto simp: st' split: if_splits)
  show ?thesis
  proof (cases "rt_work ?a < rt_work st \<or> rt_work ?b < rt_work ?a \<or> rt_work st' < rt_work ?b")
    case True
    with le c show ?thesis by (auto simp: st')
  next
    case False
    then have same: "rt_signal st = None" "spsc_contents (bus_market_to_strategy (rt_bus st)) = []" "?a = st"
      using a by (auto split: if_splits)
    have b': "rt_bus ?b = rt_bus st" "rt_response ?b = rt_response st" "oms_holds (rt_oms_pc st) = []"
      "spsc_contents (bus_strategy_to_oms (rt_bus st)) = []"
      "spsc_contents (bus_gateway_to_oms (rt_bus st)) = []"
      using False b unfolding same(3) by auto
    have "rt_response st = None" "spsc_contents (bus_oms_to_gateway (rt_bus st)) = []"
      using False c b'(1,2) by (auto simp: st' split: if_splits)
    with same(1,2) b' have "rt_work st = 0" by (simp add: rt_work_def)
    with le c show ?thesis by (simp add: st')
  qed
qed

definition drain_rounds :: "rt_round list \<Rightarrow> rt_event list" where
  "drain_rounds rounds = concat (map round_steps rounds)"

lemma rounds_work:
  assumes "bus_ok (rt_bus st)" and "rt_running st" and "rt_work st \<le> length rounds"
  shows "rt_work (snd (rt_run (drain_rounds rounds) st)) = 0"
  using assms
proof (induction rounds arbitrary: st)
  case Nil
  then show ?case by (simp add: drain_rounds_def)
next
  case (Cons r rounds)
  let ?st1 = "snd (rt_run (round_steps r) st)"
  note step = round_work [OF Cons.prems(1,2) refl, of r]
  with Cons.prems(3) have "rt_work ?st1 \<le> length rounds" by auto
  with Cons.IH [of ?st1] step show ?case
    by (simp add: drain_rounds_def rt_run_append)
qed

lemma drain_rounds_ok:
  assumes "list_all round_ok rounds"
  shows "list_all rt_event_ok (drain_rounds rounds)" and "md_steps (drain_rounds rounds) = 0"
    and "Shutdown \<notin> set (drain_rounds rounds)"
  using assms by (induction rounds) (auto simp: drain_rounds_def md_steps_def)

lemma rt_work_bound:
  assumes "rt_inv h st" and "length (h_updates h) < BUS_CAPACITY"
  shows "rt_work st \<le> 8 * length (h_updates h)"
proof -
  note c = channels_complete [OF assms]
  have len: "length (h_signals h) = length (h_updates_taken h)" "length (h_orders h) = length (h_signals_taken h)"
    "length (h_answers h) = length (rt_submitted st)"
    using assms(1) by (auto simp: rt_inv_defs dest: map_eq_imp_length_eq)
  note parts = c(1-4) [THEN arg_cong, of length, unfolded length_append length_map]
  show ?thesis unfolding rt_work_def using parts len by linarith
qed



end
