(* ===== verification/Live_Runtime.thy ===== *)
theory Live_Runtime
  imports Local_Bus Venue_Router Effects
begin

text \<open>
  apps/live_market_data_runtime.cpp: the threads of the local pipeline fed by a venue instead of made
  up updates, without a journal.  Steps and schedules are as in \<open>Threaded_Runtime\<close>; the updates are
  whatever the connector delivers.
\<close>

datatype live_oms_pc = LiveSignals | LiveSend Envelope | LiveAnswers

record LiveRuntime =
  lr_running :: bool
  lr_bus :: LocalBus
  lr_book :: TopOfBook
  lr_strategy :: StrategyEngine
  lr_signal :: "Envelope option"
  lr_oms :: OrderManager
  lr_oms_pc :: live_oms_pc
  lr_gateway :: ExchangeGateway
  lr_response :: "Envelope option"
  lr_submitted :: "NewOrder list"

definition live_runtime_book_line :: "MarketDataVenue \<Rightarrow> MarketDataUpdate \<Rightarrow> string option" where
  "live_runtime_book_line venue q = map_option (\<lambda>sym. ''book venue='' @ to_string_venue venue
     @ '' symbol='' @ sym @ '' seq='' @ show_nat (unat (md_exchange_sequence q))
     @ '' bid='' @ show_int (sint (md_bid_px q)) @ '' bid_qty='' @ show_int (sint (md_bid_qty q))
     @ '' ask='' @ show_int (sint (md_ask_px q)) @ '' ask_qty='' @ show_int (sint (md_ask_qty q)))
     (Symbol_str (md_symbol q))"

definition live_on_market_data :: "NormalizedMarketData \<Rightarrow> LiveRuntime \<Rightarrow> effect list \<times> LiveRuntime" where
  "live_on_market_data md st =
     (let u = nmd_update md; book = tob_apply u (lr_book st);
          es1 = (case tob_snapshot book of
                   None \<Rightarrow> []
                 | Some q \<Rightarrow> map Stdout (case_option [] (\<lambda>l. [l])
                     (live_runtime_book_line (nmd_venue md) q)));
          (ok, q) = spsc_push (market_data_env u) (bus_market_to_strategy (lr_bus st));
          es2 = (if ok then [] else [Log Warn ''live_md''
                   ''market_to_strategy queue full; dropped live update''])
      in (es1 @ es2,
          st\<lparr>lr_book := book, lr_bus := (lr_bus st)\<lparr>bus_market_to_strategy := q\<rparr>\<rparr>))"

definition live_strategy_thread :: "TimestampNs \<Rightarrow> LiveRuntime \<Rightarrow> effect list \<times> LiveRuntime" where
  "live_strategy_thread t st =
     (case lr_signal st of
        Some out \<Rightarrow>
          (let (ok, q) = spsc_push out (bus_strategy_to_oms (lr_bus st))
           in (if ok then [Log Info ''live_strategy'' ''generated signal from live market data'']
               else [],
               st\<lparr>lr_signal := None, lr_bus := (lr_bus st)\<lparr>bus_strategy_to_oms := q\<rparr>\<rparr>))
      | None \<Rightarrow>
          if \<not> lr_running st then ([], st)
          else let (maybe_msg, q) = spsc_pop (bus_market_to_strategy (lr_bus st));
                   st1 = st\<lparr>lr_bus := (lr_bus st)\<lparr>bus_market_to_strategy := q\<rparr>\<rparr>
               in (case (case maybe_msg of None \<Rightarrow> None
                         | Some e \<Rightarrow> if env_type e \<noteq> MT_MarketData then None
                                     else payload_market_data (env_payload e)) of
                     None \<Rightarrow> ([], st1)
                   | Some md \<Rightarrow>
                       (let (maybe_signal, strategy) = strategy_on_market_data t md (lr_strategy st1)
                        in ([], st1\<lparr>lr_strategy := strategy,
                                   lr_signal := map_option signal_env maybe_signal\<rparr>))))"

text \<open>
  The type of a popped signal is not looked at; \<open>None\<close> of the accessor would be a read of the wrong
  union member, which no reachable state does.  The result of the push is not looked at either.
\<close>

definition live_oms_thread ::
  "TimestampNs \<Rightarrow> TimestampNs \<Rightarrow> LiveRuntime \<Rightarrow> effect list \<times> LiveRuntime" where
  "live_oms_thread t1 t2 st =
     (case lr_oms_pc st of
        LiveSignals \<Rightarrow>
          if \<not> lr_running st then ([], st)
          else let (maybe_signal, q) = spsc_pop (bus_strategy_to_oms (lr_bus st));
                   st1 = st\<lparr>lr_oms_pc := LiveAnswers,
                            lr_bus := (lr_bus st)\<lparr>bus_strategy_to_oms := q\<rparr>\<rparr>
               in (case (case maybe_signal of None \<Rightarrow> None
                         | Some e \<Rightarrow> payload_signal (env_payload e)) of
                     None \<Rightarrow> ([], st1)
                   | Some signal \<Rightarrow>
                       (let (maybe_order, oms) = oms_on_signal t1 t2 signal (lr_oms st1);
                            st2 = st1\<lparr>lr_oms := oms\<rparr>
                        in case maybe_order of
                          None \<Rightarrow> ([], st2)
                        | Some order \<Rightarrow>
                            if env_type order = MT_NewOrder
                            then ([], st2\<lparr>lr_oms_pc := LiveSend order\<rparr>) else ([], st2)))
      | LiveSend order \<Rightarrow>
          (let (_, q) = spsc_push order (bus_oms_to_gateway (lr_bus st))
           in ([Log Info ''live_oms'' ''created risk-checked order''],
               st\<lparr>lr_oms_pc := LiveAnswers, lr_bus := (lr_bus st)\<lparr>bus_oms_to_gateway := q\<rparr>\<rparr>))
      | LiveAnswers \<Rightarrow>
          (let (maybe_gateway, q) = spsc_pop (bus_gateway_to_oms (lr_bus st));
               st1 = st\<lparr>lr_oms_pc := LiveSignals, lr_bus := (lr_bus st)\<lparr>bus_gateway_to_oms := q\<rparr>\<rparr>
           in case maybe_gateway of
             None \<Rightarrow> ([], st1)
           | Some e \<Rightarrow>
               (if env_type e = MT_Ack then [Log Info ''live_oms'' ''processed simulated gateway ack'']
                else if env_type e = MT_Reject
                then [Log Warn ''live_oms'' ''processed simulated gateway reject''] else [],
                st1\<lparr>lr_oms := oms_absorb e (lr_oms st1)\<rparr>)))"

definition live_gateway_thread :: "TimestampNs \<Rightarrow> LiveRuntime \<Rightarrow> effect list \<times> LiveRuntime" where
  "live_gateway_thread t st =
     (case lr_response st of
        Some response \<Rightarrow>
          (let (_, q) = spsc_push response (bus_gateway_to_oms (lr_bus st))
           in ([Log Info ''live_gateway'' ''simulated gateway accepted order''],
               st\<lparr>lr_response := None, lr_bus := (lr_bus st)\<lparr>bus_gateway_to_oms := q\<rparr>\<rparr>))
      | None \<Rightarrow>
          if \<not> lr_running st then ([], st)
          else let (maybe_order, q) = spsc_pop (bus_oms_to_gateway (lr_bus st));
                   st1 = st\<lparr>lr_bus := (lr_bus st)\<lparr>bus_oms_to_gateway := q\<rparr>\<rparr>
               in (case (case maybe_order of None \<Rightarrow> None
                         | Some e \<Rightarrow> if env_type e \<noteq> MT_NewOrder then None
                                     else payload_new_order (env_payload e)) of
                     None \<Rightarrow> ([], st1)
                   | Some ord \<Rightarrow>
                       (let (maybe_response, gateway) = gateway_send_order t ord (lr_gateway st1)
                        in ([], st1\<lparr>lr_gateway := gateway, lr_response := maybe_response,
                                   lr_submitted := lr_submitted st1 @ [ord]\<rparr>))))"

datatype live_event =
    LiveUpdate NormalizedMarketData
  | LiveStrategyStep TimestampNs
  | LiveOmsStep TimestampNs TimestampNs
  | LiveGatewayStep TimestampNs
  | LiveShutdown

fun live_runtime_step :: "live_event \<Rightarrow> LiveRuntime \<Rightarrow> effect list \<times> LiveRuntime" where
  "live_runtime_step (LiveUpdate md) st = live_on_market_data md st"
| "live_runtime_step (LiveStrategyStep t) st = live_strategy_thread t st"
| "live_runtime_step (LiveOmsStep t1 t2) st = live_oms_thread t1 t2 st"
| "live_runtime_step (LiveGatewayStep t) st = live_gateway_thread t st"
| "live_runtime_step LiveShutdown st = ([], st\<lparr>lr_running := False\<rparr>)"

fun live_runtime_run :: "live_event list \<Rightarrow> LiveRuntime \<Rightarrow> effect list \<times> LiveRuntime" where
  "live_runtime_run [] st = ([], st)"
| "live_runtime_run (ev # evs) st =
     (let (es, st1) = live_runtime_step ev st; (fs, st2) = live_runtime_run evs st1 in (es @ fs, st2))"

definition live_runtime_limits :: RiskLimits where
  "live_runtime_limits = \<lparr>lim_max_position = 10, lim_max_order_qty = 2, lim_max_notional = 10000000\<rparr>"

definition live_runtime_start :: LiveRuntime where
  "live_runtime_start =
     \<lparr>lr_running = True, lr_bus = LocalBus0, lr_book = TopOfBook0, lr_strategy = strategy_new 2,
      lr_signal = None, lr_oms = oms_new 3 live_runtime_limits, lr_oms_pc = LiveSignals,
      lr_gateway = gateway_new 4, lr_response = None, lr_submitted = []\<rparr>"

section \<open>Nothing reaches the gateway unchecked\<close>

text \<open>\<open>us\<close> are the updates the venue delivers during the run.\<close>

definition live_updates :: "live_event list \<Rightarrow> MarketDataUpdate list" where
  "live_updates evs = List.map_filter (\<lambda>ev. case ev of LiveUpdate md \<Rightarrow> Some (nmd_update md) | _ \<Rightarrow> None) evs"

definition quoted :: "MarketDataUpdate set \<Rightarrow> SymbolId \<Rightarrow> Price \<Rightarrow> bool" where
  "quoted us sid px \<longleftrightarrow> (\<exists>q\<in>us. wide_quote q \<and> md_symbol_id q = sid \<and> md_bid_px q + 1 = px)"

definition quoted_signal :: "MarketDataUpdate set \<Rightarrow> Signal \<Rightarrow> bool" where
  "quoted_signal us s \<longleftrightarrow> sig_side s = Buy \<and> sig_qty s = 1 \<and> quoted us (sig_symbol_id s) (sig_limit_px s)"

definition quoted_order :: "MarketDataUpdate set \<Rightarrow> NewOrder \<Rightarrow> bool" where
  "quoted_order us ord \<longleftrightarrow> risk_check (risk_new live_runtime_limits) ord = RR_None
     \<and> ord_side ord = Buy \<and> ord_qty ord = 1 \<and> quoted us (ord_symbol_id ord) (ord_limit_px ord)"

definition is_market_data_of :: "MarketDataUpdate set \<Rightarrow> Envelope \<Rightarrow> bool" where
  "is_market_data_of us e \<longleftrightarrow> (\<exists>u\<in>us. e = market_data_env u)"

definition is_signal_of :: "MarketDataUpdate set \<Rightarrow> Envelope \<Rightarrow> bool" where
  "is_signal_of us e \<longleftrightarrow> (\<exists>s. e = signal_env s \<and> quoted_signal us s)"

definition is_order_of :: "MarketDataUpdate set \<Rightarrow> Envelope \<Rightarrow> bool" where
  "is_order_of us e \<longleftrightarrow> (\<exists>ord. e = new_order_env ord \<and> quoted_order us ord)"

definition is_answer_env :: "Envelope \<Rightarrow> bool" where
  "is_answer_env e \<longleftrightarrow> (\<exists>a. e = ack_env a) \<or> (\<exists>r. e = reject_env r)"

lemma gateway_answers: "\<exists>e g'. gateway_send_order t ord g = (Some e, g') \<and> is_answer_env e"
  by (auto simp: gateway_send_order_def is_answer_env_def Let_def)

definition queue_all :: "('a \<Rightarrow> bool) \<Rightarrow> 'a SpscQueue \<Rightarrow> bool" where
  "queue_all P q \<longleftrightarrow> spsc_inv q \<and> list_all P (spsc_contents q)"

lemma queue_all_push: "queue_all P q \<Longrightarrow> P x \<Longrightarrow> queue_all P (snd (spsc_push x q))"
  using spsc.contents_push [of q x] spsc.inv_push [of q x] by (simp add: queue_all_def)

lemma queue_all_pop:
  assumes "queue_all P q"
  shows "queue_all P (snd (spsc_pop q))" and "fst (spsc_pop q) = Some x \<Longrightarrow> P x"
proof -
  have inv: "spsc_inv q" using assms by (simp add: queue_all_def)
  have all: "list_all P ((case fst (spsc_pop q) of None \<Rightarrow> [] | Some x \<Rightarrow> [x])
      @ spsc_contents (snd (spsc_pop q)))"
    unfolding spsc.contents_pop [OF inv] using assms by (simp add: queue_all_def)
  from all show "queue_all P (snd (spsc_pop q))"
    using spsc.inv_pop [OF inv] by (simp add: queue_all_def)
  show "P x" if "fst (spsc_pop q) = Some x"
    using all that by simp
qed

definition lr_inv :: "MarketDataUpdate set \<Rightarrow> LiveRuntime \<Rightarrow> bool" where
  "lr_inv us st \<longleftrightarrow> queue_all (is_market_data_of us) (bus_market_to_strategy (lr_bus st))
     \<and> queue_all (is_signal_of us) (bus_strategy_to_oms (lr_bus st))
     \<and> queue_all (is_order_of us) (bus_oms_to_gateway (lr_bus st))
     \<and> queue_all is_answer_env (bus_gateway_to_oms (lr_bus st))
     \<and> (\<forall>e. lr_signal st = Some e \<longrightarrow> is_signal_of us e)
     \<and> (\<forall>e. lr_oms_pc st = LiveSend e \<longrightarrow> is_order_of us e)
     \<and> (\<forall>e. lr_response st = Some e \<longrightarrow> is_answer_env e)
     \<and> list_all (quoted_order us) (lr_submitted st)
     \<and> (tob_has_value (str_book (lr_strategy st)) \<longrightarrow> tob_last (str_book (lr_strategy st)) \<in> us)
     \<and> om_risk (lr_oms st) = risk_new live_runtime_limits"

lemma oms_absorb_risk: "om_risk (oms_absorb e om) = om_risk om"
  by (simp add: oms_absorb_def oms_on_gateway_ack_def oms_on_gateway_reject_def
      split: option.split Payload.split)

lemma live_oms_checked:
  assumes "om_risk om = risk_new live_runtime_limits" and "quoted_signal us s"
  obtains e om' where "oms_on_signal t1 t2 s om = (Some e, om')"
    and "env_type e = MT_NewOrder \<longrightarrow> is_order_of us e" and "om_risk om' = risk_new live_runtime_limits"
proof (cases rule: oms_on_signal_cases [of om t1 s t2])
  case (accepted ord)
  with assms have "is_order_of us (new_order_env ord)"
    by (auto simp: is_order_of_def quoted_order_def quoted_signal_def oms_make_order_def)
  with that [of "new_order_env ord"] accepted(3) assms show ?thesis by simp
next
  case (rejected r)
  with that [of "reject_env r"] assms show ?thesis by simp
qed

lemma lr_inv_market_data:
  "lr_inv us st \<Longrightarrow> nmd_update md \<in> us \<Longrightarrow> lr_inv us (snd (live_on_market_data md st))"
  by (simp add: lr_inv_def is_market_data_of_def live_on_market_data_def queue_all_push split_beta Let_def)

lemma lr_inv_strategy:
  assumes "lr_inv us st"
  shows "lr_inv us (snd (live_strategy_thread t st))"
proof (cases "lr_signal st")
  case (Some out)
  with assms show ?thesis
    by (simp add: lr_inv_def live_strategy_thread_def queue_all_push split_beta Let_def)
next
  case None
  let ?q = "bus_market_to_strategy (lr_bus st)"
  have q: "queue_all (is_market_data_of us) ?q" using assms by (simp add: lr_inv_def)
  show ?thesis
  proof (cases "lr_running st \<and> fst (spsc_pop ?q) \<noteq> None")
    case False
    with None assms queue_all_pop(1) [OF q] show ?thesis
      by (auto simp: live_strategy_thread_def lr_inv_def split_beta Let_def)
  next
    case True
    then obtain e where e: "fst (spsc_pop ?q) = Some e" by auto
    from queue_all_pop(2) [OF q e] obtain u where u: "e = market_data_env u" "u \<in> us"
      by (auto simp: is_market_data_of_def)
    have view: "strategy_view u (lr_strategy st) \<in> us"
      using assms u(2) by (auto simp: strategy_view_def tob_apply_def lr_inv_def)
    have kept: "tob_last (tob_apply u (str_book (lr_strategy st))) \<in> us"
      using view by (simp add: strategy_view_def)
    show ?thesis
    proof (cases rule: strategy_cases [of u "lr_strategy st" t])
      case narrow
      with True e u None assms kept queue_all_pop(1) [OF q] show ?thesis
        by (auto simp: live_strategy_thread_def lr_inv_def split_beta Let_def)
    next
      case (wide s)
      have "is_signal_of us (signal_env s)"
        using wide view by (auto simp: is_signal_of_def quoted_signal_def quoted_def)
      with True e u None assms kept wide(2) queue_all_pop(1) [OF q] show ?thesis
        by (auto simp: live_strategy_thread_def lr_inv_def split_beta Let_def)
    qed
  qed
qed

lemma lr_inv_oms:
  assumes "lr_inv us st"
  shows "lr_inv us (snd (live_oms_thread t1 t2 st))"
proof (cases "lr_oms_pc st")
  case LiveSignals
  let ?q = "bus_strategy_to_oms (lr_bus st)"
  have q: "queue_all (is_signal_of us) ?q" using assms by (simp add: lr_inv_def)
  have risk: "om_risk (lr_oms st) = risk_new live_runtime_limits" using assms by (simp add: lr_inv_def)
  show ?thesis
  proof (cases "lr_running st \<and> fst (spsc_pop ?q) \<noteq> None")
    case False
    with LiveSignals assms queue_all_pop(1) [OF q] show ?thesis
      by (auto simp: live_oms_thread_def lr_inv_def split_beta Let_def)
  next
    case True
    then obtain e where e: "fst (spsc_pop ?q) = Some e" by auto
    from queue_all_pop(2) [OF q e] obtain s where s: "e = signal_env s" "quoted_signal us s"
      by (auto simp: is_signal_of_def)
    obtain e' om' where "oms_on_signal t1 t2 s (lr_oms st) = (Some e', om')"
      "env_type e' = MT_NewOrder \<longrightarrow> is_order_of us e'" "om_risk om' = risk_new live_runtime_limits"
      by (rule live_oms_checked [OF risk s(2), of "t1" "t2"])
    with True e s(1) LiveSignals assms queue_all_pop(1) [OF q] show ?thesis
      by (auto simp: live_oms_thread_def lr_inv_def split_beta Let_def)
  qed
next
  case (LiveSend e)
  with assms show ?thesis
    by (simp add: lr_inv_def live_oms_thread_def queue_all_push split_beta Let_def)
next
  case LiveAnswers
  with assms queue_all_pop(1) [of is_answer_env "bus_gateway_to_oms (lr_bus st)"] show ?thesis
    by (simp add: lr_inv_def live_oms_thread_def oms_absorb_risk split_beta Let_def
        split: option.split)
qed

lemma lr_inv_gateway:
  assumes "lr_inv us st"
  shows "lr_inv us (snd (live_gateway_thread t st))"
proof (cases "lr_response st")
  case (Some out)
  with assms show ?thesis
    by (simp add: lr_inv_def live_gateway_thread_def queue_all_push split_beta Let_def)
next
  case None
  let ?q = "bus_oms_to_gateway (lr_bus st)"
  have q: "queue_all (is_order_of us) ?q" using assms by (simp add: lr_inv_def)
  show ?thesis
  proof (cases "lr_running st \<and> fst (spsc_pop ?q) \<noteq> None")
    case False
    with None assms queue_all_pop(1) [OF q] show ?thesis
      by (auto simp: live_gateway_thread_def lr_inv_def split_beta Let_def)
  next
    case True
    then obtain e where e: "fst (spsc_pop ?q) = Some e" by auto
    obtain ord where ord: "e = new_order_env ord" "quoted_order us ord"
      using queue_all_pop(2) [OF q e] by (auto simp: is_order_of_def)
    obtain a g' where "gateway_send_order t ord (lr_gateway st) = (Some a, g')" "is_answer_env a"
      using gateway_answers by blast
    with e ord queue_all_pop(1) [OF q] True None assms show ?thesis
      by (auto simp: live_gateway_thread_def lr_inv_def split_beta Let_def)
  qed
qed

lemma lr_inv_start: "lr_inv us live_runtime_start"
  using bus_capacity
  by (simp add: lr_inv_def live_runtime_start_def LocalBus0_def queue_all_def spsc_new_inv
      spsc_new_contents oms_new_def strategy_new_def TopOfBook0_def)

lemma live_updates_simps [simp]:
  "live_updates [] = []"
  "live_updates (LiveUpdate md # evs) = nmd_update md # live_updates evs"
  "live_updates (LiveStrategyStep t # evs) = live_updates evs"
  "live_updates (LiveOmsStep t1 t2 # evs) = live_updates evs"
  "live_updates (LiveGatewayStep t # evs) = live_updates evs"
  "live_updates (LiveShutdown # evs) = live_updates evs"
  by (simp_all add: live_updates_def map_filter_simps)

lemma lr_inv_step:
  "lr_inv us st \<Longrightarrow> set (live_updates [ev]) \<subseteq> us \<Longrightarrow> lr_inv us (snd (live_runtime_step ev st))"
  by (cases ev) (simp_all add: lr_inv_market_data lr_inv_strategy lr_inv_oms lr_inv_gateway,
      simp add: lr_inv_def)

lemma lr_inv_run:
  "lr_inv us st \<Longrightarrow> set (live_updates evs) \<subseteq> us \<Longrightarrow> lr_inv us (snd (live_runtime_run evs st))"
proof (induction evs arbitrary: st)
  case (Cons ev evs)
  from Cons.prems(2) have "set (live_updates [ev]) \<subseteq> us" "set (live_updates evs) \<subseteq> us"
    by (cases ev; simp)+
  with Cons lr_inv_step [of us st ev] show ?case by (simp add: split_beta Let_def)
qed simp

text \<open>
  C10.  The live runtime reads no message as something it is not and sends no unchecked or unquoted
  order: whatever a venue delivers and however the threads are scheduled, the four queues hold market
  data, signals, orders, and acknowledgements or rejects, each with the type its payload has (the
  order manager reads signals without looking at the type); and every order the gateway is called with
  buys one lot a tick above the bid of a quote the venue delivered that is at least four ticks wide,
  and passes the risk check, from a flat position, with the limits of the program.
\<close>

theorem live_runtime_typed:
  "(case snd (live_runtime_run evs live_runtime_start) of st \<Rightarrow>
     (\<exists>us. spsc_contents (bus_market_to_strategy (lr_bus st)) = map market_data_env us)
     \<and> (\<exists>ss. spsc_contents (bus_strategy_to_oms (lr_bus st)) = map signal_env ss)
     \<and> (\<exists>ords. spsc_contents (bus_oms_to_gateway (lr_bus st)) = map new_order_env ords)
     \<and> list_all is_answer_env (spsc_contents (bus_gateway_to_oms (lr_bus st)))
     \<and> list_all (quoted_order (set (live_updates evs))) (lr_submitted st))"
proof -
  have map: "\<exists>ys. xs = map f ys" if "list_all P xs" "\<And>e. P e \<Longrightarrow> \<exists>y. e = f y"
    for xs :: "Envelope list" and P and f :: "'x \<Rightarrow> Envelope"
    using that by (auto simp: ex_map_conv list_all_iff)
  show ?thesis
    using lr_inv_run [OF lr_inv_start, of evs "set (live_updates evs)"]
    by (auto simp: lr_inv_def queue_all_def is_market_data_of_def is_signal_of_def is_order_of_def
        intro!: map)
qed

end
