(* ===== verification/Kraken_Gateway.thy ===== *)
theory Kraken_Gateway
  imports Market_Data_Adapter Distributed_Nodes "HOL-Library.Signed_Division"
begin

text \<open>
  Order entry at the Kraken futures demo exchange: src/kraken_futures_demo_gateway.cpp, the POST of
  src/https_client.cpp it goes through, and apps/kraken_futures_demo_order.cpp.  OpenSSL's digests and
  base64 and what happens on the network are arguments; time stamps are the milliseconds the clock
  shows at each of the two readings.
\<close>

section \<open>Texts\<close>

definition url_unreserved :: "char \<Rightarrow> bool" where
  "url_unreserved c \<longleftrightarrow> (let n = (of_char c :: nat) in
     (65 \<le> n \<and> n \<le> 90) \<or> (97 \<le> n \<and> n \<le> 122) \<or> (48 \<le> n \<and> n \<le> 57)
     \<or> c = CHR ''-'' \<or> c = CHR ''_'' \<or> c = CHR ''.'' \<or> c = CHR ''~'')"

definition hex_digit :: "nat \<Rightarrow> char" where
  "hex_digit d = (if d < 10 then char_of (48 + d) else char_of (55 + d))"

definition url_encode_char :: "char \<Rightarrow> string" where
  "url_encode_char c =
     (if url_unreserved c then [c]
      else [CHR ''%'', hex_digit (of_char c div 16), hex_digit (of_char c mod 16)])"

definition url_encode :: "string \<Rightarrow> string" where
  "url_encode s = concat (map url_encode_char s)"

definition side_to_kraken :: "Side \<Rightarrow> string" where
  "side_to_kraken side = (if side = Buy then ''buy'' else ''sell'')"

text \<open>\<open>std::setw(2) << std::setfill('0')\<close>.\<close>

definition pad2 :: "string \<Rightarrow> string" where
  "pad2 s = replicate (2 - length s) (CHR ''0'') @ s"

definition ticks_to_price_string :: "Price \<Rightarrow> string" where
  "ticks_to_price_string ticks =
     show_int (sint ticks sdiv 100) @ ''.'' @ pad2 (show_nat (nat \<bar>sint ticks smod 100\<bar>))"

section \<open>The HTTPS client\<close>

record HttpResponse =
  http_status_code :: int
  http_body :: string

definition HttpResponse0 :: HttpResponse where
  "HttpResponse0 = \<lparr>http_status_code = 0, http_body = []\<rparr>"

datatype http_verb = HttpGet | HttpPost

record HttpRequest =
  rq_verb :: http_verb
  rq_host :: string
  rq_port :: string
  rq_target :: string
  rq_fields :: "(string \<times> string) list"
  rq_body :: string

text \<open>
  What the network makes of a request: the host name could not be set for TLS, an exception from
  resolving, connecting, the handshake, writing or reading, or a response.
\<close>

datatype net_answer = SniFailed | NetException string | NetResponse HttpResponse

type_synonym 'n network = "HttpRequest \<Rightarrow> 'n \<Rightarrow> net_answer \<times> 'n"

text \<open>
  The header fields of a request are the calls that set them, in order; a caller's headers come in the
  order of their names, as a \<open>std::map\<close> iterates.
\<close>

definition http_exchange :: "'n network \<Rightarrow> HttpRequest \<Rightarrow> 'n \<Rightarrow> HttpResponse \<times> effect list \<times> 'n" where
  "http_exchange net rq n =
     (case net rq n of
        (SniFailed, n') \<Rightarrow>
          (HttpResponse0, [Log Error ''https_client'' ''failed to set SNI hostname''], n')
      | (NetException what, n') \<Rightarrow> (HttpResponse0, [Log Error ''https_client'' what], n')
      | (NetResponse response, n') \<Rightarrow> (response, [], n'))"

definition post_form ::
  "'n network \<Rightarrow> string \<Rightarrow> string \<Rightarrow> string \<Rightarrow> string \<Rightarrow> (string \<times> string) list \<Rightarrow> 'n
   \<Rightarrow> HttpResponse \<times> effect list \<times> 'n" where
  "post_form net host port target body headers =
     http_exchange net \<lparr>rq_verb = HttpPost, rq_host = host, rq_port = port, rq_target = target,
         rq_fields = [(''Host'', host), (''User-Agent'', ''llt-kraken-futures-demo-gateway''),
           (''Content-Type'', ''application/x-www-form-urlencoded'')] @ headers,
         rq_body = body\<rparr>"

text \<open>Nothing calls \<open>HttpsClient::get\<close>.\<close>

definition https_get ::
  "'n network \<Rightarrow> string \<Rightarrow> string \<Rightarrow> string \<Rightarrow> (string \<times> string) list \<Rightarrow> 'n
   \<Rightarrow> HttpResponse \<times> effect list \<times> 'n" where
  "https_get net host port target headers =
     http_exchange net \<lparr>rq_verb = HttpGet, rq_host = host, rq_port = port, rq_target = target,
         rq_fields = [(''Host'', host), (''User-Agent'', ''llt-kraken-futures-demo-gateway'')] @ headers,
         rq_body = []\<rparr>"

section \<open>The gateway\<close>

record KrakenDemoCredentials =
  kc_api_key :: string
  kc_api_secret_base64 :: string

record KrakenDemoOrderRequest =
  kr_symbol :: string
  kr_side :: string
  kr_order_type :: string
  kr_size :: string
  kr_limit_price :: string
  kr_cli_ord_id :: string

definition KrakenDemoOrderRequest0 :: KrakenDemoOrderRequest where
  "KrakenDemoOrderRequest0 = \<lparr>kr_symbol = ''PI_XBTUSD'', kr_side = ''buy'', kr_order_type = ''lmt'',
     kr_size = ''1'', kr_limit_price = ''1000'', kr_cli_ord_id = []\<rparr>"

record KrakenDemoOrderResult =
  ko_transport_ok :: bool
  ko_http_status :: int
  ko_kraken_success :: bool
  ko_raw_response :: string

definition KRAKEN_DEMO_HOST :: string where "KRAKEN_DEMO_HOST = ''demo-futures.kraken.com''"
definition KRAKEN_DEMO_PORT :: string where "KRAKEN_DEMO_PORT = ''443''"

definition SEND_ORDER_ENDPOINT :: string where
  "SEND_ORDER_ENDPOINT = ''/derivatives/api/v3/sendorder''"

text \<open>
  The OpenSSL functions.  \<open>os_base64_read\<close> is \<open>BIO_read\<close> from a base64 filter over a text, into a buffer
  as long as the text: its result and what it wrote.  \<open>os_base64_write\<close> is what a memory \<open>BIO\<close> holds
  once the bytes went through the filter.
\<close>

record openssl =
  os_sha256 :: "string \<Rightarrow> string"
  os_hmac_sha512 :: "string \<Rightarrow> string \<Rightarrow> string"
  os_base64_read :: "string \<Rightarrow> int \<times> string"
  os_base64_write :: "string \<Rightarrow> string"

definition base64_decode :: "openssl \<Rightarrow> string \<Rightarrow> string" where
  "base64_decode ssl input =
     (let (len, out) = os_base64_read ssl input
      in if len \<le> 0 then [] else take (nat len) out)"

definition base64_encode :: "openssl \<Rightarrow> string \<Rightarrow> string" where
  "base64_encode ssl data = os_base64_write ssl data"

text \<open>The time since the epoch in milliseconds is the argument.\<close>

definition current_time_millis_string :: "int \<Rightarrow> string" where
  "current_time_millis_string ms = show_int ms"

definition kraken_futures_authent ::
  "openssl \<Rightarrow> string \<Rightarrow> string \<Rightarrow> string \<Rightarrow> string \<Rightarrow> string \<times> effect list" where
  "kraken_futures_authent ssl post_data nonce endpoint_path api_secret_base64 =
     (let message = post_data @ nonce @ endpoint_path;
          sha256_digest = os_sha256 ssl message;
          decoded_secret = base64_decode ssl api_secret_base64
      in if decoded_secret = []
         then ([], [Log Error ''kraken_demo'' ''failed to base64-decode API secret''])
         else (base64_encode ssl (os_hmac_sha512 ssl decoded_secret sha256_digest), []))"

definition kraken_post_data :: "KrakenDemoOrderRequest \<Rightarrow> string" where
  "kraken_post_data order =
     ''orderType='' @ url_encode (kr_order_type order) @ ''&symbol='' @ url_encode (kr_symbol order)
     @ ''&side='' @ url_encode (kr_side order) @ ''&size='' @ url_encode (kr_size order)
     @ ''&limitPrice='' @ url_encode (kr_limit_price order)
     @ (if kr_cli_ord_id order \<noteq> [] then ''&cliOrdId='' @ url_encode (kr_cli_ord_id order) else [])"

definition kraken_success_body :: "string \<Rightarrow> bool" where
  "kraken_success_body body \<longleftrightarrow>
     find_from (quoted ''result'' @ '':'' @ quoted ''success'') 0 body \<noteq> None
     \<or> find_from (quoted ''result'' @ '': '' @ quoted ''success'') 0 body \<noteq> None"

definition send_limit_order ::
  "openssl \<Rightarrow> 'n network \<Rightarrow> KrakenDemoCredentials \<Rightarrow> int \<Rightarrow> KrakenDemoOrderRequest \<Rightarrow> 'n
   \<Rightarrow> KrakenDemoOrderResult \<times> effect list \<times> 'n" where
  "send_limit_order ssl net creds now_ms order n =
     (let nonce = current_time_millis_string now_ms; post_data = kraken_post_data order;
          (authent, es) = kraken_futures_authent ssl post_data nonce SEND_ORDER_ENDPOINT
             (kc_api_secret_base64 creds)
      in if authent = []
         then (\<lparr>ko_transport_ok = False, ko_http_status = 0, ko_kraken_success = False,
                ko_raw_response = ''authent generation failed''\<rparr>, es, n)
         else
           let (response, fs, n') = post_form net KRAKEN_DEMO_HOST KRAKEN_DEMO_PORT
                 SEND_ORDER_ENDPOINT post_data
                 [(''APIKey'', kc_api_key creds), (''Authent'', authent), (''Nonce'', nonce)] n;
               status = http_status_code response
           in (\<lparr>ko_transport_ok = (200 \<le> status \<and> status < 300), ko_http_status = status,
                ko_kraken_success = kraken_success_body (http_body response),
                ko_raw_response = http_body response\<rparr>, es @ fs, n'))"

definition kraken_order_request :: "int \<Rightarrow> NewOrder \<Rightarrow> string \<Rightarrow> KrakenDemoOrderRequest" where
  "kraken_order_request now_ms ord kraken_symbol =
     KrakenDemoOrderRequest0\<lparr>kr_symbol := kraken_symbol, kr_side := side_to_kraken (ord_side ord),
       kr_order_type := ''lmt'', kr_size := ''1'',
       kr_limit_price := ticks_to_price_string (ord_limit_px ord),
       kr_cli_ord_id := ''llt-'' @ show_nat (unat (ord_client_order_id ord)) @ ''-'' @ current_time_millis_string now_ms\<rparr>"

definition send_internal_order_as_demo_limit ::
  "openssl \<Rightarrow> 'n network \<Rightarrow> KrakenDemoCredentials \<Rightarrow> int \<Rightarrow> int \<Rightarrow> NewOrder \<Rightarrow> string \<Rightarrow> 'n
   \<Rightarrow> KrakenDemoOrderResult \<times> effect list \<times> 'n" where
  "send_internal_order_as_demo_limit ssl net creds now_ms now_ms' ord kraken_symbol n =
     send_limit_order ssl net creds now_ms' (kraken_order_request now_ms ord kraken_symbol) n"

definition load_kraken_demo_credentials_from_env ::
  "(string \<Rightarrow> string option) \<Rightarrow> KrakenDemoCredentials option \<times> effect list" where
  "load_kraken_demo_credentials_from_env getenv =
     (case (getenv ''KRAKEN_FUTURES_DEMO_API_KEY'', getenv ''KRAKEN_FUTURES_DEMO_API_SECRET'') of
        (Some key, Some secret) \<Rightarrow> (Some \<lparr>kc_api_key = key, kc_api_secret_base64 = secret\<rparr>, [])
      | _ \<Rightarrow> (None, [Log Error ''kraken_demo''
          ''missing KRAKEN_FUTURES_DEMO_API_KEY or KRAKEN_FUTURES_DEMO_API_SECRET'']))"

text \<open>The demo program.\<close>

definition kraken_demo_order_main ::
  "(string \<Rightarrow> string option) \<Rightarrow> openssl \<Rightarrow> 'n network \<Rightarrow> int \<Rightarrow> int \<Rightarrow> 'n \<Rightarrow> nat \<times> effect list" where
  "kraken_demo_order_main getenv ssl net now_ms now_ms' n =
     (let start = Log Info ''kraken_demo_app'' ''starting Kraken Futures demo order test''
      in case load_kraken_demo_credentials_from_env getenv of
        (None, es) \<Rightarrow> (1, start # es @ map Stderr [''Missing credentials.'', ''Set:'',
            ''  export KRAKEN_FUTURES_DEMO_API_KEY='' @ quoted ''...'',
            ''  export KRAKEN_FUTURES_DEMO_API_SECRET='' @ quoted ''...''])
      | (Some creds, es) \<Rightarrow>
          let req = KrakenDemoOrderRequest0\<lparr>kr_symbol := ''PI_XBTUSD'', kr_side := ''buy'',
                      kr_order_type := ''lmt'', kr_size := ''1'', kr_limit_price := ''1000'',
                      kr_cli_ord_id := ''llt-demo-'' @ current_time_millis_string now_ms\<rparr>;
              (result, fs, _) = send_limit_order ssl net creds now_ms' req n
          in (if ko_kraken_success result then 0 else 1,
              [start] @ es @ fs @ map Stdout [''http_status='' @ show_int (ko_http_status result),
                ''transport_ok='' @ bool_text (ko_transport_ok result),
                ''kraken_success='' @ bool_text (ko_kraken_success result),
                ''raw_response='' @ ko_raw_response result]
              @ [if ko_kraken_success result
                 then Log Info ''kraken_demo_app'' ''Kraken Futures demo order submitted successfully''
                 else Log Error ''kraken_demo_app'' ''Kraken Futures demo order submission failed'']))"

section \<open>The form body read back\<close>

text \<open>A reader of form bodies: fields at \<open>&\<close>, name and value at the first \<open>=\<close>, percent decoding.\<close>

fun split_on :: "char \<Rightarrow> string \<Rightarrow> string list" where
  "split_on d [] = [[]]"
| "split_on d (c # cs) =
     (if c = d then [] # split_on d cs
      else case split_on d cs of [] \<Rightarrow> [[c]] | w # ws \<Rightarrow> (c # w) # ws)"

definition hex_value :: "char \<Rightarrow> nat" where
  "hex_value c = (if is_digit c then of_char c - 48 else of_char c - 55)"

fun url_decode :: "string \<Rightarrow> string" where
  "url_decode (c # a # b # cs) =
     (if c = CHR ''%'' then char_of (16 * hex_value a + hex_value b) # url_decode cs
      else c # url_decode (a # b # cs))"
| "url_decode cs = cs"

definition form_field :: "string \<Rightarrow> string \<times> string" where
  "form_field s = (takeWhile (\<lambda>c. c \<noteq> CHR ''='') s,
     url_decode (drop 1 (dropWhile (\<lambda>c. c \<noteq> CHR ''='') s)))"

definition form_fields :: "string \<Rightarrow> (string \<times> string) list" where
  "form_fields body = map form_field (split_on (CHR ''&'') body)"

lemma hex_value_digit: "d < 16 \<Longrightarrow> hex_value (hex_digit d) = d"
  by (auto simp: hex_value_def hex_digit_def is_digit_def)

lemma of_char_hex_digit: "d < 16 \<Longrightarrow> of_char (hex_digit d) = (if d < 10 then 48 + d else 55 + d :: nat)"
  by (simp add: hex_digit_def)

lemma hex_bounds: "of_char c div 16 < (16 :: nat)" "of_char c mod 16 < (16 :: nat)"
  using of_char_less_256 [of c] by (simp_all add: less_mult_imp_div_less)

lemma url_encode_safe:
  assumes "c \<in> set (url_encode s)"
  shows "c \<noteq> CHR ''&'' \<and> c \<noteq> CHR ''=''"
proof -
  have hex: "hex_digit d \<noteq> CHR ''&'' \<and> hex_digit d \<noteq> CHR ''=''" if "d < 16" for d
    using of_char_hex_digit [OF that] by (auto split: if_splits)
  obtain x where x: "c \<in> set (url_encode_char x)"
    using assms by (auto simp: url_encode_def)
  with hex [OF hex_bounds(1)] hex [OF hex_bounds(2)] show ?thesis
    by (auto simp: url_encode_char_def url_unreserved_def Let_def split: if_splits)
qed

lemma url_decode_encode: "url_decode (url_encode s) = s"
proof (induction s)
  case Nil
  then show ?case by (simp add: url_encode_def)
next
  case (Cons c s)
  have plain: "url_decode (c # t) = c # url_decode t" if "c \<noteq> CHR ''%''" for t
    using that by (cases t; cases "tl t") auto
  show ?case
  proof (cases "url_unreserved c")
    case True
    then have "c \<noteq> CHR ''%''" by (auto simp: url_unreserved_def)
    with True Cons plain show ?thesis by (simp add: url_encode_def url_encode_char_def)
  next
    case False
    have "16 * (of_char c div 16) + of_char c mod 16 = (of_char c :: nat)" by simp
    with False Cons show ?thesis
      by (simp add: url_encode_def url_encode_char_def hex_value_digit hex_bounds)
  qed
qed

lemma split_on_nonempty: "split_on d s \<noteq> []"
  by (induction s) (auto split: list.split)

lemma split_on_last: "d \<notin> set s \<Longrightarrow> split_on d s = [s]"
  by (induction s) auto

lemma split_on_append: "d \<notin> set s \<Longrightarrow> split_on d (s @ d # t) = s # split_on d t"
  by (induction s) auto

lemma form_field_of:
  assumes "CHR ''='' \<notin> set k"
  shows "form_field (k @ CHR ''='' # url_encode v) = (k, v)"
proof -
  have "takeWhile (\<lambda>c. c \<noteq> CHR ''='') (k @ CHR ''='' # url_encode v) = k"
    using assms by (intro takeWhile_stop) auto
  moreover have "dropWhile (\<lambda>c. c \<noteq> CHR ''='') (k @ CHR ''='' # url_encode v) = CHR ''='' # url_encode v"
    using assms by (intro dropWhile_stop) auto
  ultimately show ?thesis by (simp add: form_field_def url_decode_encode)
qed

lemma form_fields_more:
  assumes "CHR ''='' \<notin> set k" and "CHR ''&'' \<notin> set k"
  shows "form_fields (k @ CHR ''='' # url_encode v @ CHR ''&'' # rest) = (k, v) # form_fields rest"
    and "form_fields (k @ CHR ''='' # url_encode v) = [(k, v)]"
proof -
  have no: "CHR ''&'' \<notin> set (k @ CHR ''='' # url_encode v)"
    using assms(2) url_encode_safe by auto
  show "form_fields (k @ CHR ''='' # url_encode v @ CHR ''&'' # rest) = (k, v) # form_fields rest"
    using split_on_append [OF no, of rest] by (simp add: form_fields_def form_field_of [OF assms(1)])
  show "form_fields (k @ CHR ''='' # url_encode v) = [(k, v)]"
    using split_on_last [OF no] by (simp add: form_fields_def form_field_of [OF assms(1)])
qed

lemma kraken_post_fields:
  "form_fields (kraken_post_data order) =
     [(''orderType'', kr_order_type order), (''symbol'', kr_symbol order), (''side'', kr_side order),
      (''size'', kr_size order), (''limitPrice'', kr_limit_price order)]
     @ (if kr_cli_ord_id order \<noteq> [] then [(''cliOrdId'', kr_cli_ord_id order)] else [])"
proof -
  note more = form_fields_more(1) [where k = "''orderType''", simplified]
    form_fields_more(1) [where k = "''symbol''", simplified]
    form_fields_more(1) [where k = "''side''", simplified]
    form_fields_more(1) [where k = "''size''", simplified]
    form_fields_more(1) [where k = "''limitPrice''", simplified]
  note last = form_fields_more(2) [where k = "''limitPrice''", simplified]
    form_fields_more(2) [where k = "''cliOrdId''", simplified]
  show ?thesis by (simp add: kraken_post_data_def more last)
qed

section \<open>The price text\<close>

lemma list_all_show_nat: "list_all is_digit (show_nat n)"
  using show_nat_digits by (auto simp: list_all_iff)

lemma pad2_digits:
  assumes "n < 100"
  shows "list_all is_digit (pad2 (show_nat n))" and "length (pad2 (show_nat n)) = 2"
    and "digits_value (pad2 (show_nat n)) = n"
proof -
  have zero: "is_digit (CHR ''0'')" "digit_value (CHR ''0'') = 0"
    by (simp_all add: is_digit_def digit_value_def)
  show "list_all is_digit (pad2 (show_nat n))"
    using list_all_show_nat zero by (auto simp: pad2_def list_all_iff)
  have len: "length (show_nat n) = (if n < 10 then 1 else 2)"
    using assms by (auto simp: show_nat.simps [of n] show_nat.simps [of "n div 10"])
  then show "length (pad2 (show_nat n)) = 2" by (simp add: pad2_def)
  have "digits_value (replicate k (CHR ''0'')) = 0" for k
  proof (induction k)
    case (Suc k)
    then have "digits_value (replicate k (CHR ''0'') @ [CHR ''0'']) = 0" by (simp add: zero)
    then show ?case by (simp add: replicate_append_same)
  qed simp
  then show "digits_value (pad2 (show_nat n)) = n"
    by (simp add: pad2_def digits_value_append)
qed

text \<open>
  C21.  The limit price text is read back to the price by the adapter's own price parser, except that
  a price of minus one to minus 99 ticks loses its sign.
\<close>

theorem kraken_price_text:
  "parse_price_to_ticks (ticks_to_price_string t) 100
    = (if -100 < sint t \<and> sint t < 0 then - t else t)"
proof -
  let ?m = "nat \<bar>sint t\<bar>" and ?neg = "sint t \<le> -100"
  have "\<bar>k smod 100\<bar> = \<bar>k\<bar> mod 100" for k :: int
    by (cases "k = 0") (simp_all add: smod_int_alt_def abs_mult abs_sgn_eq)
  then have frac: "nat \<bar>sint t smod 100\<bar> = ?m mod 100"
    by (simp only: nat_mod_distrib [of "\<bar>sint t\<bar>" 100]) simp
  have whole: "show_int (sint t sdiv 100) = (if ?neg then ''-'' else []) @ show_nat (?m div 100)"
  proof -
    have div: "nat (\<bar>sint t\<bar> div 100) = ?m div 100"
      by (simp add: nat_div_distrib)
    have sdiv: "sint t sdiv 100 = sgn (sint t) * (\<bar>sint t\<bar> div 100)"
      by (simp add: signed_divide_int_def)
    consider (low) "sint t \<le> -100" | (cents) "-100 < sint t" "sint t < 0" | (pos) "0 \<le> sint t" by linarith
    then show ?thesis
    proof cases
      case low
      then have "0 < \<bar>sint t\<bar> div 100" by simp
      with low div show ?thesis by (simp add: sdiv show_int_def sgn_if)
    next
      case cents
      then have "\<bar>sint t\<bar> div 100 = 0" by simp
      with cents div show ?thesis by (simp add: sdiv show_int_def)
    next
      case pos
      have "0 \<le> sint t sdiv 100" "nat (sint t sdiv 100) = ?m div 100"
        using pos div by (auto simp: sdiv sgn_if)
      with pos show ?thesis by (simp add: show_int_def)
    qed
  qed
  have shape: "ticks_to_price_string t = decimal_text ?neg (show_nat (?m div 100)) (pad2 (show_nat (?m mod 100)))"
    by (simp add: ticks_to_price_string_def decimal_text_def whole frac)
  have "ticks_of (show_nat (?m div 100)) (pad2 (show_nat (?m mod 100))) = ?m"
    using pad2_digits [of "?m mod 100"] by (simp add: ticks_of_def)
  then have parsed: "parse_price_to_ticks (ticks_to_price_string t) 100 = (if ?neg then - of_nat ?m else of_nat ?m)"
    unfolding shape using pad2_digits [of "?m mod 100"] list_all_show_nat by (subst parse_price_decimal) auto
  consider (low) "sint t \<le> -100" | (cents) "-100 < sint t" "sint t < 0" | (pos) "0 \<le> sint t" by linarith
  then show ?thesis
  proof cases
    case low
    then have "of_nat ?m = (of_int (- sint t) :: s64)" by simp
    with low parsed show ?thesis by simp
  next
    case cents
    then have "of_nat ?m = (of_int (- sint t) :: s64)" by simp
    with cents parsed show ?thesis by simp
  next
    case pos
    then have "of_nat ?m = (of_int (sint t) :: s64)" by simp
    with pos parsed show ?thesis by simp
  qed
qed


section \<open>An order, as the exchange gets it\<close>

text \<open>A network that answers by the request and remembers the requests.\<close>

definition recording :: "(HttpRequest \<Rightarrow> net_answer) \<Rightarrow> HttpRequest list network" where
  "recording answer rq rqs = (answer rq, rqs @ [rq])"

definition answer_body :: "net_answer \<Rightarrow> string" where
  "answer_body a = (case a of NetResponse r \<Rightarrow> http_body r | _ \<Rightarrow> [])"


definition toy_openssl :: openssl where
  "toy_openssl = \<lparr>os_sha256 = take 3, os_hmac_sha512 = (\<lambda>k s. k @ s), os_base64_read = (\<lambda>s. (int (length s), s)),
     os_base64_write = (\<lambda>s. CHR ''='' # s)\<rparr>"


end
