(* ===== verification/Connectors.thy ===== *)
theory Connectors
  imports Market_Data_Adapter Effects
begin

text \<open>
  The live market data connectors of src/live_market_data_connectors.cpp over the web socket client of
  src/ws_client.cpp: connect, subscribe, and hand every frame the adapter can normalize to a callback.
  The service behind a web socket is an argument: how it answers the handshake and a write, and the
  frames it sends once it has got what was written, each with the two clock readings of its
  normalization.
\<close>

section \<open>The web socket client\<close>

record WssClient =
  wss_host :: string
  wss_port :: string
  wss_target :: string

datatype ws_handshake = WsConnected | WsSniFailed | WsConnectException string

datatype ws_read = WsFrame TimestampNs TimestampNs string | WsReadException string

record WsService =
  ws_handshake_answer :: ws_handshake
  ws_write_exception :: "string \<Rightarrow> string option"
  ws_reads :: "string list \<Rightarrow> ws_read list"

type_synonym ws_network = "WssClient \<Rightarrow> WsService"

definition wss_connect :: "WsService \<Rightarrow> bool \<times> effect list" where
  "wss_connect service =
     (case ws_handshake_answer service of
        WsConnected \<Rightarrow> (True, [Log Info ''wss_client'' ''connected websocket''])
      | WsSniFailed \<Rightarrow> (False, [Log Error ''wss_client'' ''failed to set SNI hostname''])
      | WsConnectException what \<Rightarrow> (False, [Log Error ''wss_client'' what]))"

definition wss_write_text :: "WsService \<Rightarrow> string \<Rightarrow> bool \<times> effect list" where
  "wss_write_text service msg =
     (case ws_write_exception service msg of
        None \<Rightarrow> (True, [])
      | Some what \<Rightarrow> (False, [Log Error ''wss_client'' what]))"

text \<open>
  \<open>read_text\<close> takes the next answer of the network; it has not returned (\<open>None\<close>) while there is none.
  The frame comes with its clock readings.
\<close>

definition wss_read_text ::
  "ws_read list \<Rightarrow> ((TimestampNs \<times> TimestampNs \<times> string) option \<times> effect list \<times> ws_read list) option"
where
  "wss_read_text reads =
     (case reads of
        [] \<Rightarrow> None
      | WsFrame t1 t2 raw # rest \<Rightarrow> Some (Some (t1, t2, raw), [], rest)
      | WsReadException what # rest \<Rightarrow> Some (None, [Log Error ''wss_client'' what], rest))"

section \<open>Handing on\<close>

type_synonym 's MarketDataCallback = "(NormalizedMarketData \<Rightarrow> 's \<Rightarrow> effect list \<times> 's) option"

definition md_line :: "NormalizedMarketData \<Rightarrow> string option" where
  "md_line md = (let u = nmd_update md in
     map_option (\<lambda>sym. ''venue='' @ to_string_venue (nmd_venue md)
       @ '' symbol='' @ sym @ '' seq='' @ show_nat (unat (md_exchange_sequence u))
       @ '' bid='' @ show_int (sint (md_bid_px u)) @ '' bid_qty='' @ show_int (sint (md_bid_qty u))
       @ '' ask='' @ show_int (sint (md_ask_px u)) @ '' ask_qty='' @ show_int (sint (md_ask_qty u)))
     (Symbol_str (md_symbol u)))"

definition print_md :: "NormalizedMarketData \<Rightarrow> effect list" where
  "print_md md = (case md_line md of None \<Rightarrow> [] | Some line \<Rightarrow> [Stdout line])"

definition emit_md ::
  "'s MarketDataCallback \<Rightarrow> NormalizedMarketData \<Rightarrow> 's \<Rightarrow> effect list \<times> 's" where
  "emit_md callback md s = (case callback of Some f \<Rightarrow> f md s | None \<Rightarrow> (print_md md, s))"

section \<open>The loops\<close>

text \<open>
  The three loops differ in the normalizer and in what they log.  The result is \<open>None\<close> while the loop
  waits for a frame; \<open>received\<close> is an \<open>int\<close>.
\<close>

type_synonym normalizer = "TimestampNs \<Rightarrow> TimestampNs \<Rightarrow> string \<Rightarrow> NormalizedMarketData option \<times> effect list"

function connector_loop ::
  "normalizer \<Rightarrow> string \<Rightarrow> effect \<Rightarrow> effect \<Rightarrow> i32 \<Rightarrow> 's MarketDataCallback \<Rightarrow> i32 \<Rightarrow> ws_read list \<Rightarrow> 's
   \<Rightarrow> bool option \<times> effect list \<times> 's" where
  "connector_loop norm component skipped normalized max_updates callback received reads s =
     (if \<not> (max_updates = 0 \<or> sint received < sint max_updates)
      then (Some (0 < sint received), [], s)
      else case wss_read_text reads of
        None \<Rightarrow> (None, [], s)
      | Some (None, es, rest) \<Rightarrow>
          (Some (0 < sint received),
           es @ [Log Warn component ''websocket read failed or connection closed''], s)
      | Some (Some (t1, t2, raw), es, rest) \<Rightarrow>
          (case norm t1 t2 raw of
             (None, fs) \<Rightarrow>
               (let (r, gs, s') = connector_loop norm component skipped normalized max_updates callback
                      received rest s
                in (r, es @ fs @ [skipped] @ gs, s'))
           | (Some md, fs) \<Rightarrow>
               (let (gs, s1) = emit_md callback md s;
                    (r, hs, s') = connector_loop norm component skipped normalized max_updates callback
                      (received + 1) rest s1
                in (r, es @ fs @ gs @ [normalized] @ hs, s'))))"
  by auto

lemma wss_read_text_shorter: "wss_read_text reads = Some (x, es, rest) \<Longrightarrow> length rest < length reads"
  by (auto simp: wss_read_text_def split: list.splits ws_read.splits)

termination connector_loop
  by (relation "measure (\<lambda>(_, _, _, _, _, _, _, reads, _). length reads)")
     (auto dest: wss_read_text_shorter)

declare connector_loop.simps [simp del]

text \<open>A service over which nothing was written, and the two that subscribe first.\<close>

definition run_binance_live_book_ticker ::
  "ws_network \<Rightarrow> string \<Rightarrow> i32 \<Rightarrow> 's MarketDataCallback \<Rightarrow> SymbolId \<Rightarrow> 's
   \<Rightarrow> bool option \<times> effect list \<times> 's" where
  "run_binance_live_book_ticker net symbol_lower max_updates callback symbol_id s =
     (let service = net \<lparr>wss_host = ''data-stream.binance.vision'', wss_port = ''443'',
            wss_target = ''/ws/'' @ symbol_lower @ ''@bookTicker''\<rparr>
      in case wss_connect service of
        (False, es) \<Rightarrow> (Some False, es @ [Log Error ''binance_live'' ''failed to connect websocket''], s)
      | (True, es) \<Rightarrow>
          (let (r, fs, s') = connector_loop
                 (\<lambda>t1 t2 raw. normalize_binance_book_ticker t1 t2 raw symbol_id) ''binance_live''
                 (Log Warn ''binance_live'' ''failed to normalize Binance frame'')
                 (Log Info ''binance_live'' ''normalized live Binance bookTicker'')
                 max_updates callback 0 (ws_reads service []) s
           in (r, es @ [Log Info ''binance_live'' ''connected to Binance bookTicker stream''] @ fs, s')))"

definition coinbase_subscribe :: "string \<Rightarrow> string" where
  "coinbase_subscribe product_id =
     ''{'' @ quoted ''type'' @ '':'' @ quoted ''subscribe'' @ '','' @ quoted ''product_ids'' @ '':[''
     @ quoted product_id @ ''],'' @ quoted ''channels'' @ '':['' @ quoted ''ticker'' @ '']}''"

definition run_coinbase_live_ticker ::
  "ws_network \<Rightarrow> string \<Rightarrow> i32 \<Rightarrow> 's MarketDataCallback \<Rightarrow> SymbolId \<Rightarrow> 's
   \<Rightarrow> bool option \<times> effect list \<times> 's" where
  "run_coinbase_live_ticker net product_id max_updates callback symbol_id s =
     (let service = net \<lparr>wss_host = ''ws-feed.exchange.coinbase.com'', wss_port = ''443'',
            wss_target = ''/''\<rparr>
      in case wss_connect service of
        (False, es) \<Rightarrow> (Some False, es @ [Log Error ''coinbase_live'' ''failed to connect websocket''], s)
      | (True, es) \<Rightarrow>
          let subscribe = coinbase_subscribe product_id
          in case wss_write_text service subscribe of
            (False, fs) \<Rightarrow>
              (Some False, es @ fs @ [Log Error ''coinbase_live'' ''failed to send subscription''], s)
          | (True, fs) \<Rightarrow>
              (let (r, gs, s') = connector_loop
                     (\<lambda>t1 t2 raw. normalize_coinbase_ticker t1 t2 raw symbol_id) ''coinbase_live''
                     (Log Info ''coinbase_live'' ''skipped non-ticker Coinbase frame'')
                     (Log Info ''coinbase_live'' ''normalized live Coinbase ticker'')
                     max_updates callback 0 (ws_reads service [subscribe]) s
               in (r, es @ fs @ [Log Info ''coinbase_live'' ''sent Coinbase ticker subscription''] @ gs, s')))"

definition hyperliquid_subscribe :: "string \<Rightarrow> string" where
  "hyperliquid_subscribe coin =
     ''{'' @ quoted ''method'' @ '':'' @ quoted ''subscribe'' @ '','' @ quoted ''subscription'' @ '':{''
     @ quoted ''type'' @ '':'' @ quoted ''l2Book'' @ '','' @ quoted ''coin'' @ '':'' @ quoted coin @ ''}}''"

definition run_hyperliquid_live_l2book ::
  "ws_network \<Rightarrow> string \<Rightarrow> i32 \<Rightarrow> 's MarketDataCallback \<Rightarrow> SymbolId \<Rightarrow> 's
   \<Rightarrow> bool option \<times> effect list \<times> 's" where
  "run_hyperliquid_live_l2book net coin max_updates callback symbol_id s =
     (let service = net \<lparr>wss_host = ''api.hyperliquid.xyz'', wss_port = ''443'', wss_target = ''/ws''\<rparr>
      in case wss_connect service of
        (False, es) \<Rightarrow> (Some False, es @ [Log Error ''hyperliquid_live'' ''failed to connect websocket''], s)
      | (True, es) \<Rightarrow>
          let subscribe = hyperliquid_subscribe coin
          in case wss_write_text service subscribe of
            (False, fs) \<Rightarrow>
              (Some False, es @ fs @ [Log Error ''hyperliquid_live'' ''failed to send subscription''], s)
          | (True, fs) \<Rightarrow>
              (let (r, gs, s') = connector_loop
                     (\<lambda>t1 t2 raw. normalize_hyperliquid_l2book t1 t2 raw symbol_id) ''hyperliquid_live''
                     (Log Info ''hyperliquid_live'' ''skipped non-l2Book Hyperliquid frame'')
                     (Log Info ''hyperliquid_live'' ''normalized live Hyperliquid l2Book'')
                     max_updates callback 0 (ws_reads service [subscribe]) s
               in (r, es @ fs @ [Log Info ''hyperliquid_live'' ''sent Hyperliquid l2Book subscription''] @ gs,
                   s')))"

section \<open>What the callback is called with\<close>

fun ws_frames :: "ws_read list \<Rightarrow> (TimestampNs \<times> TimestampNs \<times> string) list" where
  "ws_frames (WsFrame t1 t2 raw # reads) = (t1, t2, raw) # ws_frames reads"
| "ws_frames _ = []"

definition ws_broken :: "ws_read list \<Rightarrow> bool" where
  "ws_broken reads \<longleftrightarrow> list_ex (\<lambda>r. case r of WsReadException _ \<Rightarrow> True | _ \<Rightarrow> False) reads"

definition normalized_frames :: "normalizer \<Rightarrow> ws_read list \<Rightarrow> NormalizedMarketData list" where
  "normalized_frames norm reads = List.map_filter (\<lambda>(t1, t2, raw). fst (norm t1 t2 raw)) (ws_frames reads)"

definition wanted :: "i32 \<Rightarrow> i32 \<Rightarrow> 'a list \<Rightarrow> 'a list" where
  "wanted max_updates received mds =
     (if max_updates = 0 then mds else take (nat (sint max_updates - sint received)) mds)"

definition hand_on :: "'s MarketDataCallback \<Rightarrow> NormalizedMarketData list \<Rightarrow> 's \<Rightarrow> 's" where
  "hand_on callback mds s = fold (\<lambda>md s. snd (emit_md callback md s)) mds s"

lemma ws_frames_length: "length (ws_frames reads) \<le> length reads"
  by (induction reads rule: ws_frames.induct) auto

lemma normalized_frames_length: "length (normalized_frames norm reads) \<le> length reads"
  unfolding normalized_frames_def List.map_filter_def
  by (simp only: length_map) (rule le_trans [OF length_filter_le ws_frames_length])

lemma normalized_frames_simps [simp]:
  "normalized_frames norm [] = []"
  "normalized_frames norm (WsReadException what # reads) = []"
  "normalized_frames norm (WsFrame t1 t2 raw # reads) =
     (case fst (norm t1 t2 raw) of None \<Rightarrow> [] | Some md \<Rightarrow> [md]) @ normalized_frames norm reads"
  by (simp_all add: normalized_frames_def map_filter_simps split: option.split)

lemma sint_succ:
  "0 \<le> sint (n :: i32) \<Longrightarrow> sint n + 1 < 2 ^ 31 \<Longrightarrow> sint (n + 1) = sint n + 1"
  using signed_take_bit_int_eq_self [of 31 "sint n + 1"] by (simp add: sint_word_ariths)

lemma connector_loop_result:
  assumes "0 \<le> sint received" and "sint received + int (length (normalized_frames norm reads)) < 2 ^ 31"
  shows "(fst (connector_loop norm component skipped normalized max_updates callback received reads s)
      = (if (max_updates \<noteq> 0 \<and> sint max_updates \<le> sint received + int (length (normalized_frames norm reads)))
            \<or> ws_broken reads
         then Some (0 < sint received \<or> wanted max_updates received (normalized_frames norm reads) \<noteq> [])
         else None))
    \<and> snd (snd (connector_loop norm component skipped normalized max_updates callback received reads s))
      = hand_on callback (wanted max_updates received (normalized_frames norm reads)) s"
  using assms
proof (induction reads arbitrary: received s)
  case Nil
  then show ?case
    by (subst (1 2) connector_loop.simps)
       (auto simp: wss_read_text_def ws_broken_def wanted_def hand_on_def)
next
  case (Cons r reads)
  show ?case
  proof (cases "max_updates = 0 \<or> sint received < sint max_updates")
    case False
    then show ?thesis
      using Cons.prems
      by (subst (1 2) connector_loop.simps) (auto simp: wanted_def hand_on_def)
  next
    case go: True
    show ?thesis
    proof (cases r)
      case (WsReadException what)
      with go show ?thesis
        by (subst (1 2) connector_loop.simps)
           (auto simp: wss_read_text_def ws_broken_def wanted_def hand_on_def)
    next
      case frame: (WsFrame t1 t2 raw)
      have broken: "ws_broken (r # reads) = ws_broken reads" by (simp add: ws_broken_def frame)
      show ?thesis
      proof (cases "fst (norm t1 t2 raw)")
        case None
        then obtain fs where "norm t1 t2 raw = (None, fs)" by (metis prod.collapse)
        with go frame Cons.IH [of received s] Cons.prems broken show ?thesis
          by (subst (1 2) connector_loop.simps) (simp add: wss_read_text_def split_beta Let_def)
      next
        case (Some md)
        then obtain fs where norm: "norm t1 t2 raw = (Some md, fs)" by (metis prod.collapse)
        have next_received: "sint (received + 1) = sint received + 1"
          using Cons.prems frame Some by (intro sint_succ) simp_all
        have bound: "sint received + 1 + int (length (normalized_frames norm reads)) < 2 ^ 31"
          using Cons.prems frame Some by simp
        have wanted: "wanted max_updates received (md # mds) = md # wanted max_updates (received + 1) mds" for mds :: "NormalizedMarketData list"
        proof -
          have "nat (sint max_updates - sint received) = Suc (nat (sint max_updates - (sint received + 1)))"
            if "max_updates \<noteq> 0"
            using go that by linarith
          then show ?thesis by (simp add: wanted_def next_received)
        qed
        show ?thesis
          using go frame norm Cons.IH [of "received + 1" "snd (emit_md callback md s)"] Cons.prems
            broken next_received bound
          by (subst (1 2) connector_loop.simps)
             (simp add: wss_read_text_def split_beta Let_def wanted hand_on_def)
      qed
    qed
  qed
qed

text \<open>
  What a connector comes to: nothing when it cannot connect or subscribe, and else the first
  \<open>max_updates\<close> normalized frames, all of them for 0; it returns once it has so many or the socket
  fails.
\<close>

definition connector_outcome ::
  "WsService \<Rightarrow> string list \<Rightarrow> normalizer \<Rightarrow> i32 \<Rightarrow> 's MarketDataCallback \<Rightarrow> 's \<Rightarrow> bool option \<times> 's" where
  "connector_outcome service sent norm max_updates callback s =
     (if ws_handshake_answer service \<noteq> WsConnected
         \<or> list_ex (\<lambda>m. ws_write_exception service m \<noteq> None) sent
      then (Some False, s)
      else
        let mds = normalized_frames norm (ws_reads service sent); out = wanted max_updates 0 mds
        in (if (max_updates \<noteq> 0 \<and> sint max_updates \<le> int (length mds)) \<or> ws_broken (ws_reads service sent)
            then Some (out \<noteq> []) else None,
            hand_on callback out s))"

lemma connector_loop_start:
  assumes "length reads < 2 ^ 31"
  shows "(fst (connector_loop norm component skipped normalized max_updates callback 0 reads s),
      snd (snd (connector_loop norm component skipped normalized max_updates callback 0 reads s)))
    = (let mds = normalized_frames norm reads; out = wanted max_updates 0 mds
       in (if (max_updates \<noteq> 0 \<and> sint max_updates \<le> int (length mds)) \<or> ws_broken reads
           then Some (out \<noteq> []) else None,
           hand_on callback out s))"
proof -
  have "length (normalized_frames norm reads) < 2 ^ 31"
    using normalized_frames_length [of norm reads] assms by (rule le_less_trans)
  then have "int (length (normalized_frames norm reads)) < 2 ^ 31" by simp
  with connector_loop_result [of 0 norm reads component skipped normalized max_updates callback s]
  show ?thesis by (simp add: Let_def)
qed

definition service_ready :: "WsService \<Rightarrow> string list \<Rightarrow> bool" where
  "service_ready service sent \<longleftrightarrow> ws_handshake_answer service = WsConnected
     \<and> list_all (\<lambda>m. ws_write_exception service m = None) sent"

lemma connector_outcome_unready:
  "\<not> service_ready service sent \<Longrightarrow> connector_outcome service sent norm max_updates callback s = (Some False, s)"
  by (auto simp: connector_outcome_def service_ready_def list_ex_iff list_all_iff)

lemma connector_outcome_ready:
  assumes "service_ready service sent" and "length (ws_reads service sent) < 2 ^ 31"
  shows "connector_outcome service sent norm max_updates callback s =
    (case connector_loop norm component skipped normalized max_updates callback 0 (ws_reads service sent) s
     of (r, _, s') \<Rightarrow> (r, s'))"
proof -
  have "\<not> list_ex (\<lambda>m. ws_write_exception service m \<noteq> None) sent"
    using assms(1) by (auto simp: service_ready_def list_ex_iff list_all_iff)
  then show ?thesis
    using assms(1) connector_loop_start [OF assms(2), of norm component skipped normalized max_updates callback s]
    by (simp add: connector_outcome_def service_ready_def case_prod_beta)
qed

lemma wss_connect_cases:
  "wss_connect service = (ws_handshake_answer service = WsConnected, snd (wss_connect service))"
  by (simp add: wss_connect_def split: ws_handshake.split)

lemma wss_write_text_cases:
  "wss_write_text service m = (ws_write_exception service m = None, snd (wss_write_text service m))"
  by (simp add: wss_write_text_def split: option.split)

text \<open>The two shapes a connector has: without and with a subscription.\<close>

lemma connector_shape:
  assumes "length (ws_reads service []) < 2 ^ 31"
  shows "(case (case wss_connect service of
        (False, es) \<Rightarrow> (Some False, es @ failed, s)
      | (True, es) \<Rightarrow>
          (let (r, fs, s') = connector_loop norm component skipped normalized max_updates callback 0
                 (ws_reads service []) s
           in (r, es @ opened @ fs, s'))) of (r, _, s') \<Rightarrow> (r, s'))
    = connector_outcome service [] norm max_updates callback s"
proof (cases "service_ready service []")
  case True
  then have "ws_handshake_answer service = WsConnected" by (simp add: service_ready_def)
  then show ?thesis
    by (subst wss_connect_cases)
       (simp add: connector_outcome_ready [OF True assms, where component = component and skipped = skipped and normalized = normalized] case_prod_beta)
next
  case False
  then have "ws_handshake_answer service \<noteq> WsConnected" by (simp add: service_ready_def)
  then show ?thesis
    by (subst wss_connect_cases) (simp add: connector_outcome_unready [OF False])
qed

lemma subscriber_shape:
  assumes "length (ws_reads service [m]) < 2 ^ 31"
  shows "(case (case wss_connect service of
        (False, es) \<Rightarrow> (Some False, es @ failed, s)
      | (True, es) \<Rightarrow>
          (case wss_write_text service m of
             (False, fs) \<Rightarrow> (Some False, es @ fs @ unsent, s)
           | (True, fs) \<Rightarrow>
               (let (r, gs, s') = connector_loop norm component skipped normalized max_updates callback 0
                      (ws_reads service [m]) s
                in (r, es @ fs @ opened @ gs, s')))) of (r, _, s') \<Rightarrow> (r, s'))
    = connector_outcome service [m] norm max_updates callback s"
proof (cases "service_ready service [m]")
  case True
  then have "ws_handshake_answer service = WsConnected" "ws_write_exception service m = None"
    by (simp_all add: service_ready_def)
  then show ?thesis
    by (subst wss_connect_cases, subst wss_write_text_cases)
       (simp add: connector_outcome_ready [OF True assms, where component = component and skipped = skipped and normalized = normalized] case_prod_beta)
next
  case False
  then have "ws_handshake_answer service \<noteq> WsConnected \<or> ws_write_exception service m \<noteq> None"
    by (simp add: service_ready_def)
  then show ?thesis
    by (subst wss_connect_cases, subst wss_write_text_cases)
       (cases "ws_handshake_answer service = WsConnected";
        cases "ws_write_exception service m"; simp add: connector_outcome_unready [OF False])
qed

lemma connector_runs:
  assumes "\<And>client sent. length (ws_reads (net client) sent) < 2 ^ 31"
  shows "(case run_binance_live_book_ticker net feed max_updates callback sid s of (r, _, s') \<Rightarrow> (r, s'))
      = connector_outcome (net \<lparr>wss_host = ''data-stream.binance.vision'', wss_port = ''443'',
            wss_target = ''/ws/'' @ feed @ ''@bookTicker''\<rparr>) []
          (\<lambda>t1 t2 raw. normalize_binance_book_ticker t1 t2 raw sid) max_updates callback s"
    and "(case run_coinbase_live_ticker net feed max_updates callback sid s of (r, _, s') \<Rightarrow> (r, s'))
      = connector_outcome (net \<lparr>wss_host = ''ws-feed.exchange.coinbase.com'', wss_port = ''443'',
            wss_target = ''/''\<rparr>) [coinbase_subscribe feed]
          (\<lambda>t1 t2 raw. normalize_coinbase_ticker t1 t2 raw sid) max_updates callback s"
    and "(case run_hyperliquid_live_l2book net feed max_updates callback sid s of (r, _, s') \<Rightarrow> (r, s'))
      = connector_outcome (net \<lparr>wss_host = ''api.hyperliquid.xyz'', wss_port = ''443'',
            wss_target = ''/ws''\<rparr>) [hyperliquid_subscribe feed]
          (\<lambda>t1 t2 raw. normalize_hyperliquid_l2book t1 t2 raw sid) max_updates callback s"
  unfolding run_binance_live_book_ticker_def run_coinbase_live_ticker_def
    run_hyperliquid_live_l2book_def
  unfolding Let_def [of "net _"] Let_def [of "coinbase_subscribe feed"] Let_def [of "hyperliquid_subscribe feed"]
  by (rule connector_shape subscriber_shape, rule assms)+

text \<open>
  C20.  Each of the three connectors connects to its venue, subscribes where the venue asks for it,
  and calls the callback with exactly the frames the adapter can normalize, in the order they came,
  up to the number asked for and without end for 0; it returns as soon as it has that many or the
  socket fails, true if the callback was called at all.
\<close>

theorem connectors_deliver:
  assumes "\<And>client sent. length (ws_reads (net client) sent) < 2 ^ 31"
  shows "(case run_binance_live_book_ticker net feed max_updates callback sid s of (r, _, s') \<Rightarrow> (r, s'))
      = connector_outcome (net \<lparr>wss_host = ''data-stream.binance.vision'', wss_port = ''443'',
            wss_target = ''/ws/'' @ feed @ ''@bookTicker''\<rparr>) []
          (\<lambda>t1 t2 raw. normalize_binance_book_ticker t1 t2 raw sid) max_updates callback s
    \<and> (case run_coinbase_live_ticker net feed max_updates callback sid s of (r, _, s') \<Rightarrow> (r, s'))
      = connector_outcome (net \<lparr>wss_host = ''ws-feed.exchange.coinbase.com'', wss_port = ''443'',
            wss_target = ''/''\<rparr>) [coinbase_subscribe feed]
          (\<lambda>t1 t2 raw. normalize_coinbase_ticker t1 t2 raw sid) max_updates callback s
    \<and> (case run_hyperliquid_live_l2book net feed max_updates callback sid s of (r, _, s') \<Rightarrow> (r, s'))
      = connector_outcome (net \<lparr>wss_host = ''api.hyperliquid.xyz'', wss_port = ''443'',
            wss_target = ''/ws''\<rparr>) [hyperliquid_subscribe feed]
          (\<lambda>t1 t2 raw. normalize_hyperliquid_l2book t1 t2 raw sid) max_updates callback s"
  by (intro conjI connector_runs assms)

text \<open>A venue that sends a frame that is no ticker, two tickers and a last one, and then fails.\<close>

definition sample_feed :: ws_network where
  "sample_feed client =
     \<lparr>ws_handshake_answer = WsConnected, ws_write_exception = (\<lambda>_. None),
      ws_reads = (\<lambda>_. [WsFrame 1 2 ''{}'',
        WsFrame 3 4 (binance_text 7 ''BTCUSDT'' ''101.50'' ''2'' ''101.75'' ''1''),
        WsFrame 5 6 (binance_text 8 ''BTCUSDT'' ''101.25'' ''2'' ''101.75'' ''1''),
        WsFrame 7 8 (binance_text 9 ''BTCUSDT'' ''101.00'' ''2'' ''101.75'' ''1''),
        WsReadException ''closed''])\<rparr>"

lemma sample_ticker:
  assumes "number_text a" and "number_text b"
  shows "normalize_binance_book_ticker t1 t2 (binance_text n ''BTCUSDT'' b ''2'' a ''1'') sid
    = (Some \<lparr>nmd_venue = Binance, nmd_update = make_update t1 t2 Binance sid ''BTCUSDT''
         (parse_price_to_ticks b 100) (parse_quantity_to_units ''2'')
         (parse_price_to_ticks a 100) (parse_quantity_to_units ''1'') n\<rparr>, [])"
  using assms
  by (subst binance_ticker_normalized)
     (auto simp: no_quote_def QUOTE_def number_text_def is_number_char_def is_digit_def)

lemma sample_texts:
  "number_text ''101.50''" "number_text ''101.75''" "number_text ''101.25''" "number_text ''101.00''"
  by (simp_all add: number_text_def is_number_char_def is_digit_def)

lemma sample_junk: "fst (normalize_binance_book_ticker 1 2 ''{}'' 1) = None"
  by code_simp

theorem connectors_deliver_witness:
  "\<exists>es. run_binance_live_book_ticker sample_feed ''btcusdt'' 2
      (Some (\<lambda>md seqs. ([], seqs @ [md_exchange_sequence (nmd_update md)]))) 1 []
    = (Some True, es, [7, 8])"
proof -
  let ?norm = "\<lambda>t1 t2 raw. normalize_binance_book_ticker t1 t2 raw 1"
    and ?cb = "Some (\<lambda>md seqs. ([], seqs @ [md_exchange_sequence (nmd_update md)]))"
  have "length (ws_reads (sample_feed client) sent) < 2 ^ 31" for client sent
    by (simp add: sample_feed_def)
  from connectors_deliver [where net = sample_feed and feed = "''btcusdt''" and max_updates = 2
      and callback = "?cb" and sid = 1 and s = "[]", OF this]
  have "(case run_binance_live_book_ticker sample_feed ''btcusdt'' 2 ?cb 1 [] of (r, _, s') \<Rightarrow> (r, s'))
      = connector_outcome (sample_feed \<lparr>wss_host = ''data-stream.binance.vision'', wss_port = ''443'',
            wss_target = ''/ws/'' @ ''btcusdt'' @ ''@bookTicker''\<rparr>) [] ?norm 2 ?cb []"
    by (rule conjunct1)
  also have "\<dots> = (Some True, [7, 8])"
    by (simp add: connector_outcome_def sample_feed_def sample_junk sample_ticker sample_texts
        make_update_def wanted_def hand_on_def emit_md_def ws_broken_def Let_def)
  finally show ?thesis by (auto split: prod.splits)
qed

end
