(* ===== verification/Live_Feeds.thy ===== *)
theory Live_Feeds
  imports Connectors Live_Router Live_Runtime
begin

text \<open>
  The connectors inside the programs that use them: the nine feed threads of
  apps/live_multi_venue_router.cpp, the feed thread of apps/live_market_data_runtime.cpp, and the
  three programs that only print a feed (apps/binance_live_md.cpp, coinbase_live_md.cpp and
  hyperliquid_live_md.cpp).
\<close>

section \<open>The threads of the live router\<close>

text \<open>\<open>std::atoi\<close>: 0 without digits; a value that does not fit is undefined and wraps here.\<close>

definition atoi :: "string \<Rightarrow> i32" where
  "atoi s =
     (let body = dropWhile is_space s;
          neg = (case body of c # _ \<Rightarrow> c = CHR ''-'' | [] \<Rightarrow> False);
          rest = (case body of c # cs \<Rightarrow> if c = CHR ''-'' \<or> c = CHR ''+'' then cs else body | [] \<Rightarrow> []);
          k = of_nat (digits_value (takeWhile is_digit rest))
      in if neg then - k else k)"

definition env_int :: "(string \<Rightarrow> string option) \<Rightarrow> string \<Rightarrow> i32 \<Rightarrow> i32" where
  "env_int getenv name fallback = (case getenv name of Some v \<Rightarrow> atoi v | None \<Rightarrow> fallback)"

text \<open>
  The callback of every feed thread is \<open>process_update\<close> on the shared state, which other threads call
  in between; what a thread contributes is the sequence of its calls.
\<close>

definition process_calls :: "NormalizedMarketData list MarketDataCallback" where
  "process_calls = Some (\<lambda>md calls. ([], calls @ [md]))"

definition run_binance_stream ::
  "ws_network \<Rightarrow> string \<Rightarrow> SymbolId \<Rightarrow> i32 \<Rightarrow> bool option \<times> NormalizedMarketData list" where
  "run_binance_stream net symbol symbol_id max_updates =
     (case run_binance_live_book_ticker net symbol max_updates process_calls symbol_id [] of
        (r, _, calls) \<Rightarrow> (r, calls))"

definition run_coinbase_stream ::
  "ws_network \<Rightarrow> string \<Rightarrow> SymbolId \<Rightarrow> i32 \<Rightarrow> bool option \<times> NormalizedMarketData list" where
  "run_coinbase_stream net product symbol_id max_updates =
     (case run_coinbase_live_ticker net product max_updates process_calls symbol_id [] of
        (r, _, calls) \<Rightarrow> (r, calls))"

definition run_hyperliquid_stream ::
  "ws_network \<Rightarrow> string \<Rightarrow> SymbolId \<Rightarrow> i32 \<Rightarrow> bool option \<times> NormalizedMarketData list" where
  "run_hyperliquid_stream net coin symbol_id max_updates =
     (case run_hyperliquid_live_l2book net coin max_updates process_calls symbol_id [] of
        (r, _, calls) \<Rightarrow> (r, calls))"

definition live_streams ::
  "(string \<Rightarrow> string option) \<Rightarrow> ws_network \<Rightarrow> (bool option \<times> NormalizedMarketData list) list" where
  "live_streams getenv net =
     (let max_updates_per_stream = env_int getenv ''LLT_MAX_UPDATES_PER_STREAM'' 0
      in [run_binance_stream net ''btcusdt'' 1 max_updates_per_stream,
          run_binance_stream net ''ethusdt'' 2 max_updates_per_stream,
          run_binance_stream net ''solusdt'' 3 max_updates_per_stream,
          run_coinbase_stream net ''BTC-USD'' 1 max_updates_per_stream,
          run_coinbase_stream net ''ETH-USD'' 2 max_updates_per_stream,
          run_coinbase_stream net ''SOL-USD'' 3 max_updates_per_stream,
          run_hyperliquid_stream net ''BTC'' 1 max_updates_per_stream,
          run_hyperliquid_stream net ''ETH'' 2 max_updates_per_stream,
          run_hyperliquid_stream net ''SOL'' 3 max_updates_per_stream])"

text \<open>
  A schedule of the nine threads: the calls in the order they take the lock, each with its thread and
  its environment; all threads have returned, so \<open>main\<close> has joined them.
\<close>

definition live_schedule ::
  "(bool option \<times> NormalizedMarketData list) list \<Rightarrow> (nat \<times> LiveEnv \<times> NormalizedMarketData) list \<Rightarrow> bool"
where
  "live_schedule streams schedule \<longleftrightarrow>
     list_all (\<lambda>(i, _). i < length streams) schedule
     \<and> (\<forall>i<length streams. fst (streams ! i) \<noteq> None
          \<and> map (\<lambda>(_, _, md). md) (filter (\<lambda>(j, _). j = i) schedule) = snd (streams ! i))"

definition live_multi_venue_router ::
  "(string \<Rightarrow> string option) \<Rightarrow> ws_network \<Rightarrow> int \<Rightarrow> bool
   \<Rightarrow> (nat \<times> LiveEnv \<times> NormalizedMarketData) list \<Rightarrow> byte list \<Rightarrow> byte list
   \<Rightarrow> (effect list \<times> LiveState) option" where
  "live_multi_venue_router getenv net fd can_open schedule replay_file journal_file =
     (if live_schedule (live_streams getenv net) schedule
      then Some (live_main fd can_open (map snd schedule) replay_file journal_file)
      else None)"

section \<open>The thread of the live runtime\<close>

text \<open>
  What the market data thread contributes to a run of the live runtime: an event for every call of its
  callback, and after the connector returned (or at once for an unknown venue) the end of the run.
\<close>

definition live_market_data_thread :: "ws_network \<Rightarrow> string \<Rightarrow> effect list \<times> live_event list" where
  "live_market_data_thread net venue =
     (let feed = (\<lambda>(r, es, mds). (es, map LiveUpdate mds @ (if r = None then [] else [LiveShutdown])))
      in if venue = ''binance'' then feed (run_binance_live_book_ticker net ''btcusdt'' 0 process_calls 1 [])
         else if venue = ''coinbase'' then feed (run_coinbase_live_ticker net ''BTC-USD'' 0 process_calls 1 [])
         else if venue = ''hyperliquid'' then feed (run_hyperliquid_live_l2book net ''BTC'' 0 process_calls 1 [])
         else ([Log Error ''live_md'' ''unknown venue''], [LiveShutdown]))"

text \<open>
  \<open>main\<close> for one interleaving of its threads and of the signals it gets: an event of the market data
  thread is marked \<open>True\<close>, a signal is an unmarked end of the run.  The exit code is \<open>None\<close> while the
  market data thread waits for a frame; an interleaving that is none of this program gives \<open>None\<close>.
\<close>

definition live_runtime_schedule :: "live_event list \<Rightarrow> (bool \<times> live_event) list \<Rightarrow> bool" where
  "live_runtime_schedule feed schedule \<longleftrightarrow> map snd (filter fst schedule) = feed
     \<and> list_all (\<lambda>(own, ev). own \<or> (case ev of LiveUpdate _ \<Rightarrow> False | _ \<Rightarrow> True)) schedule"

definition live_runtime_main ::
  "ws_network \<Rightarrow> string list \<Rightarrow> (bool \<times> live_event) list
   \<Rightarrow> (nat option \<times> effect list \<times> LiveRuntime) option" where
  "live_runtime_main net argv schedule =
     (let venue = (if 2 \<le> length argv then argv ! 1 else ''coinbase'');
          (es, feed) = live_market_data_thread net venue;
          start = [Log Info ''live_runtime'' ''starting live market data runtime''];
          (fs, st) = live_runtime_run (map snd schedule) live_runtime_start
      in if \<not> live_runtime_schedule feed schedule then None
         else if LiveShutdown \<notin> set feed then Some (None, start @ es @ fs, st)
         else Some (Some 0, start @ es @ fs @ [Log Info ''live_runtime'' ''shutdown complete''],
                    st\<lparr>lr_running := False\<rparr>))"

section \<open>The printing programs\<close>

text \<open>The exit code is \<open>None\<close> while the program waits for a frame.\<close>

definition live_md_exit :: "string \<Rightarrow> string \<Rightarrow> bool option \<times> effect list \<times> unit \<Rightarrow> nat option \<times> effect list"
where
  "live_md_exit component venue run =
     (let start = Log Info component (''starting '' @ venue @ '' live market data connector'')
      in case run of
        (None, es, _) \<Rightarrow> (None, start # es)
      | (Some ok, es, _) \<Rightarrow>
          (Some (if ok then 0 else 1), start # es
             @ [if ok then Log Info component (''completed '' @ venue @ '' live market data connector'')
                else Log Error component (venue @ '' live connector failed'')]))"

definition binance_live_md_main :: "ws_network \<Rightarrow> nat option \<times> effect list" where
  "binance_live_md_main net =
     live_md_exit ''binance_live_md'' ''Binance'' (run_binance_live_book_ticker net ''btcusdt'' 0 None 1 ())"

definition coinbase_live_md_main :: "ws_network \<Rightarrow> nat option \<times> effect list" where
  "coinbase_live_md_main net =
     live_md_exit ''coinbase_live_md'' ''Coinbase'' (run_coinbase_live_ticker net ''BTC-USD'' 0 None 1 ())"

definition hyperliquid_live_md_main :: "ws_network \<Rightarrow> nat option \<times> effect list" where
  "hyperliquid_live_md_main net =
     live_md_exit ''hyperliquid_live_md'' ''Hyperliquid'' (run_hyperliquid_live_l2book net ''BTC'' 0 None 1 ())"

section \<open>What the frames of a venue become\<close>

text \<open>
  The reference: of each feed the frames its service sends, normalized, up to the limit; nothing when
  the service cannot be reached.
\<close>

definition live_feeds :: "(MarketDataVenue \<times> string \<times> SymbolId) list" where
  "live_feeds = [(Binance, ''btcusdt'', 1), (Binance, ''ethusdt'', 2), (Binance, ''solusdt'', 3),
     (Coinbase, ''BTC-USD'', 1), (Coinbase, ''ETH-USD'', 2), (Coinbase, ''SOL-USD'', 3),
     (Hyperliquid, ''BTC'', 1), (Hyperliquid, ''ETH'', 2), (Hyperliquid, ''SOL'', 3)]"

fun feed_service :: "ws_network \<Rightarrow> MarketDataVenue \<Rightarrow> string \<Rightarrow> WsService \<times> string list" where
  "feed_service net Binance name = (net \<lparr>wss_host = ''data-stream.binance.vision'', wss_port = ''443'',
     wss_target = ''/ws/'' @ name @ ''@bookTicker''\<rparr>, [])"
| "feed_service net Coinbase name = (net \<lparr>wss_host = ''ws-feed.exchange.coinbase.com'', wss_port = ''443'',
     wss_target = ''/''\<rparr>, [coinbase_subscribe name])"
| "feed_service net _ name = (net \<lparr>wss_host = ''api.hyperliquid.xyz'', wss_port = ''443'',
     wss_target = ''/ws''\<rparr>, [hyperliquid_subscribe name])"

fun feed_normalizer :: "MarketDataVenue \<Rightarrow> SymbolId \<Rightarrow> normalizer" where
  "feed_normalizer Binance sid t1 t2 raw = normalize_binance_book_ticker t1 t2 raw sid"
| "feed_normalizer Coinbase sid t1 t2 raw = normalize_coinbase_ticker t1 t2 raw sid"
| "feed_normalizer _ sid t1 t2 raw = normalize_hyperliquid_l2book t1 t2 raw sid"

definition feed_quotes :: "ws_network \<Rightarrow> i32 \<Rightarrow> MarketDataVenue \<times> string \<times> SymbolId \<Rightarrow> NormalizedMarketData list"
where
  "feed_quotes net max_updates = (\<lambda>(v, name, sid). case feed_service net v name of (service, sent) \<Rightarrow>
     if service_ready service sent
     then wanted max_updates 0 (normalized_frames (feed_normalizer v sid) (ws_reads service sent))
     else [])"

lemma hand_on_process_calls: "hand_on process_calls mds calls = calls @ mds"
  by (induction mds arbitrary: calls) (simp_all add: hand_on_def emit_md_def process_calls_def)

lemma outcome_calls:
  "snd (connector_outcome service sent norm max_updates process_calls []) =
     (if service_ready service sent then wanted max_updates 0 (normalized_frames norm (ws_reads service sent))
      else [])"
proof (cases "service_ready service sent")
  case True
  then have "\<not> list_ex (\<lambda>m. ws_write_exception service m \<noteq> None) sent"
    by (auto simp: service_ready_def list_ex_iff list_all_iff)
  with True show ?thesis
    by (simp add: connector_outcome_def service_ready_def hand_on_process_calls Let_def)
qed (simp add: connector_outcome_unready)

lemma stream_calls:
  assumes "\<And>client sent. length (ws_reads (net client) sent) < 2 ^ 31"
  shows "snd (run_binance_stream net name sid max_updates) = feed_quotes net max_updates (Binance, name, sid)"
    and "snd (run_coinbase_stream net name sid max_updates) = feed_quotes net max_updates (Coinbase, name, sid)"
    and "snd (run_hyperliquid_stream net name sid max_updates) = feed_quotes net max_updates (Hyperliquid, name, sid)"
proof -
  have norm: "feed_normalizer Binance sid = (\<lambda>t1 t2 raw. normalize_binance_book_ticker t1 t2 raw sid)"
    "feed_normalizer Coinbase sid = (\<lambda>t1 t2 raw. normalize_coinbase_ticker t1 t2 raw sid)"
    "feed_normalizer Hyperliquid sid = (\<lambda>t1 t2 raw. normalize_hyperliquid_l2book t1 t2 raw sid)"
    by (intro ext, simp)+
  show "snd (run_binance_stream net name sid max_updates) = feed_quotes net max_updates (Binance, name, sid)"
    unfolding run_binance_stream_def connector_runs(1) [OF assms] outcome_calls
    by (simp only: feed_quotes_def prod.case feed_service.simps norm)
  show "snd (run_coinbase_stream net name sid max_updates) = feed_quotes net max_updates (Coinbase, name, sid)"
    unfolding run_coinbase_stream_def connector_runs(2) [OF assms] outcome_calls
    by (simp only: feed_quotes_def prod.case feed_service.simps norm)
  show "snd (run_hyperliquid_stream net name sid max_updates) = feed_quotes net max_updates (Hyperliquid, name, sid)"
    unfolding run_hyperliquid_stream_def connector_runs(3) [OF assms] outcome_calls
    by (simp only: feed_quotes_def prod.case feed_service.simps norm)
qed

lemma live_streams_feeds:
  assumes "\<And>client sent. length (ws_reads (net client) sent) < 2 ^ 31"
  shows "map snd (live_streams getenv net)
    = map (feed_quotes net (env_int getenv ''LLT_MAX_UPDATES_PER_STREAM'' 0)) live_feeds"
  by (simp only: live_streams_def live_feeds_def Let_def list.map stream_calls [OF assms])

text \<open>The updates of a run of the live runtime are the quotes of its feed.\<close>

lemma live_updates_own:
  "live_runtime_schedule feed schedule \<Longrightarrow> live_updates (map snd schedule) = live_updates feed"
proof (induction schedule arbitrary: feed)
  case (Cons x schedule)
  obtain own ev where x: "x = (own, ev)" by (cases x)
  let ?rest = "map snd (filter fst schedule)"
  have "live_runtime_schedule ?rest schedule" using Cons.prems by (simp add: live_runtime_schedule_def)
  note IH = Cons.IH [OF this]
  show ?case
    using Cons.prems IH by (cases own; cases ev) (auto simp: x live_runtime_schedule_def)
qed (simp add: live_runtime_schedule_def)

lemma live_updates_append: "live_updates (evs @ evs') = live_updates evs @ live_updates evs'"
proof (induction evs)
  case (Cons ev evs)
  then show ?case by (cases ev) simp_all
qed simp

lemma live_updates_feed: "live_updates (map LiveUpdate mds) = map nmd_update mds"
  by (induction mds) simp_all

definition live_runtime_feed :: "string list \<Rightarrow> (MarketDataVenue \<times> string \<times> SymbolId) option" where
  "live_runtime_feed argv = (let venue = (if 2 \<le> length argv then argv ! 1 else ''coinbase'')
     in if venue = ''binance'' then Some (Binance, ''btcusdt'', 1)
        else if venue = ''coinbase'' then Some (Coinbase, ''BTC-USD'', 1)
        else if venue = ''hyperliquid'' then Some (Hyperliquid, ''BTC'', 1) else None)"

lemma live_market_data_thread_updates:
  assumes "\<And>client sent. length (ws_reads (net client) sent) < 2 ^ 31"
  shows "live_updates (snd (live_market_data_thread net (if 2 \<le> length argv then argv ! 1 else ''coinbase'')))
    = (case live_runtime_feed argv of None \<Rightarrow> [] | Some feed \<Rightarrow> map nmd_update (feed_quotes net 0 feed))"
proof -
  have calls: "snd (snd (run_binance_live_book_ticker net name 0 process_calls sid []))
      = feed_quotes net 0 (Binance, name, sid)"
    "snd (snd (run_coinbase_live_ticker net name 0 process_calls sid []))
      = feed_quotes net 0 (Coinbase, name, sid)"
    "snd (snd (run_hyperliquid_live_l2book net name 0 process_calls sid []))
      = feed_quotes net 0 (Hyperliquid, name, sid)" for name sid
    using stream_calls [OF assms, where name = name and sid = sid and max_updates = 0]
    by (simp_all add: run_binance_stream_def run_coinbase_stream_def run_hyperliquid_stream_def split_beta)
  have fed: "live_updates (snd (case run of (r, es, mds) \<Rightarrow>
        (es, map LiveUpdate mds @ (if r = None then [] else [LiveShutdown])))) = map nmd_update (snd (snd run))"
    for run :: "bool option \<times> effect list \<times> NormalizedMarketData list"
    by (simp add: split_beta live_updates_append live_updates_feed)
  show ?thesis
    by (simp only: live_market_data_thread_def live_runtime_feed_def Let_def if_distrib [of snd] if_distrib [of live_updates]
        fed calls snd_conv live_updates_simps if_distrib [of "case_option _ _"] option.case)
qed

lemma live_runtime_main_orders:
  assumes "\<And>client sent. length (ws_reads (net client) sent) < 2 ^ 31"
    and "live_runtime_main net argv schedule = Some (code, es, st)"
  shows "list_all (quoted_order (set (case live_runtime_feed argv of None \<Rightarrow> []
      | Some feed \<Rightarrow> map nmd_update (feed_quotes net 0 feed)))) (lr_submitted st)"
proof -
  let ?venue = "if 2 \<le> length argv then argv ! 1 else ''coinbase''"
  have "live_runtime_schedule (snd (live_market_data_thread net ?venue)) schedule"
    and st: "lr_submitted st = lr_submitted (snd (live_runtime_run (map snd schedule) live_runtime_start))"
    using assms(2) by (auto simp: live_runtime_main_def split_beta Let_def split: if_splits)
  from live_updates_own [OF this(1)]
  have "live_updates (map snd schedule) = (case live_runtime_feed argv of None \<Rightarrow> []
      | Some feed \<Rightarrow> map nmd_update (feed_quotes net 0 feed))"
    by (simp only: live_market_data_thread_updates [OF assms(1)])
  with lr_inv_run [OF lr_inv_start, of "map snd schedule" "set (live_updates (map snd schedule))"]
  show ?thesis unfolding st lr_inv_def by simp
qed

text \<open>Every quote of a feed has its venue, its symbol identifier and the source node of the venue.\<close>

definition of_feed :: "MarketDataVenue \<Rightarrow> SymbolId \<Rightarrow> MarketDataUpdate \<Rightarrow> bool" where
  "of_feed v sid u \<longleftrightarrow> hdr_source_node (md_header u) = ucast (venue_byte v) \<and> md_symbol_id u = sid"

lemma make_update_of_feed [simp]:
  "of_feed v sid (make_update t1 t2 v sid symbol bid_px bid_qty ask_px ask_qty seq)"
  by (simp add: of_feed_def make_update_def)

lemma feed_normalizer_of_feed:
  assumes "v \<in> {Binance, Coinbase, Hyperliquid}" and "fst (feed_normalizer v sid t1 t2 raw) = Some md"
  shows "of_feed v sid (nmd_update md)"
proof -
  have "fst (normalize_binance_book_ticker t1 t2 raw sid) = Some md \<Longrightarrow> of_feed Binance sid (nmd_update md)"
    "fst (normalize_coinbase_ticker t1 t2 raw sid) = Some md \<Longrightarrow> of_feed Coinbase sid (nmd_update md)"
    "fst (normalize_hyperliquid_l2book t1 t2 raw sid) = Some md \<Longrightarrow> of_feed Hyperliquid sid (nmd_update md)"
    by (auto simp: normalize_binance_book_ticker_def normalize_coinbase_ticker_def
        normalize_hyperliquid_l2book_def Let_def split: option.splits if_splits)
  with assms show ?thesis by auto
qed

lemma feed_quotes_of_feed:
  assumes "v \<in> {Binance, Coinbase, Hyperliquid}"
  shows "list_all (\<lambda>md. of_feed v sid (nmd_update md)) (feed_quotes net max_updates (v, name, sid))"
proof -
  have "list_all (\<lambda>md. of_feed v sid (nmd_update md)) (normalized_frames (feed_normalizer v sid) reads)" for reads
    using feed_normalizer_of_feed [OF assms]
    by (auto simp: normalized_frames_def List.map_filter_def list_all_iff)
  then show ?thesis
    by (auto simp: feed_quotes_def wanted_def list_all_iff split: prod.split dest: in_set_takeD)
qed

lemma of_feed_unique: "of_feed v sid u \<Longrightarrow> of_feed v' sid' u \<Longrightarrow> v = v' \<and> sid = sid'"
  by (cases v; cases v'; simp add: of_feed_def)

lemma live_feeds_distinct: "distinct (map (\<lambda>(v, _, sid). (v, sid)) live_feeds)"
  by (simp add: live_feeds_def)

lemma live_feeds_venues: "list_all (\<lambda>(v, _, sid). v \<in> {Binance, Coinbase, Hyperliquid}) live_feeds"
  by (simp add: live_feeds_def)

lemma live_feeds_nth:
  assumes "i < length live_feeds" and "j < length live_feeds"
    and "live_feeds ! i = (v, name, sid)" and "live_feeds ! j = (v, name', sid)"
  shows "i = j"
  using nth_eq_iff_index_eq [OF live_feeds_distinct, of i j] assms by simp

text \<open>The calls of one feed, picked out of a schedule by venue and symbol.\<close>

lemma schedule_feed:
  assumes "live_schedule streams schedule"
    and "map snd streams = map (feed_quotes net max_updates) live_feeds"
    and "i < length live_feeds" and "live_feeds ! i = (v, name, sid)"
  shows "filter (\<lambda>md. of_feed v sid (nmd_update md)) (map (\<lambda>(_, _, md). md) schedule)
    = feed_quotes net max_updates (v, name, sid)"
proof -
  have len: "length streams = length live_feeds" using arg_cong [OF assms(2), of length] by simp
  have stream: "snd (streams ! j) = feed_quotes net max_updates (live_feeds ! j)" if "j < length live_feeds" for j
    using arg_cong [OF assms(2), of "\<lambda>xs. xs ! j"] that len by simp
  have "of_feed v sid (nmd_update md) = (j = i)" if call: "(j, env, md) \<in> set schedule" for j env md
  proof -
    have j: "j < length live_feeds" using assms(1) call len by (auto simp: live_schedule_def list_all_iff)
    obtain v' name' sid' where feed: "live_feeds ! j = (v', name', sid')" by (metis prod_cases3)
    have "md \<in> set (map (\<lambda>(_, _, md). md) (filter (\<lambda>(k, _). k = j) schedule))"
      using call by force
    moreover have "map (\<lambda>(_, _, md). md) (filter (\<lambda>(k, _). k = j) schedule)
        = feed_quotes net max_updates (v', name', sid')"
      using assms(1) j len stream [OF j] feed by (simp add: live_schedule_def)
    ultimately have "md \<in> set (feed_quotes net max_updates (v', name', sid'))" by (simp only:)
    moreover have "v' \<in> {Binance, Coinbase, Hyperliquid}"
      using live_feeds_venues nth_mem [OF j] feed by (auto simp: list_all_iff)
    ultimately have "of_feed v' sid' (nmd_update md)"
      using feed_quotes_of_feed by (force simp: list_all_iff)
    then show ?thesis
      using of_feed_unique live_feeds_nth [OF assms(3) j assms(4)] feed assms(4) by auto
  qed
  then have "filter (\<lambda>md. of_feed v sid (nmd_update md)) (map (\<lambda>(_, _, md). md) schedule)
      = map (\<lambda>(_, _, md). md) (filter (\<lambda>(j, _). j = i) schedule)"
    by (auto simp: filter_map o_def split_beta intro!: arg_cong [of _ _ "map _"] filter_cong)
  with assms(1,3,4) len stream [of i] show ?thesis by (simp add: live_schedule_def)
qed

text \<open>What is admitted is a prefix of the valid updates, the whole without halt file and limit.\<close>

lemma live_accepted_prefix: "\<exists>k. live_accepted limit routes calls = filter valid_nmd (take k (map snd calls))"
proof (induction calls arbitrary: routes)
  case Nil
  then show ?case by simp
next
  case (Cons c calls)
  obtain env md where c: "c = (env, md)" by (cases c)
  obtain k where "live_accepted limit (routes + 2) calls = filter valid_nmd (take k (map snd calls))"
    using Cons.IH by blast
  moreover obtain k' where "live_accepted limit routes calls = filter valid_nmd (take k' (map snd calls))"
    using Cons.IH by blast
  ultimately show ?case
    by (cases "le_halt env \<or> limit < routes")
       (auto simp: c intro: exI [of _ 0] exI [of _ "Suc k"] exI [of _ "Suc k'"])
qed

lemma live_accepted_all:
  assumes "list_all (\<lambda>(env, md). \<not> le_halt env) calls" and "length (filter valid_nmd (map snd calls)) \<le> 500001"
  shows "live_accepted 1000000 0 calls = filter valid_nmd (map snd calls)"
proof -
  have "filter (\<lambda>(env, md). valid_nmd md) calls = filter (\<lambda>c. valid_nmd (snd c)) calls"
    by (intro filter_cong) auto
  then have "length (live_accepted 1000000 0 calls) = length (filter valid_nmd (map snd calls))"
    using length_live_accepted [OF assms(1), of 1000000 0] assms(2) by (simp add: filter_map o_def)
  moreover obtain k where k: "live_accepted 1000000 0 calls = filter valid_nmd (take k (map snd calls))"
    using live_accepted_prefix by blast
  moreover have "filter valid_nmd (map snd calls)
      = filter valid_nmd (take k (map snd calls)) @ filter valid_nmd (drop k (map snd calls))"
    by (metis append_take_drop_id filter_append)
  ultimately show ?thesis by (metis append_Nil2 append_eq_conv_conj take_all_iff le_refl)
qed

text \<open>The market data of a recording.\<close>

definition recorded_quotes :: "Envelope list \<Rightarrow> MarketDataUpdate list" where
  "recorded_quotes es = List.map_filter (\<lambda>e. payload_market_data (env_payload e)) es"

lemma recorded_quotes_append: "recorded_quotes (es @ fs) = recorded_quotes es @ recorded_quotes fs"
  by (simp add: recorded_quotes_def List.map_filter_def)

lemma recorded_quotes_triples:
  assumes "length trips = length acc" and "\<And>i. i < length acc \<Longrightarrow> live_triple (us i) (acc ! i) (trips ! i)"
  shows "recorded_quotes (concat trips) = map nmd_update acc"
  using assms
proof (induction trips acc arbitrary: us rule: list_induct2)
  case Nil
  then show ?case by (simp add: recorded_quotes_def map_filter_simps)
next
  case (Cons trip trips md acc)
  have "live_triple (us 0) md trip" using Cons.prems [of 0] by simp
  then have "recorded_quotes trip = [nmd_update md]"
    by (auto simp: live_triple_def recorded_quotes_def map_filter_simps market_data_env_def signal_env_def)
  moreover have "recorded_quotes (concat trips) = map nmd_update acc"
    using Cons.IH [of "us \<circ> Suc"] Cons.prems by force
  ultimately show ?case by (simp add: recorded_quotes_append)
qed

lemma feed_normalizer_message:
  assumes "fst (feed_normalizer v sid t1 t2 raw) = Some md"
  shows "is_message (market_data_env (nmd_update md))"
proof -
  have made: "is_message (market_data_env (make_update t1 t2 v sid symbol bp bs ap as seq))" for t1 t2 v sid symbol bp bs ap as seq
    by (simp add: is_message_def make_update_def message_defaults)
  have "fst (normalize_binance_book_ticker t1 t2 raw sid) = Some md \<Longrightarrow> ?thesis"
    "fst (normalize_coinbase_ticker t1 t2 raw sid) = Some md \<Longrightarrow> ?thesis"
    "fst (normalize_hyperliquid_l2book t1 t2 raw sid) = Some md \<Longrightarrow> ?thesis"
    by (auto simp: normalize_binance_book_ticker_def normalize_coinbase_ticker_def made
        normalize_hyperliquid_l2book_def Let_def split: option.splits if_splits)
  with assms show ?thesis by (cases v) auto
qed

definition live_env_complete :: "LiveEnv \<Rightarrow> bool" where
  "live_env_complete env \<longleftrightarrow> live_env_ok env \<and> (\<forall>bs. mset (le_visit env bs) = mset bs)"

lemma schedule_calls_ok:
  assumes "live_schedule streams schedule"
    and "map snd streams = map (feed_quotes net max_updates) live_feeds"
    and "list_all (\<lambda>(_, env, _). live_env_complete env) schedule"
  shows "list_all live_call_ok (map snd schedule)"
proof -
  have len: "length streams = length live_feeds" using arg_cong [OF assms(2), of length] by simp
  have "is_message (market_data_env (nmd_update md))" if call: "(j, env, md) \<in> set schedule" for j env md
  proof -
    have j: "j < length live_feeds" using assms(1) call len by (auto simp: live_schedule_def list_all_iff)
    obtain v name sid where feed: "live_feeds ! j = (v, name, sid)" by (metis prod_cases3)
    have "md \<in> set (map (\<lambda>(_, _, md). md) (filter (\<lambda>(k, _). k = j) schedule))"
      using call by force
    also have "map (\<lambda>(_, _, md). md) (filter (\<lambda>(k, _). k = j) schedule) = feed_quotes net max_updates (v, name, sid)"
      using assms(1) j len arg_cong [OF assms(2), of "\<lambda>xs. xs ! j"] feed by (simp add: live_schedule_def)
    finally have "\<exists>reads. md \<in> set (normalized_frames (feed_normalizer v sid) reads)"
      by (auto simp: feed_quotes_def wanted_def split: if_splits prod.splits dest: in_set_takeD)
    then show ?thesis
      using feed_normalizer_message by (auto simp: normalized_frames_def List.map_filter_def)
  qed
  with assms(3) show ?thesis
    by (fastforce simp: list_all_iff live_call_ok_def live_env_complete_def)
qed

text \<open>
  C17.  From the web sockets to the recordings of the live router: for every schedule of the nine feed
  threads, the quotes of a venue and symbol in the replay log are a prefix of the valid quotes among the
  frames its service sent, in the order it sent them, and all of them unless a halt file or the route
  limit stopped the session; the journal has the same quotes.
\<close>

theorem live_session_frames:
  assumes "live_multi_venue_router getenv net fd True schedule old [] = Some (es, st)"
    and "\<And>client sent. length (ws_reads (net client) sent) < 2 ^ 31"
    and "list_all (\<lambda>(_, env, _). live_env_complete env) schedule"
    and "0 \<le> fd" and "2 * length schedule + 2 < 2 ^ 64" and "(v, name, sid) \<in> set live_feeds"
  shows "let recorded = filter (of_feed v sid) (recorded_quotes
               (map replay_envelope (replay_events (rw_file (ls_replay st)))));
             journaled = filter (of_feed v sid) (recorded_quotes
               (map jr_envelope (fst (journal_read_all (Some (jw_file (ls_journal st)))))));
             sent = map nmd_update (filter valid_nmd (feed_quotes net
               (env_int getenv ''LLT_MAX_UPDATES_PER_STREAM'' 0) (v, name, sid)))
         in prefix recorded sent \<and> journaled = recorded
          \<and> (list_all (\<lambda>(_, env, _). \<not> le_halt env) schedule \<and> length schedule \<le> 500001 \<longrightarrow> recorded = sent)"
proof -
  let ?calls = "map snd schedule" and ?max = "env_int getenv ''LLT_MAX_UPDATES_PER_STREAM'' 0"
  let ?acc = "live_accepted 1000000 0 ?calls"
  have sched: "live_schedule (live_streams getenv net) schedule" and run: "live_main fd True ?calls old [] = (es, st)"
    using assms(1) by (simp_all add: live_multi_venue_router_def split: if_splits)
  note feeds = live_streams_feeds [OF assms(2), of getenv]
  have "list_all live_call_ok ?calls" by (rule schedule_calls_ok [OF sched feeds assms(3)])
  from live_session_logs [OF this assms(4) _ run] assms(5)
  obtain trips where logs: "map replay_envelope (replay_events (rw_file (ls_replay st))) = concat trips"
    "map jr_envelope (fst (journal_read_all (Some (jw_file (ls_journal st))))) = concat trips"
    and trips: "length trips = length ?acc"
    "\<forall>i<length ?acc. live_triple (take (Suc i) ?acc) (?acc ! i) (trips ! i)"
    by (auto simp: Let_def)
  have quotes: "recorded_quotes (concat trips) = map nmd_update ?acc"
    by (rule recorded_quotes_triples [OF trips(1), where us = "\<lambda>i. take (Suc i) ?acc"]) (use trips(2) in blast)
  let ?P = "\<lambda>md. of_feed v sid (nmd_update md)"
  obtain i where i: "i < length live_feeds" "live_feeds ! i = (v, name, sid)"
    using assms(6) by (auto simp: in_set_conv_nth)
  have calls: "map snd ?calls = map (\<lambda>(_, _, md). md) schedule" by (simp add: split_beta)
  then have feed: "filter ?P (map snd ?calls) = feed_quotes net ?max (v, name, sid)"
    using schedule_feed [OF sched feeds i] by (simp only:)
  have swap: "filter ?P (filter valid_nmd mds) = filter valid_nmd (filter ?P mds)" for mds
    by (simp add: conj_commute)
  have recorded: "filter (of_feed v sid) (recorded_quotes (concat trips)) = map nmd_update (filter ?P ?acc)"
    by (simp add: quotes filter_map o_def)
  obtain k where k: "?acc = filter valid_nmd (take k (map snd ?calls))" using live_accepted_prefix by blast
  have "prefix (filter ?P ?acc) (filter valid_nmd (filter ?P (map snd ?calls)))"
    unfolding k swap by (intro filter_mono_prefix take_is_prefix)
  then have "prefix (map nmd_update (filter ?P ?acc)) (map nmd_update (filter valid_nmd (feed_quotes net ?max (v, name, sid))))"
    unfolding feed by (rule map_mono_prefix)
  moreover have "filter ?P ?acc = filter valid_nmd (feed_quotes net ?max (v, name, sid))"
    if "list_all (\<lambda>(_, env, _). \<not> le_halt env) schedule" "length schedule \<le> 500001"
  proof -
    have "list_all (\<lambda>(env, md). \<not> le_halt env) ?calls"
      using that(1) by (fastforce simp: list_all_iff)
    moreover have "length (filter valid_nmd (map snd ?calls)) \<le> 500001"
      using length_filter_le [of valid_nmd "map snd ?calls"] that(2) by (simp only: length_map)
    ultimately show ?thesis
      by (simp only: live_accepted_all swap feed)
  qed
  ultimately show ?thesis
    by (simp add: logs recorded Let_def)
qed

text \<open>One venue answers, for one symbol.\<close>

definition sample_venue :: ws_network where
  "sample_venue client =
     (if wss_target client = ''/ws/btcusdt@bookTicker'' then sample_feed client
      else (sample_feed client)\<lparr>ws_handshake_answer := WsSniFailed\<rparr>)"

lemma live_streams_returned:
  assumes "\<And>client sent. length (ws_reads (net client) sent) < 2 ^ 31"
    and "\<And>client sent. ws_broken (ws_reads (net client) sent)"
  shows "list_all (\<lambda>s. fst s \<noteq> None) (live_streams getenv net)"
proof -
  have "fst (connector_outcome (net client) sent norm max_updates callback s) \<noteq> None" for client sent norm max_updates callback and s :: 's
    by (auto simp: connector_outcome_def Let_def assms(2))
  then have "fst (run_binance_stream net name sid m) \<noteq> None" "fst (run_coinbase_stream net name sid m) \<noteq> None"
    "fst (run_hyperliquid_stream net name sid m) \<noteq> None" for name sid m
    by (simp_all add: run_binance_stream_def run_coinbase_stream_def run_hyperliquid_stream_def
        connector_runs [OF assms(1)])
  then show ?thesis
    by (simp only: live_streams_def Let_def list.pred_inject simp_thms)
qed

theorem live_session_frames_witness:
  "\<exists>schedule es st. live_multi_venue_router (\<lambda>_. None) sample_venue 3 True schedule [] [] = Some (es, st)
     \<and> map md_exchange_sequence (filter (of_feed Binance 1) (recorded_quotes
           (map replay_envelope (replay_events (rw_file (ls_replay st)))))) = [7, 8, 9]"
proof -
  let ?net = sample_venue and ?getenv = "\<lambda>_. None :: string option"
  let ?mds = "feed_quotes ?net 0 (Binance, ''btcusdt'', 1)"
  let ?schedule = "map (\<lambda>md. (0 :: nat, sample_env, md)) ?mds"
  have bound: "length (ws_reads (?net client) sent) < 2 ^ 31"
    and broken: "ws_broken (ws_reads (?net client) sent)" for client sent
    by (simp_all add: sample_venue_def sample_feed_def ws_broken_def)
  have max: "env_int ?getenv name 0 = 0" for name by (simp add: env_int_def)
  have quotes: "map (feed_quotes ?net 0) live_feeds = [?mds, [], [], [], [], [], [], [], []]"
    by (simp add: live_feeds_def feed_quotes_def sample_venue_def sample_feed_def service_ready_def)
  have streams: "map snd (live_streams ?getenv ?net) = map (feed_quotes ?net 0) live_feeds"
    using live_streams_feeds [OF bound, of ?getenv] by (simp only: max)
  have sched: "live_schedule (live_streams ?getenv ?net) ?schedule"
  proof -
    have len: "length (live_streams ?getenv ?net) = 9" by (simp add: live_streams_def Let_def)
    have "snd (live_streams ?getenv ?net ! i) = (if i = 0 then ?mds else [])" if "i < 9" for i
    proof -
      have "snd (live_streams ?getenv ?net ! i) = [?mds, [], [], [], [], [], [], [], []] ! i"
        using arg_cong [OF trans [OF streams quotes], of "\<lambda>xs. xs ! i"] that len by (simp only: nth_map)
      also have "\<dots> = (if i = 0 then ?mds else [])"
        using that by (auto simp: nth_Cons' less_Suc_eq)
      finally show ?thesis .
    qed
    moreover have "map (\<lambda>(_, _, md). md) (filter (\<lambda>(j, _). j = i) ?schedule) = (if i = 0 then ?mds else [])" for i
      by (auto simp: filter_map o_def)
    moreover have "fst (live_streams ?getenv ?net ! i) \<noteq> None" if "i < 9" for i
      using live_streams_returned [where net = ?net and getenv = ?getenv, OF bound broken] that len
      unfolding list_all_length len by blast
    moreover have "list_all (\<lambda>(j, _). j < (9 :: nat)) ?schedule" by (simp add: list_all_iff)
    ultimately show ?thesis
      unfolding live_schedule_def len by (intro conjI allI impI) (simp_all only: simp_thms not_False_eq_True)
  qed
  obtain es st where run: "live_multi_venue_router ?getenv ?net 3 True ?schedule [] [] = Some (es, st)"
    using sched by (cases "live_main 3 True (map snd ?schedule) [] []") (simp add: live_multi_venue_router_def)
  have frames: "map md_exchange_sequence (map nmd_update (filter valid_nmd ?mds)) = [7, 8, 9] \<and> length ?mds = 3"
  proof -
    have "parse_price_to_ticks ''101.50'' 100 = 10150" "parse_price_to_ticks ''101.75'' 100 = 10175"
      "parse_price_to_ticks ''101.25'' 100 = 10125" "parse_price_to_ticks ''101.00'' 100 = 10100"
      by code_simp+
    then show ?thesis
      by (simp add: feed_quotes_def sample_venue_def sample_feed_def service_ready_def wanted_def
          sample_junk sample_ticker sample_texts valid_nmd_def valid_quote_def make_update_def)
  qed
  have "list_all (\<lambda>(_, env, _). live_env_complete env) ?schedule"
    "list_all (\<lambda>(_, env, _). \<not> le_halt env) ?schedule"
    by (simp_all add: list_all_iff live_env_complete_def live_env_ok_def sample_env_def)
  moreover have "(Binance, ''btcusdt'', 1) \<in> set live_feeds" by (simp add: live_feeds_def)
  moreover have "2 * length ?schedule + 2 < 2 ^ 64" "length ?schedule \<le> 500001"
    using frames by simp_all
  ultimately show ?thesis
    using live_session_frames [OF run bound, of Binance "''btcusdt''" 1] run frames
    by (intro exI [of _ ?schedule] exI [of _ es] exI [of _ st]) (simp add: Let_def max)
qed

end
