(* ===== verification/Itch_Feed.thy ===== *)
theory Itch_Feed
  imports Market_Data_Adapter Effects
begin

text \<open>
  The simulated ITCH feed: the generator of apps/itch_feed_generator.cpp sends lines over a socket, the
  reader of apps/itch_live_md.cpp cuts what it receives at newlines and prints the quotes.  What the
  system calls answer is an argument; \<open>clock\<close> gives the two readings for each line.
\<close>

section \<open>The generator\<close>

definition NEWLINE :: char where "NEWLINE = CHR 0x0A"

definition itch_feed_line :: "nat \<Rightarrow> string" where
  "itch_feed_line i =
     (let seq = 1000 + int i; bid = 42125 + int i; ask = bid + 1
      in ''Q|'' @ show_int seq @ ''|MSFT|'' @ show_int bid @ ''|300|'' @ show_int ask @ ''|400'' @ [NEWLINE])"

text \<open>
  The result of \<open>send\<close> is not looked at: what the system takes of a line is on the wire (nothing when
  it fails), and the next line follows.
\<close>

definition itch_feed_wire :: "(nat \<Rightarrow> int) \<Rightarrow> string" where
  "itch_feed_wire sends = concat (map (\<lambda>i. take (nat (sends i)) (itch_feed_line i)) [0..<20])"

definition itch_feed_generator :: "int \<Rightarrow> int \<Rightarrow> (nat \<Rightarrow> int) \<Rightarrow> nat \<times> effect list \<times> string" where
  "itch_feed_generator bind_result client sends =
     (if bind_result < 0 then (1, [Log Error ''itch_gen'' ''bind failed''], [])
      else let listening = Log Info ''itch_gen'' ''listening on 127.0.0.1:19191''
        in if client < 0 then (1, [listening, Log Error ''itch_gen'' ''accept failed''], [])
           else (0, [listening] @ replicate 20 (Log Info ''itch_gen'' ''sent ITCH-style quote line'')
                 @ [Log Info ''itch_gen'' ''stopped''], itch_feed_wire sends))"

section \<open>The reader\<close>

definition itch_quote_line :: "NormalizedMarketData \<Rightarrow> string option" where
  "itch_quote_line md = (let u = nmd_update md in
     map_option (\<lambda>sym. ''venue='' @ to_string_venue (nmd_venue md) @ '' symbol='' @ sym
       @ '' seq='' @ show_nat (unat (md_exchange_sequence u))
       @ '' bid='' @ show_int (sint (md_bid_px u)) @ '' ask='' @ show_int (sint (md_ask_px u)))
     (Symbol_str (md_symbol u)))"

definition itch_show :: "NormalizedMarketData option \<Rightarrow> effect list" where
  "itch_show md = (case md of None \<Rightarrow> []
     | Some m \<Rightarrow> map Stdout (case_option [] (\<lambda>l. [l]) (itch_quote_line m))
         @ [Log Info ''itch_live'' ''normalized live ITCH-style quote''])"

text \<open>
  The inner loop; \<open>k\<close> counts the lines.  It gives the effects up to its end and what ends it: an
  exception of the normalizer, which nothing catches, or a buffer without newline.
\<close>

function itch_drain ::
  "(nat \<Rightarrow> TimestampNs \<times> TimestampNs) \<Rightarrow> nat \<Rightarrow> string \<Rightarrow> effect list \<times> (number_error + nat \<times> string)" where
  "itch_drain clock k buffer =
     (case find_first [NEWLINE] buffer of
        None \<Rightarrow> ([], Inr (k, buffer))
      | Some pos \<Rightarrow>
          let line = substr 0 pos buffer; buffer' = drop (pos + 1) buffer
          in case normalize_simulated_itch_quote (fst (clock k)) (snd (clock k)) line 4 of
            Inl e \<Rightarrow> ([], Inl e)
          | Inr (md, es) \<Rightarrow>
              (let (fs, r) = itch_drain clock (Suc k) buffer' in (es @ itch_show md @ fs, r)))"
  by auto

termination itch_drain
  by (relation "measure (\<lambda>(_, _, buffer). length buffer)") (auto dest: find_first_bound)

declare itch_drain.simps [simp del]

text \<open>
  The outer loop over what \<open>recv\<close> gives, at most 256 characters each; an empty chunk stands for an
  answer of 0 or less, and so does the end of the list.
\<close>

fun itch_read ::
  "(nat \<Rightarrow> TimestampNs \<times> TimestampNs) \<Rightarrow> nat \<Rightarrow> string \<Rightarrow> string list \<Rightarrow> effect list \<times> number_error option"
where
  "itch_read clock k buffer [] = ([], None)"
| "itch_read clock k buffer (chunk # chunks) =
     (if chunk = [] then ([], None)
      else case itch_drain clock k (buffer @ chunk) of
        (es, Inl e) \<Rightarrow> (es, Some e)
      | (es, Inr (k', buffer')) \<Rightarrow>
          (let (fs, r) = itch_read clock k' buffer' chunks in (es @ fs, r)))"

text \<open>The exit code is \<open>Inl\<close> the exception when the program is terminated by one.\<close>

definition itch_live_md ::
  "(nat \<Rightarrow> TimestampNs \<times> TimestampNs) \<Rightarrow> int \<Rightarrow> string list \<Rightarrow> (number_error + nat) \<times> effect list" where
  "itch_live_md clock connect_result chunks =
     (if connect_result < 0 then (Inr 1, [Log Error ''itch_live'' ''connect failed''])
      else case itch_read clock 0 [] chunks of
        (es, Some e) \<Rightarrow> (Inl e, es)
      | (es, None) \<Rightarrow> (Inr 0, es @ [Log Info ''itch_live'' ''stopped'']))"

section \<open>The reader sees lines, not chunks\<close>

text \<open>The reference: complete lines and the rest, and the effects of a list of lines.\<close>

fun complete_lines :: "string \<Rightarrow> string list \<times> string" where
  "complete_lines [] = ([], [])"
| "complete_lines (c # cs) =
     (let (ls, rest) = complete_lines cs
      in if c = NEWLINE then ([] # ls, rest)
         else case ls of [] \<Rightarrow> ([], c # rest) | l # ls' \<Rightarrow> ((c # l) # ls', rest))"

fun itch_lines ::
  "(nat \<Rightarrow> TimestampNs \<times> TimestampNs) \<Rightarrow> nat \<Rightarrow> string list \<Rightarrow> effect list \<times> number_error option" where
  "itch_lines clock k [] = ([], None)"
| "itch_lines clock k (line # lines) =
     (case normalize_simulated_itch_quote (fst (clock k)) (snd (clock k)) line 4 of
        Inl e \<Rightarrow> ([], Some e)
      | Inr (md, es) \<Rightarrow>
          (let (fs, r) = itch_lines clock (Suc k) lines in (es @ itch_show md @ fs, r)))"

lemma complete_lines_plain: "NEWLINE \<notin> set s \<Longrightarrow> complete_lines s = ([], s)"
  by (induction s) auto

lemma complete_lines_line:
  "NEWLINE \<notin> set l \<Longrightarrow> complete_lines (l @ NEWLINE # s)
     = (l # fst (complete_lines s), snd (complete_lines s))"
  by (induction l) (auto simp: split_beta Let_def)

lemma find_newline:
  "find_first [NEWLINE] s = (if NEWLINE \<in> set s then Some (length (takeWhile (\<lambda>c. c \<noteq> NEWLINE) s)) else None)"
  by (induction s) auto

lemma split_at_newline:
  assumes "NEWLINE \<in> set s"
  obtains l s' where "s = l @ NEWLINE # s'" and "NEWLINE \<notin> set l"
  using split_list_first [OF assms] by blast

lemma complete_lines_append:
  "complete_lines (s @ t) = (fst (complete_lines s) @ fst (complete_lines (snd (complete_lines s) @ t)),
     snd (complete_lines (snd (complete_lines s) @ t)))"
proof (induction s rule: length_induct)
  case (1 s)
  show ?case
  proof (cases "NEWLINE \<in> set s")
    case True
    then obtain l s' where "s = l @ NEWLINE # s'" and "NEWLINE \<notin> set l" by (rule split_at_newline)
    with 1 show ?thesis by (simp add: complete_lines_line)
  next
    case False
    then show ?thesis by (simp add: complete_lines_plain)
  qed
qed

lemma itch_lines_append:
  "itch_lines clock k (ls @ ms) =
     (case itch_lines clock k ls of
        (es, Some e) \<Rightarrow> (es, Some e)
      | (es, None) \<Rightarrow> (es @ fst (itch_lines clock (k + length ls) ms), snd (itch_lines clock (k + length ls) ms)))"
  by (induction ls arbitrary: k)
     (auto simp: split_beta Let_def split: sum.splits prod.splits option.splits)

lemma itch_drain_lines:
  "itch_drain clock k buffer =
     (case itch_lines clock k (fst (complete_lines buffer)) of
        (es, Some e) \<Rightarrow> (es, Inl e)
      | (es, None) \<Rightarrow> (es, Inr (k + length (fst (complete_lines buffer)), snd (complete_lines buffer))))"
proof (induction buffer arbitrary: k rule: length_induct)
  case (1 buffer)
  show ?case
  proof (cases "NEWLINE \<in> set buffer")
    case True
    then obtain l s where s: "buffer = l @ NEWLINE # s" "NEWLINE \<notin> set l" by (rule split_at_newline)
    then have "takeWhile (\<lambda>c. c \<noteq> NEWLINE) buffer = l" by (auto intro: takeWhile_stop)
    with s have pos: "find_first [NEWLINE] buffer = Some (length l)" by (simp add: find_newline)
    have IH: "itch_drain clock (Suc k) s =
      (case itch_lines clock (Suc k) (fst (complete_lines s)) of
        (es, Some e) \<Rightarrow> (es, Inl e)
      | (es, None) \<Rightarrow> (es, Inr (Suc k + length (fst (complete_lines s)), snd (complete_lines s))))"
      using 1 s by simp
    have cut: "substr 0 (length l) buffer = l" "drop (length l + 1) buffer = s"
      "complete_lines buffer = (l # fst (complete_lines s), snd (complete_lines s))"
      using s by (simp_all add: substr_def complete_lines_line)
    show ?thesis
      unfolding itch_drain.simps [of clock k buffer] pos cut option.case Let_def fst_conv
      using IH by (auto split: sum.split prod.splits option.splits)
  next
    case False
    then show ?thesis
      by (subst itch_drain.simps) (simp add: find_newline complete_lines_plain)
  qed
qed

lemma itch_read_lines:
  assumes "[] \<notin> set chunks" and "NEWLINE \<notin> set buffer"
  shows "itch_read clock k buffer chunks = itch_lines clock k (fst (complete_lines (buffer @ concat chunks)))"
  using assms
proof (induction chunks arbitrary: k buffer)
  case Nil
  then show ?case by (simp add: complete_lines_plain)
next
  case (Cons chunk chunks)
  let ?cl = "complete_lines (buffer @ chunk)"
  have rest: "NEWLINE \<notin> set (snd (complete_lines s))" for s
    by (induction s) (auto simp: split_beta Let_def split: list.splits)
  have "complete_lines (buffer @ concat (chunk # chunks))
      = (fst ?cl @ fst (complete_lines (snd ?cl @ concat chunks)), snd (complete_lines (snd ?cl @ concat chunks)))"
    using complete_lines_append [of "buffer @ chunk" "concat chunks"] by simp
  then show ?case
    using Cons.prems Cons.IH [OF _ rest, of "k + length (fst ?cl)" "buffer @ chunk"]
    by (auto simp: itch_drain_lines itch_lines_append split_beta Let_def split: option.splits prod.splits)
qed

lemma itch_read_done:
  "itch_lines clock 0 ls = (es, None) \<Longrightarrow> [] \<notin> set chunks \<Longrightarrow>
   concat chunks = concat (map (\<lambda>l. l @ [NEWLINE]) ls) \<Longrightarrow> list_all (\<lambda>l. NEWLINE \<notin> set l) ls \<Longrightarrow>
   itch_read clock 0 [] chunks = (es, None)"
proof -
  assume run: "itch_lines clock 0 ls = (es, None)" and chunks: "[] \<notin> set chunks"
    "concat chunks = concat (map (\<lambda>l. l @ [NEWLINE]) ls)" and plain: "list_all (\<lambda>l. NEWLINE \<notin> set l) ls"
  have "complete_lines (concat (map (\<lambda>l. l @ [NEWLINE]) ls)) = (ls, [])"
    using plain by (induction ls) (simp_all add: complete_lines_line)
  then show ?thesis
    using itch_read_lines [OF chunks(1), of "[]" clock 0] run chunks(2) by simp
qed

section \<open>From the generator to the printed quotes\<close>

definition itch_feed_quote :: "nat \<Rightarrow> string" where
  "itch_feed_quote i = itch_line (of_nat (1000 + i)) ''MSFT'' (of_nat (42125 + i)) 300 (of_nat (42126 + i)) 400"

lemma itch_feed_line_quote:
  assumes "i < 20"
  shows "itch_feed_line i = itch_feed_quote i @ [NEWLINE]"
proof -
  have "unat (of_nat (1000 + i) :: Sequence) = 1000 + i"
    using assms by (simp add: unat_of_nat_u64 del: of_nat_add)
  moreover have "sint (of_nat (42125 + i) :: s64) = 42125 + int i" "sint (of_nat (42126 + i) :: s64) = 42126 + int i"
    using assms by (simp_all add: s64_of_nat del: of_nat_add)
  moreover have "show_nat 300 = ''300''" "show_nat 400 = ''400''" by code_simp+
  ultimately show ?thesis
    by (simp add: itch_feed_line_def itch_feed_quote_def itch_line_def show_int_def nat_add_distrib Let_def)
qed

definition itch_feed_shown :: "nat \<Rightarrow> effect list" where
  "itch_feed_shown i =
     [Stdout (''venue=SimulatedItch symbol=MSFT seq='' @ show_nat (1000 + i)
        @ '' bid='' @ show_nat (42125 + i) @ '' ask='' @ show_nat (42126 + i)),
      Log Info ''itch_live'' ''normalized live ITCH-style quote'']"

lemma itch_show_feed_quote:
  assumes "i < 20"
  shows "normalize_simulated_itch_quote t1 t2 (itch_feed_quote i) 4 = Inr (Some md, es) \<Longrightarrow>
    es @ itch_show (Some md) = itch_feed_shown i"
proof -
  assume "normalize_simulated_itch_quote t1 t2 (itch_feed_quote i) 4 = Inr (Some md, es)"
  then have md: "md = \<lparr>nmd_venue = SimulatedItch, nmd_update = make_update t1 t2 SimulatedItch 4 ''MSFT''
      (of_nat (42125 + i)) 300 (of_nat (42126 + i)) 400 (of_nat (1000 + i))\<rparr>" and "es = []"
    by (simp_all add: itch_feed_quote_def itch_roundtrip del: of_nat_add)
  moreover have "unat (of_nat (1000 + i) :: Sequence) = 1000 + i"
    using assms by (simp add: unat_of_nat_u64 del: of_nat_add)
  moreover have "sint (of_nat (42125 + i) :: s64) = int (42125 + i)"
    "sint (of_nat (42126 + i) :: s64) = int (42126 + i)"
    using assms by (simp_all add: s64_of_nat del: of_nat_add)
  moreover have "Symbol_str (Symbol_of ''MSFT'') = Some ''MSFT''"
  proof -
    have "NUL \<notin> set ''MSFT''" by code_simp
    from Symbol_str_Symbol_of [OF this] show ?thesis by simp
  qed
  ultimately show ?thesis
    by (simp add: itch_show_def itch_quote_line_def make_update_def itch_feed_shown_def show_int_def
        Let_def nat_add_distrib del: of_nat_add)
qed

lemma itch_lines_feed:
  "list_all (\<lambda>i. i < 20) is \<Longrightarrow>
   itch_lines clock k (map itch_feed_quote is) = (concat (map itch_feed_shown is), None)"
proof (induction "is" arbitrary: k)
  case (Cons i "is")
  obtain md where "normalize_simulated_itch_quote (fst (clock k)) (snd (clock k)) (itch_feed_quote i) 4
      = Inr (Some md, [])"
    by (simp add: itch_feed_quote_def itch_roundtrip)
  with Cons itch_show_feed_quote [OF _ this] show ?case by simp
qed simp

lemma itch_feed_quote_plain: "NEWLINE \<notin> set (itch_feed_quote i)"
  using show_nat_digits [of NEWLINE]
  by (auto simp: itch_feed_quote_def itch_line_def show_int_def NEWLINE_def is_digit_def)

text \<open>
  C18.  From the generator over the wire to the screen: when no line is cut by a failed send, the
  reader prints the twenty quotes of the generator, in order and with their numbers, and stops,
  however the bytes are cut into the chunks it receives.
\<close>

theorem itch_feed_shown_whole:
  assumes "itch_feed_generator bind_result client sends = (0, es, wire)"
    and "\<And>i. i < 20 \<Longrightarrow> int (length (itch_feed_line i)) \<le> sends i"
    and "concat chunks = wire" and "[] \<notin> set chunks" and "0 \<le> connect_result"
  shows "itch_live_md clock connect_result chunks =
    (Inr 0, concat (map itch_feed_shown [0..<20]) @ [Log Info ''itch_live'' ''stopped''])"
proof -
  have "wire = itch_feed_wire sends"
    using assms(1) by (auto simp: itch_feed_generator_def Let_def split: if_splits)
  moreover have "take (nat (sends i)) (itch_feed_line i) = itch_feed_quote i @ [NEWLINE]" if "i < 20" for i
    using assms(2) [OF that] itch_feed_line_quote [OF that] by (simp add: nat_le_iff le_nat_iff)
  then have "itch_feed_wire sends = concat (map (\<lambda>l. l @ [NEWLINE]) (map itch_feed_quote [0..<20]))"
    unfolding itch_feed_wire_def by (auto intro!: arg_cong [of _ _ concat])
  ultimately have "concat chunks = concat (map (\<lambda>l. l @ [NEWLINE]) (map itch_feed_quote [0..<20]))"
    using assms(3) by simp
  moreover have "list_all (\<lambda>i. i < 20) [0..<20]" by (simp add: list_all_iff)
  moreover have "list_all (\<lambda>l. NEWLINE \<notin> set l) (map itch_feed_quote [0..<20])"
    by (simp add: list_all_iff itch_feed_quote_plain)
  ultimately have "itch_read clock 0 [] chunks = (concat (map itch_feed_shown [0..<20]), None)"
    using assms(4) by (intro itch_read_done [OF itch_lines_feed])
  with assms(5) show ?thesis by (simp add: itch_live_md_def)
qed

text \<open>The wire one character at a time.\<close>

theorem itch_feed_shown_whole_witness:
  "fst (itch_live_md (\<lambda>_. (1, 2)) 0
     (map (\<lambda>c. [c]) (itch_feed_wire (\<lambda>i. int (length (itch_feed_line i)))))) = Inr 0"
proof -
  let ?sends = "\<lambda>i. int (length (itch_feed_line i))"
  obtain es where "itch_feed_generator 0 5 ?sends = (0, es, itch_feed_wire ?sends)"
    by (simp add: itch_feed_generator_def Let_def)
  moreover have "concat (map (\<lambda>c. [c]) s) = s" for s :: string by (induction s) simp_all
  moreover have "[] \<notin> set (map (\<lambda>c. [c]) s)" for s :: string by auto
  ultimately show ?thesis
    using itch_feed_shown_whole [of 0 5 ?sends es "itch_feed_wire ?sends"
        "map (\<lambda>c. [c]) (itch_feed_wire ?sends)" 0 "\<lambda>_. (1, 2)"] by simp
qed

end
