(* ===== verification/Tcp_Demo.thy ===== *)
theory Tcp_Demo
  imports Tcp_Endpoints Exchange_Gateway
begin

text \<open>
  apps/tcp_transport_demo.cpp: an order and heartbeats go from one process side to the other over one
  connection, and the gateway side answers the order.  Two threads send on the client's connection, the
  heartbeat thread and the order thread, without a lock; what is on the wire is an interleaving of
  their \<open>send\<close> calls, each of which takes all it is given here.
\<close>

section \<open>The client's messages\<close>

definition make_test_order :: "TimestampNs \<Rightarrow> Envelope" where
  "make_test_order t =
     new_order_env (NewOrder0\<lparr>ord_header := MessageHeader0\<lparr>hdr_type := MT_NewOrder, hdr_source_node := 3,
         hdr_destination_node := 4, hdr_sequence := 1, hdr_send_ts_ns := t\<rparr>,
       ord_client_order_id := 42, ord_symbol_id := 1, ord_side := Buy, ord_limit_px := 10025, ord_qty := 1\<rparr>)"

definition make_heartbeat :: "TimestampNs \<Rightarrow> TimestampNs \<Rightarrow> Sequence \<Rightarrow> Envelope" where
  "make_heartbeat t1 t2 heartbeat_seq =
     Envelope0\<lparr>env_type := MT_Heartbeat, env_payload := P_Heartbeat (Heartbeat0\<lparr>
       hb_header := MessageHeader0\<lparr>hdr_type := MT_Heartbeat, hdr_sequence := heartbeat_seq,
         hdr_send_ts_ns := t1\<rparr>,
       hb_role := NR_OMS, hb_last_seen_ns := t2\<rparr>)\<rparr>"

text \<open>The two \<open>send\<close> calls of \<open>send_envelope\<close>.\<close>

definition frame_sends :: "(nat \<Rightarrow> byte) \<Rightarrow> Envelope \<Rightarrow> Sequence \<Rightarrow> byte list list" where
  "frame_sends pad e seq =
     [bytes_of_tcp_header (tcp_frame_header (payload_image pad e) (env_type e) seq), payload_image pad e]"

text \<open>
  The heartbeat thread: one round for each pair of clock readings before it sees that the connection
  is no longer alive; \<open>seq\<close> counts the heartbeats sent.
\<close>

fun heartbeat_sender_thread ::
  "(nat \<Rightarrow> byte) \<Rightarrow> (TimestampNs \<times> TimestampNs) list \<Rightarrow> Sequence \<Rightarrow> byte list list \<times> effect list" where
  "heartbeat_sender_thread pad [] seq = ([], [])"
| "heartbeat_sender_thread pad ((t1, t2) # ts) seq =
     (let heartbeat_seq = seq + 1;
          (sends, es) = heartbeat_sender_thread pad ts heartbeat_seq
      in (frame_sends pad (make_heartbeat t1 t2 heartbeat_seq) heartbeat_seq @ sends,
          Log Info ''heartbeat'' ''sent heartbeat'' # es))"

section \<open>The gateway side\<close>

record DemoGateway =
  dg_gateway :: ExchangeGateway
  dg_last_heartbeat_ns :: TimestampNs
  dg_wire :: "byte list"

text \<open>A received message; \<open>now\<close> is the clock, \<open>answers\<close> what the system makes of the reply.\<close>

definition gateway_server_message ::
  "TimestampNs \<Rightarrow> int list \<Rightarrow> (nat \<Rightarrow> byte) \<Rightarrow> int \<Rightarrow> Envelope \<Rightarrow> DemoGateway \<Rightarrow> effect list \<times> DemoGateway" where
  "gateway_server_message now answers pad fd e st =
     (if env_type e = MT_Heartbeat
      then ([Log Info ''tcp_gateway'' ''received heartbeat''], st\<lparr>dg_last_heartbeat_ns := now\<rparr>)
      else case (if env_type e \<noteq> MT_NewOrder then None else payload_new_order (env_payload e)) of
        None \<Rightarrow> ([], st)
      | Some ord \<Rightarrow>
          let received = Log Info ''tcp_gateway'' ''received NewOrder over TCP'';
              (maybe_response, gateway) = gateway_send_order now ord (dg_gateway st)
          in case maybe_response of
            None \<Rightarrow> ([received], st\<lparr>dg_gateway := gateway\<rparr>)
          | Some response \<Rightarrow>
              let (_, out, es, _) = tcp_send_envelope answers pad response 1 fd
              in ([received] @ es @ [Log Info ''tcp_gateway'' ''sent Ack/Reject over TCP''],
                  st\<lparr>dg_gateway := gateway, dg_wire := dg_wire st @ out\<rparr>))"

text \<open>
  The loop of \<open>gateway_server_thread\<close>: \<open>alive i\<close> is what the check of round \<open>i\<close> reads.  It ends when the
  connection is no longer alive or a receive fails.
\<close>

function gateway_server_loop ::
  "(nat \<Rightarrow> bool) \<Rightarrow> (nat \<Rightarrow> TimestampNs) \<Rightarrow> (nat \<Rightarrow> int list) \<Rightarrow> (nat \<Rightarrow> byte) \<Rightarrow> (nat \<Rightarrow> nat list) \<Rightarrow> nat \<Rightarrow> int
   \<Rightarrow> byte list \<Rightarrow> DemoGateway \<Rightarrow> effect list \<times> DemoGateway" where
  "gateway_server_loop alive now answers pad cuts i fd stream st =
     (if \<not> alive i then ([], st)
      else case tcp_recv_envelope (cuts i) fd stream of
        (None, es, _, _) \<Rightarrow> (es @ [Log Warn ''tcp_gateway'' ''connection lost''], st)
      | (Some e, es, rest, _) \<Rightarrow>
          (let (fs, st1) = gateway_server_message (now i) (answers i) pad fd e st;
               (gs, st2) = gateway_server_loop alive now answers pad cuts (Suc i) fd rest st1
           in (es @ fs @ gs, st2)))"
  by pat_completeness auto

termination gateway_server_loop
  by (relation "measure (\<lambda>(alive, now, answers, pad, cuts, i, fd, stream, st). length stream)")
     (auto dest: tcp_recv_progress)

declare gateway_server_loop.simps [simp del]

definition demo_gateway_new :: DemoGateway where
  "demo_gateway_new = \<lparr>dg_gateway = gateway_new 4, dg_last_heartbeat_ns = 0, dg_wire = []\<rparr>"

section \<open>The order side\<close>

text \<open>
  How \<open>oms_client_thread\<close> ends once connected: it returns early, with the heartbeat thread still
  joinable, so that the destructor of the thread object ends the program; or it joins.  Before that it
  waits.
\<close>

datatype demo_end = DemoTerminated | DemoJoined | DemoWaiting

definition oms_client_thread ::
  "bool \<Rightarrow> nat list \<Rightarrow> int \<Rightarrow> byte list \<Rightarrow> demo_end \<times> effect list" where
  "oms_client_thread sent cuts fd reply =
     (if \<not> sent then (DemoTerminated, [Log Error ''tcp_oms'' ''failed to send NewOrder''])
      else let sent_log = Log Info ''tcp_oms'' ''sent NewOrder over TCP''
        in case tcp_recv_envelope cuts fd reply of
          (None, es, _, _) \<Rightarrow>
            (DemoTerminated, sent_log # es @ [Log Error ''tcp_oms'' ''failed to receive response''])
        | (Some e, es, _, _) \<Rightarrow>
            (DemoJoined, sent_log # es
               @ (if env_type e = MT_Ack then [Log Info ''tcp_oms'' ''received Ack over TCP'']
                  else if env_type e = MT_Reject then [Log Warn ''tcp_oms'' ''received Reject over TCP'']
                  else [])))"

text \<open>
  The demo once connected, for one order of the send calls: what the order thread ends with.
\<close>

definition tcp_demo ::
  "(nat \<Rightarrow> bool) \<Rightarrow> (nat \<Rightarrow> TimestampNs) \<Rightarrow> (nat \<Rightarrow> int list) \<Rightarrow> (nat \<Rightarrow> byte) \<Rightarrow> (nat \<Rightarrow> nat list) \<Rightarrow> nat list
   \<Rightarrow> int \<Rightarrow> int \<Rightarrow> byte list list \<Rightarrow> demo_end \<times> effect list" where
  "tcp_demo alive now answers pad cuts reply_cuts gateway_fd oms_fd sends =
     (let (es, st) = gateway_server_loop alive now answers pad cuts 0 gateway_fd (concat sends) demo_gateway_new
      in oms_client_thread True reply_cuts oms_fd (dg_wire st))"

text \<open>
  \<open>main\<close>, with the answers of the system calls of the server.  The order thread waits for the server for
  ever when listening fails: nothing then sets \<open>server_ready\<close>.  When accepting fails, the gateway thread
  is gone and nothing is ever sent back; \<open>sent\<close> is whether the order could still be sent.
\<close>

definition tcp_demo_main ::
  "int \<times> int \<times> int \<Rightarrow> int \<Rightarrow> (int \<times> int) list option list \<Rightarrow> bool \<Rightarrow> (nat \<Rightarrow> bool) \<Rightarrow> (nat \<Rightarrow> TimestampNs)
   \<Rightarrow> (nat \<Rightarrow> int list) \<Rightarrow> (nat \<Rightarrow> byte) \<Rightarrow> (nat \<Rightarrow> nat list) \<Rightarrow> nat list \<Rightarrow> byte list list \<Rightarrow> demo_end" where
  "tcp_demo_main listen_answers accept_answer attempts sent alive now answers pad cuts reply_cuts sends =
     (case listen_answers of (socket_result, bind_result, listen_result) \<Rightarrow>
      case tcp_server_listen_on socket_result bind_result listen_result TcpServer0 of (ready, _, _, server) \<Rightarrow>
        if \<not> ready then DemoWaiting
        else case connect_retry (Log Warn ''tcp_oms'' ''connect failed; retrying'') attempts of
          (None, _) \<Rightarrow> DemoWaiting
        | (Some conn, _) \<Rightarrow>
            (case tcp_server_accept_one accept_answer server of
               (None, _) \<Rightarrow> fst (oms_client_thread sent reply_cuts (tc_fd conn) [])
             | (Some accepted, _) \<Rightarrow>
                 fst (tcp_demo alive now answers pad cuts reply_cuts (tc_fd accepted) (tc_fd conn) sends)))"

lemma tcp_demo_main_connected:
  assumes "0 \<le> s" "0 \<le> b" "0 \<le> l" "0 \<le> a" and "case attempt of None \<Rightarrow> True
      | Some results \<Rightarrow> find (\<lambda>(s, c). 0 \<le> s \<and> c = 0) results = None" and "0 \<le> fd"
  shows "tcp_demo_main (s, b, l) a [attempt, Some [(fd, 0)]] sent alive now answers pad cuts reply_cuts sends
    = fst (tcp_demo alive now answers pad cuts reply_cuts a fd sends)"
proof -
  have "fst (tcp_client_connect_to attempt) = None"
    using assms(5) by (cases attempt) (simp add: tcp_client_connect_to_def, simp add: tcp_connect_first)
  with assms show ?thesis
    by (cases "tcp_client_connect_to attempt")
       (simp add: tcp_demo_main_def tcp_server_listen_on_def tcp_server_accept_one_def tcp_client_connect_to_def
         tcp_connection_new_def Let_def)
qed

section \<open>Schedules that keep frames together, and one that does not\<close>

lemma frame_sends_frame: "concat (frame_sends pad e seq) = tcp_frame (pad, e, seq)"
  by (simp add: frame_sends_def tcp_frame_def)

lemma recv_frame:
  assumes "is_message e" and "0 \<le> fd"
  obtains os' where "tcp_recv_envelope os fd (tcp_frame (pad, e, seq) @ rest) = (Some e, [], rest, os')"
proof -
  have "tcp_next (tcp_frame (pad, e, seq) @ rest) = Some (e, rest)" by (rule tcp_next_frame) fact
  with tcp_recv_eq_next [OF assms(2), where os = os and stream = "tcp_frame (pad, e, seq) @ rest"] that
  show thesis
    by (cases "tcp_recv_envelope os fd (tcp_frame (pad, e, seq) @ rest)") (auto split: option.splits)
qed

lemma demo_messages:
  "is_message (make_test_order t)" "is_message (make_heartbeat t1 t2 seq)"
  by (simp_all add: make_test_order_def make_heartbeat_def is_message_def well_tagged_def message_defaults
      Envelope0_def)

lemma make_heartbeat_type [simp]: "env_type (make_heartbeat t1 t2 seq) = MT_Heartbeat"
  by (simp add: make_heartbeat_def)

lemma message_wire_grows:
  "\<exists>w. dg_wire (snd (gateway_server_message now answers pad fd e st)) = dg_wire st @ w"
  by (auto simp: gateway_server_message_def Let_def split_beta split: option.split)

lemma loop_wire_grows:
  "\<exists>w. dg_wire (snd (gateway_server_loop alive now answers pad cuts i fd stream st)) = dg_wire st @ w"
proof (induction "length stream" arbitrary: i stream st rule: less_induct)
  case less
  obtain out es rest os' where recv: "tcp_recv_envelope (cuts i) fd stream = (out, es, rest, os')"
    by (metis prod_cases4)
  show ?case
  proof (cases "alive i \<and> out \<noteq> None")
    case True
    then obtain e where e: "out = Some e" by auto
    let ?st = "snd (gateway_server_message (now i) (answers i) pad fd e st)"
    have "length rest < length stream" using tcp_recv_progress [of e es rest os'] recv e by metis
    from less [OF this, of "Suc i" ?st] message_wire_grows [of "now i" "answers i" pad fd e st]
    obtain w w' where "dg_wire (snd (gateway_server_loop alive now answers pad cuts (Suc i) fd rest ?st))
      = dg_wire ?st @ w" "dg_wire ?st = dg_wire st @ w'" by blast
    with True recv e show ?thesis
      by (subst gateway_server_loop.simps) (simp add: split_beta Let_def)
  next
    case False
    with recv show ?thesis
      by (subst gateway_server_loop.simps) auto
  qed
qed

text \<open>Whole heartbeats in front change nothing but the time of the last heartbeat.\<close>

lemma loop_heartbeats:
  assumes "0 \<le> fd" and "\<forall>j < i + length ts. alive j"
  shows "\<exists>st'. dg_wire st' = dg_wire st \<and> dg_gateway st' = dg_gateway st
    \<and> snd (gateway_server_loop alive now answers pad cuts i fd
          (concat (fst (heartbeat_sender_thread pad' ts seq)) @ rest) st)
      = snd (gateway_server_loop alive now answers pad cuts (i + length ts) fd rest st')"
  using assms(2)
proof (induction ts arbitrary: i seq st)
  case Nil
  then show ?case by auto
next
  case (Cons t ts)
  obtain t1 t2 where t: "t = (t1, t2)" by (cases t)
  let ?e = "make_heartbeat t1 t2 (seq + 1)" and ?st = "st\<lparr>dg_last_heartbeat_ns := now i\<rparr>"
  have wire: "concat (fst (heartbeat_sender_thread pad' (t # ts) seq)) @ rest
      = tcp_frame (pad', ?e, seq + 1) @ concat (fst (heartbeat_sender_thread pad' ts (seq + 1))) @ rest"
    by (simp add: t Let_def split_beta frame_sends_frame)
  obtain os' where "tcp_recv_envelope (cuts i) fd (tcp_frame (pad', ?e, seq + 1)
      @ concat (fst (heartbeat_sender_thread pad' ts (seq + 1))) @ rest)
    = (Some ?e, [], concat (fst (heartbeat_sender_thread pad' ts (seq + 1))) @ rest, os')"
    by (rule recv_frame [OF demo_messages(2) assms(1)])
  moreover have "alive i" using Cons.prems by simp
  ultimately have step: "snd (gateway_server_loop alive now answers pad cuts i fd
        (concat (fst (heartbeat_sender_thread pad' (t # ts) seq)) @ rest) st)
      = snd (gateway_server_loop alive now answers pad cuts (Suc i) fd
          (concat (fst (heartbeat_sender_thread pad' ts (seq + 1))) @ rest) ?st)"
    unfolding wire by (subst gateway_server_loop.simps) (simp add: gateway_server_message_def Let_def split_beta)
  from Cons.IH [of "Suc i" ?st "seq + 1"] Cons.prems show ?case
    unfolding step by simp
qed

text \<open>The order, whole, is answered with its acknowledgement.\<close>

lemma loop_order:
  assumes "0 \<le> fd" and "alive i" and "list_all (\<lambda>a. 0 < a) (answers i)"
    and "gw_available (dg_gateway st)" and "dg_wire st = []"
  shows "\<exists>a w. dg_wire (snd (gateway_server_loop alive now answers pad cuts i fd
      (tcp_frame (pad', make_test_order t, 1) @ rest) st)) = tcp_frame (pad, ack_env a, 1) @ w
    \<and> is_message (ack_env a)"
proof -
  obtain os' where recv: "tcp_recv_envelope (cuts i) fd (tcp_frame (pad', make_test_order t, 1) @ rest)
    = (Some (make_test_order t), [], rest, os')"
    by (rule recv_frame [OF demo_messages(1) assms(1)])
  obtain ord where ord: "make_test_order t = new_order_env ord" by (simp add: make_test_order_def)
  obtain a g where send: "gateway_send_order (now i) ord (dg_gateway st) = (Some (ack_env a), g)"
    and ack: "is_message (ack_env a)"
    using assms(4) by (simp add: gateway_send_order_def Let_def is_message_def message_defaults)
  obtain out where reply: "tcp_send_envelope (answers i) pad (ack_env a) 1 fd = (True, out, [], snd (snd (snd (tcp_send_envelope (answers i) pad (ack_env a) 1 fd))))"
    using tcp_send_envelope_ok [OF ack assms(1,3), of pad 1] by auto
  have out: "out = tcp_frame (pad, ack_env a, 1)"
    using tcp_send_envelope_frame [OF ack assms(1) reply] by simp
  have message: "dg_wire (snd (gateway_server_message (now i) (answers i) pad fd (make_test_order t) st)) = out"
    using send assms(5) by (simp add: ord gateway_server_message_def Let_def) (subst reply, simp)
  have "\<exists>w. dg_wire (snd (gateway_server_loop alive now answers pad cuts i fd
      (tcp_frame (pad', make_test_order t, 1) @ rest) st)) = out @ w"
    using assms(2) recv loop_wire_grows [where st = "snd (gateway_server_message (now i) (answers i) pad fd (make_test_order t) st)", unfolded message]
    by (subst gateway_server_loop.simps) (simp add: split_beta Let_def)
  with out ack show ?thesis by blast
qed

text \<open>
  The order's two sends with a whole heartbeat in between: the frame header of the order promises 72
  bytes of payload, and the receiver takes the heartbeat for them.
\<close>

definition torn_sends :: "byte list list" where
  "torn_sends = (let order = frame_sends (\<lambda>_. 0) (make_test_order 0) 1
     in [order ! 0] @ fst (heartbeat_sender_thread (\<lambda>_. 0) [(0, 0)] 0) @ [order ! 1])"

definition demo_order_bytes :: "byte list" where
  "demo_order_bytes =
     [3, 0, 0, 0, 3, 0, 0, 0, 4, 0, 0, 0, 0, 0, 0, 0, 1, 0, 0, 0, 0, 0, 0, 0, 0, 0, 0, 0, 0, 0,
     0, 0, 0, 0, 0, 0, 0, 0, 0, 0, 42, 0, 0, 0, 0, 0, 0, 0, 1, 0, 0, 0, 1, 0, 0, 0, 41, 39, 0, 0,
     0, 0, 0, 0, 1, 0, 0, 0, 0, 0, 0, 0]"

definition demo_heartbeat_bytes :: "byte list" where
  "demo_heartbeat_bytes =
     [8, 0, 0, 0, 0, 0, 0, 0, 0, 0, 0, 0, 0, 0, 0, 0, 1, 0, 0, 0, 0, 0, 0, 0, 0, 0, 0, 0, 0, 0,
     0, 0, 0, 0, 0, 0, 0, 0, 0, 0, 3, 0, 0, 0, 0, 0, 0, 0, 0, 0, 0, 0, 0, 0, 0, 0]"

definition demo_heartbeat_header :: "byte list" where
  "demo_heartbeat_header =
     [49, 84, 76, 76, 1, 0, 25, 0, 8, 56, 0, 0, 0, 1, 0, 0, 0, 0, 0, 0, 0, 79, 189, 93, 116]"

lemma le32_bytes:
  "le32 w = [of_nat (unat w), of_nat (unat w div 256), of_nat (unat w div 256 div 256),
     of_nat (unat w div 256 div 256 div 256)]"
proof -
  have "4 = Suc (Suc (Suc (Suc 0)))" by simp
  then show ?thesis by (simp only: le32_def le_bytes.simps)
qed

lemma demo_words:
  "le64 0 = [0, 0, 0, 0, 0, 0, 0, 0]" "le64 1 = [1, 0, 0, 0, 0, 0, 0, 0]" "le64 42 = [42, 0, 0, 0, 0, 0, 0, 0]"
  "le64 10025 = [41, 39, 0, 0, 0, 0, 0, 0]" "le32 0 = [0, 0, 0, 0]" "le32 1 = [1, 0, 0, 0]"
  "le32 3 = [3, 0, 0, 0]" "le32 4 = [4, 0, 0, 0]" "le32 56 = [56, 0, 0, 0]"
  "le16 1 = [1, 0]" "le16 25 = [25, 0]"
  by code_simp+

lemma demo_long_words:
  "le32 1280070705 = [49, 84, 76, 76]" "le32 1952300367 = [79, 189, 93, 116]"
  by (simp_all add: le32_bytes)

lemma demo_pads:
  "pads (\<lambda>_. 0) n 3 = [0, 0, 0]" "pads (\<lambda>_. 0) n 4 = [0, 0, 0, 0]"
  "pads (\<lambda>_. 0) n 7 = [0, 0, 0, 0, 0, 0, 0]"
  by (simp_all add: pads_def upt_rec)

lemma demo_checksums:
  "checksum_bytes demo_order_bytes = 805455723"
  "checksum_bytes demo_heartbeat_bytes = 1952300367"
  "checksum_bytes (take 72 (demo_heartbeat_header @ demo_heartbeat_bytes)) = 2032322746"
  by code_simp+

lemma demo_images:
  "payload_image (\<lambda>_. 0) (make_test_order 0) = demo_order_bytes"
  "payload_image (\<lambda>_. 0) (make_heartbeat 0 0 1) = demo_heartbeat_bytes"
  unfolding payload_image_message(1) [OF demo_messages(1)] payload_image_message(1) [OF demo_messages(2)]
  by (simp_all add: make_test_order_def make_heartbeat_def bytes_of_new_order_def bytes_of_heartbeat_def
      bytes_of_header_def message_defaults demo_words demo_pads demo_order_bytes_def demo_heartbeat_bytes_def)

lemma demo_header: "bytes_of_tcp_header (tcp_frame_header demo_heartbeat_bytes MT_Heartbeat 1) = demo_heartbeat_header"
  by (simp add: bytes_of_tcp_header_def tcp_frame_header_def demo_checksums demo_words demo_long_words TCP_MAGIC_def
      TCP_VERSION_def tcp_header_size_def demo_heartbeat_header_def)

lemma torn_unreadable: "tcp_next (concat torn_sends) = None"
proof -
  let ?h = "tcp_frame_header demo_order_bytes MT_NewOrder 1"
  let ?bs = "demo_heartbeat_header @ demo_heartbeat_bytes @ demo_order_bytes"
  have wire: "concat torn_sends = bytes_of_tcp_header ?h @ ?bs"
    by (simp add: torn_sends_def frame_sends_def demo_images demo_header Let_def split_beta)
       (simp add: make_test_order_def)
  have "take 72 ?bs = take 72 (demo_heartbeat_header @ demo_heartbeat_bytes)"
    by (simp add: demo_heartbeat_header_def demo_heartbeat_bytes_def)
  then have "checksum_bytes (take 72 ?bs) = 2032322746"
    using demo_checksums(3) by (simp only:)
  moreover have "tfh_checksum ?h = 805455723" "unat (tfh_payload_size ?h) = 72"
    by (simp_all add: tcp_frame_header_def demo_checksums)
  ultimately have bad: "checksum_bytes (take (unat (tfh_payload_size ?h)) ?bs) \<noteq> tfh_checksum ?h"
    by (simp only:) simp
  have "canonical_type (tfh_type ?h)" by (simp add: tcp_frame_header_def canonical_type_def msg_type_of_byte_def)
  then show ?thesis
    unfolding wire by (subst tcp_next_header) (simp_all only: bad Let_def if_True simp_thms)
qed

lemma torn_interleaves:
  "torn_sends \<in> shuffles (frame_sends (\<lambda>_. 0) (make_test_order 0) 1)
     (fst (heartbeat_sender_thread (\<lambda>_. 0) [(0, 0)] 0))"
  by (simp add: torn_sends_def frame_sends_def Let_def)



end
