(* ===== verification/Demos.thy ===== *)
theory Demos
  imports Journal Exchange_Gateway Venue_Router Order_Book Market_Data_Adapter
begin

text \<open>
  The demo programs of the journal, the router, the multi-symbol book and the adapter
  (apps/journal_demo.cpp, multi_venue_router_demo.cpp, multi_symbol_book_demo.cpp,
  market_data_adapter_demo.cpp), each with what it prints or leaves behind.  \<open>visit\<close> is the order in
  which an iteration visits a hash container.
\<close>

section \<open>journal_demo\<close>

definition journal_demo_signal :: "TimestampNs \<Rightarrow> Signal" where
  "journal_demo_signal t =
     Signal0\<lparr>sig_header := MessageHeader0\<lparr>hdr_type := MT_Signal, hdr_source_node := 2,
         hdr_destination_node := 3, hdr_sequence := 1, hdr_send_ts_ns := t\<rparr>,
       sig_symbol_id := 1, sig_side := Buy, sig_limit_px := 10025, sig_qty := 1, sig_confidence_bps := 9000\<rparr>"

definition journal_demo_limits :: RiskLimits where
  "journal_demo_limits = \<lparr>lim_max_position = 10, lim_max_order_qty = 2, lim_max_notional = 1000000\<rparr>"

text \<open>
  \<open>old\<close> is the file that \<open>std::remove\<close> failed to remove, \<open>None\<close> when there is none afterwards; the
  journal file is created when it is opened.  The results of the two appends are not looked at.
\<close>

definition journal_demo_main ::
  "byte list option \<Rightarrow> bool \<Rightarrow> (nat \<Rightarrow> nat option) \<Rightarrow> (nat \<Rightarrow> nat \<Rightarrow> byte) \<Rightarrow> (nat \<Rightarrow> TimestampNs)
   \<Rightarrow> nat \<times> effect list \<times> byte list option" where
  "journal_demo_main old can_open fault pad now =
     (let start = Log Info ''journal_demo'' ''starting phase 3 journal demo'';
          w0 = journal_writer_new (case old of None \<Rightarrow> [] | Some bs \<Rightarrow> bs);
          (maybe_order, oms) = oms_on_signal (now 1) (now 2) (journal_demo_signal (now 0))
             (oms_new 3 journal_demo_limits)
      in case maybe_order of
        None \<Rightarrow> (1, [start, Log Error ''journal_demo'' ''OMS failed to produce order''], old)
      | Some order \<Rightarrow>
          (case (if env_type order \<noteq> MT_NewOrder then None else payload_new_order (env_payload order)) of
             None \<Rightarrow> (1, [start, Log Warn ''journal_demo'' ''OMS rejected signal''], old)
           | Some ord \<Rightarrow>
               let (_, es1, w1) = journal_append can_open (fault 0) (pad 0) (now 3) JR_OrderIntent order
                      (hdr_sequence (ord_header ord)) w0;
                   es2 = [start] @ es1 @ [Log Info ''journal_demo'' ''journaled order intent before gateway send''];
                   (maybe_ack, gateway) = gateway_send_order (now 4) ord (gateway_new 4);
                   exists_after = (\<lambda>w. if can_open then Some (jw_file w) else old)
               in case maybe_ack of
                 None \<Rightarrow>
                   (1, es2 @ [Log Error ''journal_demo'' ''gateway failed to produce response''], exists_after w1)
               | Some response \<Rightarrow>
                   let (es3, w2) =
                     (case (if env_type response \<noteq> MT_Ack then None else payload_ack (env_payload response)) of
                        None \<Rightarrow> ([], w1)
                      | Some ack \<Rightarrow>
                          (let (_, fs, w) = journal_append can_open (fault 1) (pad 1) (now 5) JR_GatewayAck
                                 response (hdr_sequence (ack_header ack)) w1
                           in (fs @ [Log Info ''journal_demo'' ''journaled gateway ack''], w)));
                     (es4, w3) = journal_close w2;
                     (records, es5) = journal_read_all (exists_after w3)
                   in (0, es2 @ es3 @ es4 @ es5
                        @ map (\<lambda>r. Log Info ''journal_demo'' (to_string_journal_type (jh_record_type (jr_header r)))) records
                        @ [Log Info ''journal_demo'' ''phase 3 journal demo complete''], exists_after w3)))"

text \<open>When nothing fails the journal reads back as the intent and its acknowledgement.\<close>

lemma journal_demo_journal:
  assumes "\<And>k. fault k = None"
  shows "\<exists>es bs ord a. journal_demo_main None True fault pad now = (0, es, Some bs)
    \<and> map (\<lambda>r. (jh_record_type (jr_header r), jr_envelope r)) (fst (journal_read_all (Some bs)))
      = [(JR_OrderIntent, new_order_env ord), (JR_GatewayAck, ack_env a)]
    \<and> ord_limit_px ord = 10025 \<and> ack_client_order_id a = ord_client_order_id ord"
proof -
  let ?s = "journal_demo_signal (now 0)" and ?om = "oms_new 3 journal_demo_limits"
  define ord where "ord = oms_make_order (now 1) ?s ?om"
  obtain om' where order: "oms_on_signal (now 1) (now 2) ?s ?om = (Some (new_order_env ord), om')"
  proof -
    have "risk_check (om_risk ?om) ord = RR_None"
      by (simp add: ord_def oms_make_order_def journal_demo_signal_def journal_demo_limits_def oms_new_def
          risk_new_def risk_check_def risk_position_def signed_qty_def llabs_def message_defaults)
    then show ?thesis using that by (simp add: oms_on_signal_def ord_def Let_def oms_new_def)
  qed
  obtain a g where ack: "gateway_send_order (now 4) ord (gateway_new 4) = (Some (ack_env a), g)"
    "ack_client_order_id a = ord_client_order_id ord"
    using gateway_available_acks [of "gateway_new 4" "now 4" ord] by (metis ExchangeGateway.select_convs(2) gateway_new_def)
  let ?x = "\<lparr>je_pad = pad 0, je_now = now 3, je_type = JR_OrderIntent, je_envelope = new_order_env ord,
    je_sequence = hdr_sequence (ord_header ord)\<rparr>"
  let ?y = "\<lparr>je_pad = pad 1, je_now = now 5, je_type = JR_GatewayAck, je_envelope = ack_env a,
    je_sequence = hdr_sequence (ack_header a)\<rparr>"
  have ok: "list_all journal_ok [?x, ?y]"
    using ack(1) by (auto simp: journal_ok_def is_message_def canonical_journal_type_def journal_type_of_byte_def
      ord_def oms_make_order_def journal_demo_signal_def gateway_send_order_def gateway_new_def message_defaults Let_def)
  have first: "journal_append True None (pad 0) (now 3) JR_OrderIntent (new_order_env ord)
      (hdr_sequence (ord_header ord)) (journal_writer_new [])
    = (True, [Log Info ''journal'' ''opened journal file'', Log Info ''journal'' ''appended journal record'',
         metric_inc JournalWrites], \<lparr>jw_opened = True, jw_good = True, jw_file = journal_bytes ?x\<rparr>)"
    using is_message_type [of "new_order_env ord"] ok
    by (simp add: journal_append_def journal_writer_new_def journal_open_def journal_stream_write_def
        journal_bytes_def journal_ok_def Let_def)
  let ?w = "\<lparr>jw_opened = True, jw_good = True, jw_file = journal_bytes ?x\<rparr>"
  have second: "journal_append True None (pad 1) (now 5) JR_GatewayAck (ack_env a)
      (hdr_sequence (ack_header a)) ?w
    = (True, [Log Info ''journal'' ''appended journal record'', metric_inc JournalWrites],
       ?w\<lparr>jw_file := journal_bytes ?x @ journal_bytes ?y\<rparr>)"
    using journal_append_entry [of ?y ?w True None] ok by (simp add: journal_stream_write_def Let_def)
  have "fst (journal_read_loop (journal_bytes ?x @ journal_bytes ?y)) = map journal_view [?x, ?y]"
    using journal.read_complete [OF ok, of ?x] ok by simp
  moreover have "\<exists>es. journal_demo_main None True fault pad now
      = (0, es, Some (journal_bytes ?x @ journal_bytes ?y))"
    unfolding journal_demo_main_def
    by (simp add: order ack(1) assms first second journal_close_def split_beta Let_def del: One_nat_def)
  then obtain es where "journal_demo_main None True fault pad now
      = (0, es, Some (journal_bytes ?x @ journal_bytes ?y))" ..
  ultimately show ?thesis
    using ack(2)
    by (intro exI [of _ es] exI [of _ "journal_bytes ?x @ journal_bytes ?y"] exI [of _ ord] exI [of _ a])
       (simp add: journal_read_all_def journal_view_def journal_header_for_def ord_def oms_make_order_def
         journal_demo_signal_def)
qed

section \<open>multi_venue_router_demo\<close>

definition router_demo_md ::
  "TimestampNs \<Rightarrow> MarketDataVenue \<Rightarrow> SymbolId \<Rightarrow> string \<Rightarrow> Price \<Rightarrow> Price \<Rightarrow> Sequence \<Rightarrow> NormalizedMarketData" where
  "router_demo_md t venue symbol_id symbol bid ask seq =
     \<lparr>nmd_venue = venue, nmd_update = MarketDataUpdate0\<lparr>
        md_header := MessageHeader0\<lparr>hdr_type := MT_MarketData, hdr_sequence := seq, hdr_recv_ts_ns := t\<rparr>,
        md_symbol_id := symbol_id, md_symbol := Symbol_of symbol, md_bid_px := bid, md_bid_qty := 100,
        md_ask_px := ask, md_ask_qty := 100, md_exchange_sequence := seq\<rparr>\<rparr>"

definition route_line :: "RouteDecision \<Rightarrow> string" where
  "route_line d = ''routeable='' @ bool_text (rt_routeable d) @ '' venue='' @ to_string_venue (rt_venue d)
     @ '' side='' @ to_string_side (rt_side d) @ '' px='' @ show_int (sint (rt_limit_px d))
     @ '' reason='' @ rt_reason d"

definition multi_venue_router_demo ::
  "(nat \<Rightarrow> TimestampNs) \<Rightarrow> (MultiVenueRouter \<Rightarrow> MultiVenueRouter) \<Rightarrow> effect list" where
  "multi_venue_router_demo now visit =
     (let (_, r1) = router_update (router_demo_md (now 0) Coinbase 1 ''BTC-USD'' 8079000 8079100 1) [];
          (_, r2) = router_update (router_demo_md (now 1) Binance 1 ''BTCUSDT'' 8078950 8079050 1) r1;
          (_, r3) = router_update (router_demo_md (now 2) Hyperliquid 1 ''BTC'' 8079010 8079060 1) r2;
          buy = Signal0\<lparr>sig_symbol_id := 1, sig_side := Buy, sig_qty := 1\<rparr>;
          sell = Signal0\<lparr>sig_symbol_id := 1, sig_side := Sell, sig_qty := 1\<rparr>
      in map Stdout [route_line (route_signal buy (visit r3)), route_line (route_signal sell (visit r3))])"

lemma route_line_buy:
  assumes "best_ask 1 bs = Some r" "vtob_venue r = Binance" "vtob_ask_px r = 8079050"
  shows "route_line (route_signal (Signal0\<lparr>sig_symbol_id := 1, sig_side := Buy, sig_qty := 1\<rparr>) bs)
    = ''routeable=1 venue=Binance side=BUY px=8079050 reason=routed to lowest live ask''"
proof -
  have "show_int (sint (8079050 :: Price)) = ''8079050''"
    by (simp add: show_int_def show_nat.simps digit_char_def char_of_def bit_iff_odd)
  with assms show ?thesis
    by (simp add: route_signal_def route_line_def bool_text_def to_string_side_def RouteDecision0_def)
qed

lemma route_line_sell:
  assumes "best_bid 1 bs = Some r" "vtob_venue r = Hyperliquid" "vtob_bid_px r = 8079010"
  shows "route_line (route_signal (Signal0\<lparr>sig_symbol_id := 1, sig_side := Sell, sig_qty := 1\<rparr>) bs)
    = ''routeable=1 venue=Hyperliquid side=SELL px=8079010 reason=routed to highest live bid''"
proof -
  have "show_int (sint (8079010 :: Price)) = ''8079010''"
    by (simp add: show_int_def show_nat.simps digit_char_def char_of_def bit_iff_odd)
  with assms show ?thesis
    by (simp add: route_signal_def route_line_def bool_text_def to_string_side_def RouteDecision0_def)
qed

text \<open>Whatever the order of the container, it buys at Binance and sells at Hyperliquid.\<close>

lemma multi_venue_router_demo_lines:
  assumes "\<And>bs. mset (visit bs) = mset bs"
  shows "multi_venue_router_demo now visit = map Stdout
    [''routeable=1 venue=Binance side=BUY px=8079050 reason=routed to lowest live ask'',
     ''routeable=1 venue=Hyperliquid side=SELL px=8079010 reason=routed to highest live bid'']"
proof -
  let ?cb = "router_demo_md (now 0) Coinbase 1 ''BTC-USD'' 8079000 8079100 1"
    and ?bn = "router_demo_md (now 1) Binance 1 ''BTCUSDT'' 8078950 8079050 1"
    and ?hl = "router_demo_md (now 2) Hyperliquid 1 ''BTC'' 8079010 8079060 1"
  let ?us = "[?cb, ?bn, ?hl]"
  let ?bs = "snd (run_updates router_update ?us [])"
  have quotes: "last_quote ?us v 1 = (case v of Coinbase \<Rightarrow> Some (nmd_update ?cb)
      | Binance \<Rightarrow> Some (nmd_update ?bn) | Hyperliquid \<Rightarrow> Some (nmd_update ?hl) | _ \<Rightarrow> None)" for v
    by (cases v) (simp_all add: last_quote_def router_demo_md_def valid_nmd_def valid_quote_def nmd_key_def)
  have ask: "\<exists>r. best_ask 1 (visit ?bs) = Some r \<and> vtob_venue r = Binance \<and> vtob_ask_px r = 8079050"
  proof (cases "best_ask 1 (visit ?bs)")
    case None
    with best_ask_quote [OF assms, of ?us 1] quotes [of Binance] show ?thesis by simp
  next
    case (Some r)
    with best_ask_quote [OF assms, of ?us 1] obtain q where
      q: "last_quote ?us (vtob_venue r) 1 = Some q" "vtob_ask_px r = md_ask_px q"
      "sint (md_ask_px q) \<le> sint (md_ask_px (nmd_update ?bn))"
      using quotes [of Binance] by fastforce
    from q(1,3) have "vtob_venue r = Binance \<and> md_ask_px q = 8079050"
      unfolding quotes by (cases "vtob_venue r") (auto simp: router_demo_md_def)
    with Some q(2) show ?thesis by simp
  qed
  have bid: "\<exists>r. best_bid 1 (visit ?bs) = Some r \<and> vtob_venue r = Hyperliquid \<and> vtob_bid_px r = 8079010"
  proof (cases "best_bid 1 (visit ?bs)")
    case None
    with best_bid_quote [OF assms, of ?us 1] quotes [of Binance] show ?thesis by simp
  next
    case (Some r)
    with best_bid_quote [OF assms, of ?us 1] obtain q where
      q: "last_quote ?us (vtob_venue r) 1 = Some q" "vtob_bid_px r = md_bid_px q"
      "sint (md_bid_px (nmd_update ?hl)) \<le> sint (md_bid_px q)"
      using quotes [of Hyperliquid] by fastforce
    from q(1,3) have "vtob_venue r = Hyperliquid \<and> md_bid_px q = 8079010"
      unfolding quotes by (cases "vtob_venue r") (auto simp: router_demo_md_def)
    with Some q(2) show ?thesis by simp
  qed
  obtain ra where ra: "best_ask 1 (visit ?bs) = Some ra" "vtob_venue ra = Binance" "vtob_ask_px ra = 8079050"
    using ask by blast
  obtain rb where rb: "best_bid 1 (visit ?bs) = Some rb" "vtob_venue rb = Hyperliquid" "vtob_bid_px rb = 8079010"
    using bid by blast
  have "multi_venue_router_demo now visit = map Stdout
    [route_line (route_signal (Signal0\<lparr>sig_symbol_id := 1, sig_side := Buy, sig_qty := 1\<rparr>) (visit ?bs)),
     route_line (route_signal (Signal0\<lparr>sig_symbol_id := 1, sig_side := Sell, sig_qty := 1\<rparr>) (visit ?bs))]"
    by (simp add: multi_venue_router_demo_def split_beta Let_def)
  also have "\<dots> = map Stdout
    [''routeable=1 venue=Binance side=BUY px=8079050 reason=routed to lowest live ask'',
     ''routeable=1 venue=Hyperliquid side=SELL px=8079010 reason=routed to highest live bid'']"
    by (simp only: route_line_buy [OF ra] route_line_sell [OF rb])
  finally show ?thesis .
qed

section \<open>multi_symbol_book_demo\<close>

definition book_demo_md :: "TimestampNs \<Rightarrow> SymbolId \<Rightarrow> string \<Rightarrow> Price \<Rightarrow> Price \<Rightarrow> Sequence \<Rightarrow> MarketDataUpdate" where
  "book_demo_md t sid symbol bid ask seq =
     MarketDataUpdate0\<lparr>md_header := MessageHeader0\<lparr>hdr_type := MT_MarketData, hdr_sequence := seq,
         hdr_recv_ts_ns := t\<rparr>,
       md_symbol_id := sid, md_symbol := Symbol_of symbol, md_bid_px := bid, md_bid_qty := 100,
       md_ask_px := ask, md_ask_qty := 200, md_exchange_sequence := seq\<rparr>"

definition book_demo_line :: "SymbolBookSnapshot \<Rightarrow> string option" where
  "book_demo_line book = map_option (\<lambda>symbol. ''symbol='' @ symbol
     @ '' bid='' @ show_int (sint (sbs_bid_px book)) @ '' ask='' @ show_int (sint (sbs_ask_px book))
     @ '' seq='' @ show_nat (unat (sbs_exchange_sequence book))) (Symbol_str (sbs_symbol book))"

definition multi_symbol_book_demo ::
  "(nat \<Rightarrow> TimestampNs) \<Rightarrow> (MultiSymbolTopOfBook \<Rightarrow> MultiSymbolTopOfBook) \<Rightarrow> effect list" where
  "multi_symbol_book_demo now visit =
     (let (_, b1) = ms_apply (book_demo_md (now 0) 1 ''BTC-USD'' 8079000 8079100 1) [];
          (_, b2) = ms_apply (book_demo_md (now 1) 2 ''ETH-USD'' 350000 350010 1) b1;
          (_, b3) = ms_apply (book_demo_md (now 2) 3 ''SOL-USD'' 18000 18001 1) b2
      in map Stdout (List.map_filter book_demo_line (ms_snapshots (visit b3)))
         @ [Stdout (''symbol_count='' @ show_nat (ms_symbol_count b3))])"

section \<open>market_data_adapter_demo\<close>

definition normalized_line :: "NormalizedMarketData \<Rightarrow> string option" where
  "normalized_line md = (let u = nmd_update md in
     map_option (\<lambda>symbol. ''venue='' @ to_string_venue (nmd_venue md) @ '' symbol='' @ symbol
       @ '' sequence='' @ show_nat (unat (md_exchange_sequence u))
       @ '' bid_px='' @ show_int (sint (md_bid_px u)) @ '' bid_qty='' @ show_int (sint (md_bid_qty u))
       @ '' ask_px='' @ show_int (sint (md_ask_px u)) @ '' ask_qty='' @ show_int (sint (md_ask_qty u)))
     (Symbol_str (md_symbol u)))"

definition print_normalized :: "NormalizedMarketData option \<Rightarrow> string \<Rightarrow> effect list" where
  "print_normalized md message = (case md of None \<Rightarrow> []
     | Some m \<Rightarrow> map Stdout (case_option [] (\<lambda>l. [l]) (normalized_line m))
         @ [Log Info ''md_adapter_demo'' message])"

text \<open>The four raw messages; segments are joined by quotes.\<close>

definition binance_raw :: string where
  "binance_raw = join_quotes [''{'', ''u'', '':400900217,'', ''s'', '':'', ''BTCUSDT'', '','', ''b'', '':'',
     ''64250.12'', '','', ''B'', '':'', ''3.5'', '','', ''a'', '':'', ''64250.13'', '','', ''A'', '':'',
     ''2.1'', ''}'']"

definition coinbase_raw :: string where
  "coinbase_raw = join_quotes [''{'', ''type'', '':'', ''ticker'', '','', ''sequence'', '':7654321,'',
     ''product_id'', '':'', ''BTC-USD'', '','', ''price'', '':'', ''64250.12'', '','', ''best_bid'', '':'',
     ''64249.90'', '','', ''best_bid_size'', '':'', ''1.0'', '','', ''best_ask'', '':'', ''64250.10'', '','',
     ''best_ask_size'', '':'', ''2.0'', ''}'']"

definition polygon_raw :: string where
  "polygon_raw = join_quotes [''{'', ''ev'', '':'', ''Q'', '','', ''sym'', '':'', ''AAPL'', '','', ''q'',
     '':9001001,'', ''bp'', '':189.25,'', ''bs'', '':100,'', ''ap'', '':189.26,'', ''as'', '':200}'']"

definition itch_raw :: string where
  "itch_raw = ''Q|1001|MSFT|42125|300|42126|400''"

text \<open>An exception of the last normalizer would end the program before it prints anything.\<close>

definition market_data_adapter_demo :: "(nat \<Rightarrow> TimestampNs) \<Rightarrow> number_error + effect list" where
  "market_data_adapter_demo now =
     (let (binance, e1) = normalize_binance_book_ticker (now 0) (now 1) binance_raw 1;
          (coinbase, e2) = normalize_coinbase_ticker (now 2) (now 3) coinbase_raw 2;
          (polygon, e3) = normalize_polygon_quote (now 4) (now 5) polygon_raw 3
      in case normalize_simulated_itch_quote (now 6) (now 7) itch_raw 4 of
        Inl e \<Rightarrow> Inl e
      | Inr (itch, e4) \<Rightarrow> Inr (
          [Log Info ''md_adapter_demo'' ''starting phase 4 market data adapter demo''] @ e1 @ e2 @ e3 @ e4
          @ print_normalized binance ''normalized Binance bookTicker''
          @ print_normalized coinbase ''normalized Coinbase ticker''
          @ print_normalized polygon ''normalized Polygon quote''
          @ print_normalized itch ''normalized simulated ITCH quote''
          @ [Log Info ''md_adapter_demo'' ''phase 4 market data adapter demo complete'']))"

end
