(* ===== verification/Threading.thy ===== *)
theory Threading
  imports Effects
begin

text \<open>
  src/threading.cpp: naming the calling thread and pinning it to a processor.  The answers of
  \<open>pthread_setname_np\<close> and \<open>pthread_setaffinity_np\<close> are functions of what they are given.
\<close>

definition set_current_thread_name :: "(string \<Rightarrow> int) \<Rightarrow> string \<Rightarrow> bool \<times> effect list" where
  "set_current_thread_name setname thread_name =
     (let name = take 15 thread_name; rc = setname name
      in if rc \<noteq> 0 then (False, [Log Warn ''threading'' ''failed to set thread name'']) else (True, []))"

text \<open>
  \<open>CPU_SET\<close> on an empty set: the index is converted to an unsigned one and ignored when it is not below
  the 1024 bits of \<open>cpu_set_t\<close>.
\<close>

definition cpu_set :: "int \<Rightarrow> nat set" where
  "cpu_set cpu_id = (if 0 \<le> cpu_id \<and> cpu_id < 1024 then {nat cpu_id} else {})"

definition pin_current_thread_to_cpu ::
  "(string \<Rightarrow> int) \<Rightarrow> (nat set \<Rightarrow> int) \<Rightarrow> int \<Rightarrow> string \<Rightarrow> bool \<times> effect list" where
  "pin_current_thread_to_cpu setname setaffinity cpu_id thread_name =
     (let (_, es) = set_current_thread_name setname thread_name; rc = setaffinity (cpu_set cpu_id)
      in if rc \<noteq> 0 then (False, es @ [Log Warn ''threading'' ''failed to pin thread to requested CPU core''])
         else (True, es @ [Log Info ''threading'' ''thread pinned to requested CPU core'']))"

text \<open>
  On a system that accepts names of fifteen characters and refuses the empty set, naming succeeds, and
  pinning succeeds only for an index the system has; a failure to name does not keep it from pinning.
\<close>

lemma set_current_thread_name_ok:
  assumes "\<And>name. length name \<le> 15 \<Longrightarrow> setname name = 0"
  shows "set_current_thread_name setname thread_name = (True, [])"
  using assms by (simp add: set_current_thread_name_def)

lemma pin_in_range:
  assumes "setaffinity {} \<noteq> 0" and "fst (pin_current_thread_to_cpu setname setaffinity cpu_id thread_name)"
  shows "0 \<le> cpu_id \<and> cpu_id < 1024 \<and> setaffinity {nat cpu_id} = 0"
  using assms by (auto simp: pin_current_thread_to_cpu_def cpu_set_def split_beta Let_def split: if_splits)

end
