(* ===== verification/Node_Programs.thy ===== *)
theory Node_Programs
  imports Session_Replay Tcp_Endpoints Kraken_Gateway Live_Feeds Threading
begin

text \<open>
  The \<open>main\<close> functions of the four nodes (apps/market_data_node.cpp, strategy_node.cpp, oms_node.cpp,
  gateway_node.cpp) around the loops of \<open>Distributed_Nodes\<close>: configuration, connecting, listening and
  accepting over the answers of the system, and what they leave behind.
\<close>

section \<open>Starting a node\<close>

text \<open>
  What a node finds when it starts: the answers of the thread and socket calls, its environment
  variables, and the replay log of an earlier run.
\<close>

record NodeBoot =
  nb_setname :: "string \<Rightarrow> int"
  nb_setaffinity :: "nat set \<Rightarrow> int"
  nb_getenv :: "string \<Rightarrow> string option"
  nb_attempts :: "(int \<times> int) list option list"
  nb_listen :: "int \<times> int \<times> int"
  nb_accept :: int
  nb_replay_fd :: int
  nb_old_replay :: "byte list"

definition node_pin :: "int \<Rightarrow> string \<Rightarrow> NodeBoot \<Rightarrow> effect list" where
  "node_pin cpu_id name boot =
     snd (pin_current_thread_to_cpu (nb_setname boot) (nb_setaffinity boot) cpu_id name)"

definition node_open_replay :: "NodeRole \<Rightarrow> NodeBoot \<Rightarrow> effect list" where
  "node_open_replay role boot =
     fst (snd (replay_writer_open (nb_replay_fd boot) (replay_writer_new RW_Truncate role (nb_old_replay boot))))"

text \<open>Listening and accepting one connection; \<open>None\<close> ends the node.\<close>

definition node_accept ::
  "string \<Rightarrow> string \<Rightarrow> string \<Rightarrow> string \<Rightarrow> NodeBoot \<Rightarrow> TcpConnection option \<times> effect list" where
  "node_accept component listen_error accept_error metrics boot =
     (case nb_listen boot of (socket_result, bind_result, listen_result) \<Rightarrow>
      case tcp_server_listen_on socket_result bind_result listen_result TcpServer0 of
        (False, es, _, _) \<Rightarrow> (None, es @ [Log Error component listen_error, WriteJsonl metrics])
      | (True, es, _, server) \<Rightarrow>
          (case tcp_server_accept_one (nb_accept boot) server of
             (None, fs) \<Rightarrow> (None, es @ fs @ [Log Error component accept_error, WriteJsonl metrics])
           | (Some conn, fs) \<Rightarrow> (Some conn, es @ fs)))"

text \<open>
  A run of a node: its exit code, \<open>None\<close> while it is still trying to connect or waiting for its venue;
  what it does; and its state, if it got as far.
\<close>

type_synonym 's node_run = "nat option \<times> effect list \<times> 's option"

section \<open>market_data_node\<close>

definition node_venue :: "(string \<Rightarrow> string option) \<Rightarrow> string list \<Rightarrow> string" where
  "node_venue getenv argv =
     (case getenv ''LLT_VENUE'' of
        Some env_venue \<Rightarrow> env_venue
      | None \<Rightarrow> if 2 \<le> length argv then argv ! 1 else ''coinbase'')"

text \<open>The callback of the node; the number of the call finds its clock readings and answers.\<close>

definition node_callback ::
  "(nat \<Rightarrow> NodeEnv) \<Rightarrow> NormalizedMarketData \<Rightarrow> nat \<times> MarketDataNode \<Rightarrow> effect list \<times> nat \<times> MarketDataNode"
where
  "node_callback envs md = (\<lambda>(i, st). let (es, st') = market_data_callback (envs i) md st in (es, Suc i, st'))"

definition node_connector ::
  "ws_network \<Rightarrow> string \<Rightarrow> 's MarketDataCallback \<Rightarrow> 's \<Rightarrow> (bool option \<times> effect list \<times> 's) option" where
  "node_connector net venue callback s =
     (if venue = ''binance'' then Some (run_binance_live_book_ticker net ''btcusdt'' 0 callback 1 s)
      else if venue = ''coinbase'' then Some (run_coinbase_live_ticker net ''BTC-USD'' 0 callback 1 s)
      else if venue = ''hyperliquid'' then Some (run_hyperliquid_live_l2book net ''BTC'' 0 callback 1 s)
      else None)"

definition market_data_node_main ::
  "ws_network \<Rightarrow> NodeBoot \<Rightarrow> string list \<Rightarrow> (nat \<Rightarrow> NodeEnv) \<Rightarrow> MarketDataNode node_run" where
  "market_data_node_main net boot argv envs =
     (let start = node_pin 0 ''md-node'' boot
            @ [Log Info ''market_data_node'' ''starting distributed market data node''];
          (strategy_conn, es1) = connect_retry
             (Log Warn ''market_data_node'' ''strategy unavailable; retrying'') (nb_attempts boot);
          finish = (\<lambda>code es st. let (fs, w) = replay_writer_close (mn_replay st)
             in (Some code, es @ [WriteJsonl ''metrics/market_data_node.jsonl''] @ fs,
                 Some (st\<lparr>mn_replay := w\<rparr>)))
      in case strategy_conn of
        None \<Rightarrow> (None, start @ es1, None)
      | Some conn \<Rightarrow>
          let es2 = start @ es1 @ node_open_replay NR_MarketData boot;
              st0 = market_data_node_new (tc_fd conn) (nb_replay_fd boot) (nb_old_replay boot)
          in case node_connector net (node_venue (nb_getenv boot) argv) (Some (node_callback envs)) (0, st0) of
            None \<Rightarrow> finish 1 (es2 @ [Log Error ''market_data_node'' ''unknown LLT_VENUE'']) st0
          | Some (None, es3, _, st) \<Rightarrow> (None, es2 @ es3, Some st)
          | Some (Some _, es3, _, st) \<Rightarrow> finish 0 (es2 @ es3) st)"

section \<open>strategy_node\<close>

definition strategy_node_main ::
  "NodeBoot \<Rightarrow> (nat \<Rightarrow> NodeEnv) \<Rightarrow> byte list \<Rightarrow> StrategyNode node_run" where
  "strategy_node_main boot envs stream =
     (let start = node_pin 1 ''strategy-node'' boot
            @ [Log Info ''strategy_node'' ''starting distributed strategy node on port 21001''];
          (oms_conn, es1) = connect_retry (Log Warn ''strategy_node'' ''OMS unavailable; retrying'') (nb_attempts boot)
      in case oms_conn of
        None \<Rightarrow> (None, start @ es1, None)
      | Some oms_conn \<Rightarrow>
          (case node_accept ''strategy_node'' ''failed to listen for market data''
                  ''failed to accept market data connection'' ''metrics/strategy_node.jsonl'' boot of
             (None, es2) \<Rightarrow> (Some 1, start @ es1 @ es2, None)
           | (Some md_conn, es2) \<Rightarrow>
               (let (es3, st) = strategy_node envs (tc_fd md_conn) stream
                      (strategy_node_new (tc_fd oms_conn) (nb_replay_fd boot) (nb_old_replay boot));
                    (es4, w) = replay_writer_close (sn_replay st)
                in (Some 0, start @ es1 @ es2 @ node_open_replay NR_Strategy boot @ es3
                      @ [WriteJsonl ''metrics/strategy_node.jsonl''] @ es4, Some (st\<lparr>sn_replay := w\<rparr>)))))"

section \<open>oms_node\<close>

definition oms_node_main ::
  "(byte list \<Rightarrow> 'g \<Rightarrow> byte list \<times> 'g) \<Rightarrow> 'g \<Rightarrow> NodeBoot \<Rightarrow> bool \<Rightarrow> byte list \<Rightarrow> (nat \<Rightarrow> NodeEnv) \<Rightarrow> byte list
   \<Rightarrow> 'g OmsNode node_run" where
  "oms_node_main peer peer0 boot can_open old_journal envs stream =
     (let start = node_pin 2 ''oms-node'' boot
            @ [Log Info ''oms_node'' ''starting distributed OMS node on port 21002''];
          (gateway_conn, es1) = connect_retry (Log Warn ''oms_node'' ''gateway unavailable; retrying'') (nb_attempts boot)
      in case gateway_conn of
        None \<Rightarrow> (None, start @ es1, None)
      | Some gateway_conn \<Rightarrow>
          (case node_accept ''oms_node'' ''failed to listen for strategy''
                  ''failed to accept strategy connection'' ''metrics/oms_node.jsonl'' boot of
             (None, es2) \<Rightarrow> (Some 1, start @ es1 @ es2, None)
           | (Some strategy_conn, es2) \<Rightarrow>
               (let es3 = fst (snd (journal_open can_open (journal_writer_new old_journal)));
                    (es4, st) = oms_node peer envs (tc_fd strategy_conn) stream
                      (oms_node_new (tc_fd gateway_conn) (nb_replay_fd boot) can_open (nb_old_replay boot)
                         old_journal peer0);
                    (es5, w) = replay_writer_close (on_replay st);
                    (es6, j) = journal_close (on_journal st)
                in (Some 0, start @ es1 @ es2 @ es3 @ node_open_replay NR_OMS boot @ es4
                      @ [WriteJsonl ''metrics/oms_node.jsonl''] @ es5 @ es6,
                    Some (st\<lparr>on_replay := w, on_journal := j\<rparr>)))))"

section \<open>gateway_node\<close>

definition getenv_or_default :: "(string \<Rightarrow> string option) \<Rightarrow> string \<Rightarrow> string \<Rightarrow> string" where
  "getenv_or_default getenv name fallback = (case getenv name of Some value \<Rightarrow> value | None \<Rightarrow> fallback)"

text \<open>
  The Kraken gateway object as the loop uses it: its state is that of the network and the number of
  the request, which finds the two clock readings.
\<close>

type_synonym 'n kraken_state = "'n \<times> nat"

definition node_kraken ::
  "openssl \<Rightarrow> 'n network \<Rightarrow> KrakenDemoCredentials \<Rightarrow> (nat \<Rightarrow> int \<times> int) \<Rightarrow> string \<Rightarrow> NewOrder
   \<Rightarrow> 'n kraken_state \<Rightarrow> (bool \<times> string) \<times> 'n kraken_state" where
  "node_kraken ssl net creds clock kraken_symbol ord = (\<lambda>(n, i).
     let (result, _, n') = send_internal_order_as_demo_limit ssl net creds (fst (clock i)) (snd (clock i)) ord
           kraken_symbol n
     in ((ko_kraken_success result, ko_raw_response result), (n', Suc i)))"

text \<open>Everything up to the loop: what the node calls for an order, and its first state.\<close>

definition gateway_node_setup ::
  "openssl \<Rightarrow> 'n network \<Rightarrow> (nat \<Rightarrow> int \<times> int) \<Rightarrow> 'n \<Rightarrow> NodeBoot
   \<Rightarrow> effect list \<times> ((NewOrder \<Rightarrow> 'n kraken_state \<Rightarrow> (bool \<times> string) \<times> 'n kraken_state)
        \<times> 'n kraken_state GatewayNode) option" where
  "gateway_node_setup ssl net clock n boot =
     (let start = node_pin 3 ''gateway-node'' boot;
          mode = getenv_or_default (nb_getenv boot) ''LLT_GATEWAY_MODE'' ''kraken'';
          kraken_symbol = getenv_or_default (nb_getenv boot) ''LLT_KRAKEN_SYMBOL'' ''PI_XBTUSD'';
          es0 = start @ [Log Info ''gateway_node'' ''starting distributed gateway node on port 21003''];
          failed = (\<lambda>es what. (es0 @ es @ [Log Error ''gateway_node'' what,
                       WriteJsonl ''metrics/gateway_node.jsonl''], None));
          run = (\<lambda>m kraken es. case node_accept ''gateway_node'' ''failed to listen''
                    ''failed to accept OMS connection'' ''metrics/gateway_node.jsonl'' boot of
                  (None, es2) \<Rightarrow> (es0 @ es @ es2, None)
                | (Some conn, es2) \<Rightarrow> (es0 @ es @ es2 @ node_open_replay NR_Gateway boot,
                    Some (kraken, gateway_node_new m (n, 0) (tc_fd conn) (nb_replay_fd boot) (nb_old_replay boot))))
      in if mode = ''kraken''
         then (case load_kraken_demo_credentials_from_env (nb_getenv boot) of
                 (None, es) \<Rightarrow> failed es ''LLT_GATEWAY_MODE=kraken but Kraken credentials are missing''
               | (Some creds, es) \<Rightarrow> run GM_Kraken (node_kraken ssl net creds clock kraken_symbol)
                   (es @ [Log Info ''gateway_node'' ''gateway running in Kraken Futures Demo mode'']))
         else if mode = ''sim''
         then run GM_Sim (\<lambda>ord k. ((False, []), k))
                [Log Warn ''gateway_node'' ''gateway running in explicit simulated mode'']
         else failed [] ''unknown LLT_GATEWAY_MODE'')"

definition gateway_node_main ::
  "openssl \<Rightarrow> 'n network \<Rightarrow> (nat \<Rightarrow> int \<times> int) \<Rightarrow> 'n \<Rightarrow> NodeBoot \<Rightarrow> (nat \<Rightarrow> NodeEnv) \<Rightarrow> byte list
   \<Rightarrow> 'n kraken_state GatewayNode node_run" where
  "gateway_node_main ssl net clock n boot envs stream =
     (case gateway_node_setup ssl net clock n boot of
        (es, None) \<Rightarrow> (Some 1, es, None)
      | (es, Some (kraken, st0)) \<Rightarrow>
          (let (fs, st) = gateway_node kraken envs stream st0; (gs, w) = replay_writer_close (gn_replay st)
           in (Some 0, es @ fs @ [WriteJsonl ''metrics/gateway_node.jsonl''] @ gs,
               Some (st\<lparr>gn_replay := w\<rparr>))))"

section \<open>When the programs start\<close>

definition reachable_address :: "(int \<times> int) list option \<Rightarrow> bool" where
  "reachable_address attempt =
     (case attempt of None \<Rightarrow> False | Some results \<Rightarrow> list_ex (\<lambda>(s, c). 0 \<le> s \<and> c = 0) results)"

definition accepts :: "NodeBoot \<Rightarrow> bool" where
  "accepts boot = (case nb_listen boot of (s, b, l) \<Rightarrow> 0 \<le> s \<and> 0 \<le> b \<and> 0 \<le> l \<and> 0 \<le> nb_accept boot)"

lemma connected_iff: "(\<exists>conn. fst (tcp_client_connect_to attempt) = Some conn) \<longleftrightarrow> reachable_address attempt"
proof (cases attempt)
  case None
  then show ?thesis by (simp add: tcp_client_connect_to_def reachable_address_def)
next
  case (Some results)
  have "(\<exists>x. find P results = Some x) \<longleftrightarrow> list_ex P results" for P
    using find_None_iff [of P results] by (auto simp: list_ex_iff)
  then have "(\<exists>s c. find P results = Some (s, c)) \<longleftrightarrow> list_ex P results" for P by auto
  with Some show ?thesis by (simp add: tcp_connect_first reachable_address_def split_beta)
qed

text \<open>Retrying ends exactly when some attempt finds an address that accepts.\<close>

lemma connect_retry_iff:
  "(\<exists>conn. fst (connect_retry failed attempts) = Some conn) \<longleftrightarrow> list_ex reachable_address attempts"
proof (induction attempts)
  case Nil
  then show ?case by simp
next
  case (Cons attempt attempts)
  with connected_iff [of attempt] show ?case
    by (cases "tcp_client_connect_to attempt"; cases "fst (tcp_client_connect_to attempt)")
       (auto simp: split_beta Let_def)
qed

lemma connect_valid: "fst (tcp_client_connect_to attempt) = Some conn \<Longrightarrow> 0 \<le> tc_fd conn"
  by (auto simp: tcp_client_connect_to_def tcp_connection_new_def split: option.splits prod.splits if_splits)

lemma connect_retry_valid: "fst (connect_retry failed attempts) = Some conn \<Longrightarrow> 0 \<le> tc_fd conn"
proof (induction attempts)
  case (Cons attempt attempts)
  then show ?case
    using connect_valid [of attempt]
    by (cases "tcp_client_connect_to attempt"; cases "fst (tcp_client_connect_to attempt)")
       (auto simp: split_beta Let_def)
qed simp

lemma node_accept_iff:
  "(\<exists>conn. fst (node_accept component le ae m boot) = Some conn) \<longleftrightarrow> accepts boot"
  by (auto simp: node_accept_def accepts_def tcp_server_listen_on_def tcp_server_accept_one_def
      tcp_server_close_def Let_def split: prod.splits)

lemma node_accept_valid: "fst (node_accept component le ae m boot) = Some conn \<Longrightarrow> 0 \<le> tc_fd conn"
  by (auto simp: node_accept_def tcp_server_listen_on_def tcp_server_accept_one_def tcp_connection_new_def
      tcp_server_close_def Let_def split: prod.splits if_splits)

text \<open>A node that got a state ran its loop over a valid connection and closed its logs.\<close>

lemma strategy_node_main_run:
  assumes "strategy_node_main boot envs stream = (code, es, Some st)"
  obtains oms_fd md_fd st' where "0 \<le> oms_fd" "0 \<le> md_fd" "code = Some 0"
    and "st' = snd (strategy_node envs md_fd stream
          (strategy_node_new oms_fd (nb_replay_fd boot) (nb_old_replay boot)))"
    and "st = st'\<lparr>sn_replay := snd (replay_writer_close (sn_replay st'))\<rparr>"
  using assms
  by (auto simp: strategy_node_main_def Let_def split_beta split: option.splits
      dest!: connect_retry_valid node_accept_valid)

lemma oms_node_main_run:
  assumes "oms_node_main peer peer0 boot can_open old envs stream = (code, es, Some st)"
  obtains gateway_fd strategy_fd st' where "0 \<le> gateway_fd" "0 \<le> strategy_fd" "code = Some 0"
    and "st' = snd (oms_node peer envs strategy_fd stream
          (oms_node_new gateway_fd (nb_replay_fd boot) can_open (nb_old_replay boot) old peer0))"
    and "st = st'\<lparr>on_replay := snd (replay_writer_close (on_replay st')),
          on_journal := snd (journal_close (on_journal st'))\<rparr>"
  using assms
  by (auto simp: oms_node_main_def Let_def split_beta split: option.splits
      dest!: connect_retry_valid node_accept_valid)

lemma gateway_node_setup_sim:
  assumes "gateway_node_setup ssl net clock n boot = (es, Some (kraken, gw))"
    and "nb_getenv boot ''LLT_GATEWAY_MODE'' = Some ''sim''"
  obtains fd where "0 \<le> fd"
    and "gw = gateway_node_new GM_Sim (n, 0) fd (nb_replay_fd boot) (nb_old_replay boot)"
  using assms
  by (auto simp: gateway_node_setup_def getenv_or_default_def Let_def split_beta split: option.splits
      dest!: node_accept_valid)

section \<open>The feed of the market data node\<close>

definition node_feed :: "string \<Rightarrow> (MarketDataVenue \<times> string \<times> SymbolId) option" where
  "node_feed venue =
     (if venue = ''binance'' then Some (Binance, ''btcusdt'', 1)
      else if venue = ''coinbase'' then Some (Coinbase, ''BTC-USD'', 1)
      else if venue = ''hyperliquid'' then Some (Hyperliquid, ''BTC'', 1) else None)"

lemma outcome_hand_on:
  "snd (connector_outcome service sent norm max_updates callback s) = hand_on callback
     (if service_ready service sent then wanted max_updates 0 (normalized_frames norm (ws_reads service sent))
      else []) s"
proof (cases "service_ready service sent")
  case True
  then have "\<not> list_ex (\<lambda>m. ws_write_exception service m \<noteq> None) sent"
    by (auto simp: service_ready_def list_ex_iff list_all_iff)
  with True show ?thesis
    by (simp add: connector_outcome_def service_ready_def Let_def)
qed (simp add: connector_outcome_unready hand_on_def)

lemma snd_outcome: "(case run of (r, es, s') \<Rightarrow> (r, s')) = outcome \<Longrightarrow> snd (snd run) = snd outcome"
  by (auto split: prod.splits)

lemma node_connector_hands_on:
  assumes "\<And>client sent. length (ws_reads (net client) sent) < 2 ^ 31"
    and "node_feed venue = Some feed"
  obtains r es where "node_connector net venue callback s
    = Some (r, es, hand_on callback (feed_quotes net 0 feed) s)"
proof -
  have norm: "feed_normalizer Binance sid = (\<lambda>t1 t2 raw. normalize_binance_book_ticker t1 t2 raw sid)"
    "feed_normalizer Coinbase sid = (\<lambda>t1 t2 raw. normalize_coinbase_ticker t1 t2 raw sid)"
    "feed_normalizer Hyperliquid sid = (\<lambda>t1 t2 raw. normalize_hyperliquid_l2book t1 t2 raw sid)" for sid
    by (intro ext, simp)+
  have runs: "snd (snd (run_binance_live_book_ticker net name 0 callback sid s))
      = hand_on callback (feed_quotes net 0 (Binance, name, sid)) s"
    "snd (snd (run_coinbase_live_ticker net name 0 callback sid s))
      = hand_on callback (feed_quotes net 0 (Coinbase, name, sid)) s"
    "snd (snd (run_hyperliquid_live_l2book net name 0 callback sid s))
      = hand_on callback (feed_quotes net 0 (Hyperliquid, name, sid)) s" for name sid
    using connector_runs [OF assms(1), THEN snd_outcome, unfolded outcome_hand_on]
    by (simp_all only: feed_quotes_def prod.case feed_service.simps norm)
  have "case node_connector net venue callback s of None \<Rightarrow> False
      | Some run \<Rightarrow> snd (snd run) = hand_on callback (feed_quotes net 0 feed) s"
    using assms(2) unfolding node_feed_def node_connector_def
    by (simp only: runs option.case option.inject split: if_splits) simp_all
  then obtain run where "node_connector net venue callback s = Some run"
    "snd (snd run) = hand_on callback (feed_quotes net 0 feed) s"
    by (cases "node_connector net venue callback s") (simp_all only: option.case)
  then show thesis using that by (metis prod.collapse)
qed

lemma feed_quotes_messages:
  "list_all (\<lambda>md. is_message (market_data_env (nmd_update md))) (feed_quotes net max_updates feed)"
proof -
  obtain v name sid where feed: "feed = (v, name, sid)" by (metis prod_cases3)
  have "\<exists>reads. md \<in> set (normalized_frames (feed_normalizer v sid) reads)"
    if "md \<in> set (feed_quotes net max_updates feed)" for md
    using that by (auto simp: feed feed_quotes_def wanted_def split: if_splits prod.splits dest: in_set_takeD)
  then show ?thesis
    using feed_normalizer_message
    by (fastforce simp: list_all_iff normalized_frames_def List.map_filter_def)
qed

lemma hand_on_node:
  "hand_on (Some (node_callback envs)) mds (i, st) = (i + length mds, snd (market_data_node envs i mds st))"
proof (induction mds arbitrary: i st)
  case (Cons md mds)
  then show ?case by (simp add: hand_on_def emit_md_def node_callback_def split_beta Let_def)
qed (simp add: hand_on_def)

lemma market_data_node_main_run:
  assumes "\<And>client sent. length (ws_reads (net client) sent) < 2 ^ 31"
    and "node_feed (node_venue (nb_getenv boot) argv) = Some feed"
    and "market_data_node_main net boot argv envs = (code, es, Some st)"
  obtains fd st' where "0 \<le> fd" "mn_wire st = mn_wire st'" "rw_file (mn_replay st) = rw_file (mn_replay st')"
    and "st' = snd (market_data_node envs 0 (feed_quotes net 0 feed)
          (market_data_node_new fd (nb_replay_fd boot) (nb_old_replay boot)))"
proof -
  obtain conn where conn: "fst (connect_retry (Log Warn ''market_data_node'' ''strategy unavailable; retrying'')
      (nb_attempts boot)) = Some conn"
    using assms(3) by (auto simp: market_data_node_main_def Let_def split_beta split: option.splits)
  obtain r es' where run: "node_connector net (node_venue (nb_getenv boot) argv) (Some (node_callback envs))
      (0, market_data_node_new (tc_fd conn) (nb_replay_fd boot) (nb_old_replay boot))
    = Some (r, es', hand_on (Some (node_callback envs)) (feed_quotes net 0 feed)
        (0, market_data_node_new (tc_fd conn) (nb_replay_fd boot) (nb_old_replay boot)))"
    by (rule node_connector_hands_on [OF assms(1,2)])
  let ?st' = "snd (market_data_node envs 0 (feed_quotes net 0 feed)
          (market_data_node_new (tc_fd conn) (nb_replay_fd boot) (nb_old_replay boot)))"
  have "st = ?st' \<or> st = ?st'\<lparr>mn_replay := snd (replay_writer_close (mn_replay ?st'))\<rparr>"
    using assms(3) conn
    by (simp add: market_data_node_main_def Let_def split_beta run hand_on_node split: option.splits)
  then show thesis
    using that [OF connect_retry_valid [OF conn], of ?st'] by (auto simp: replay_writer_close_def)
qed

section \<open>The four programs together\<close>


definition sample_boot :: NodeBoot where
  "sample_boot = \<lparr>nb_setname = (\<lambda>_. 0), nb_setaffinity = (\<lambda>_. 0),
     nb_getenv = (\<lambda>name. if name = ''LLT_GATEWAY_MODE'' then Some ''sim'' else None),
     nb_attempts = [None, Some [(3, 111), (4, 0)]], nb_listen = (5, 0, 0), nb_accept = 6, nb_replay_fd = 7,
     nb_old_replay = []\<rparr>"

lemma sample_boot_connects: "\<exists>es. connect_retry failed (nb_attempts sample_boot) = (Some \<lparr>tc_fd = 4\<rparr>, es)"
  by (simp add: sample_boot_def tcp_client_connect_to_def tcp_connection_new_def)

lemma sample_boot_accepts: "\<exists>es. node_accept c le ae m sample_boot = (Some \<lparr>tc_fd = 6\<rparr>, es)"
  by (simp add: sample_boot_def node_accept_def tcp_server_listen_on_def tcp_server_accept_one_def
      tcp_connection_new_def)

lemma sample_programs_start:
  "\<exists>c es st. market_data_node_main sample_feed sample_boot [''md'', ''binance''] env = (c, es, Some st)"
  "\<exists>c es st. strategy_node_main sample_boot env stream = (c, es, Some st)"
  "\<exists>c es st. oms_node_main peer peer0 sample_boot True [] env stream = (c, es, Some st)"
  "\<exists>es kraken gw. gateway_node_setup ssl net clock n sample_boot = (es, Some (kraken, gw))"
proof -
  have bound: "length (ws_reads (sample_feed client) sent) < 2 ^ 31" for client sent
    by (simp add: sample_feed_def)
  have venue: "node_venue (nb_getenv sample_boot) [''md'', ''binance''] = ''binance''"
    by (simp add: node_venue_def sample_boot_def)
  obtain es1 where conn: "connect_retry (Log Warn ''market_data_node'' ''strategy unavailable; retrying'')
      (nb_attempts sample_boot) = (Some \<lparr>tc_fd = 4\<rparr>, es1)"
    using sample_boot_connects by blast
  have binance: "node_feed ''binance'' = Some (Binance, ''btcusdt'', 1)" by (simp add: node_feed_def)
  obtain r es' where "node_connector sample_feed ''binance'' (Some (node_callback env))
      (0, market_data_node_new 4 (nb_replay_fd sample_boot) (nb_old_replay sample_boot))
    = Some (r, es', hand_on (Some (node_callback env)) (feed_quotes sample_feed 0 (Binance, ''btcusdt'', 1))
        (0, market_data_node_new 4 (nb_replay_fd sample_boot) (nb_old_replay sample_boot)))"
    by (rule node_connector_hands_on [OF bound binance])
  then show "\<exists>c es st. market_data_node_main sample_feed sample_boot [''md'', ''binance''] env = (c, es, Some st)"
    by (cases r) (simp_all add: market_data_node_main_def venue conn split_beta Let_def)
  show "\<exists>c es st. strategy_node_main sample_boot env stream = (c, es, Some st)"
    using sample_boot_connects [of "Log Warn ''strategy_node'' ''OMS unavailable; retrying''"]
      sample_boot_accepts [of "''strategy_node''" "''failed to listen for market data''"
        "''failed to accept market data connection''" "''metrics/strategy_node.jsonl''"]
    by (auto simp: strategy_node_main_def split_beta Let_def)
  show "\<exists>c es st. oms_node_main peer peer0 sample_boot True [] env stream = (c, es, Some st)"
    using sample_boot_connects [of "Log Warn ''oms_node'' ''gateway unavailable; retrying''"]
      sample_boot_accepts [of "''oms_node''" "''failed to listen for strategy''"
        "''failed to accept strategy connection''" "''metrics/oms_node.jsonl''"]
    by (auto simp: oms_node_main_def split_beta Let_def)
  have "getenv_or_default (nb_getenv sample_boot) ''LLT_GATEWAY_MODE'' ''kraken'' = ''sim''"
    by (simp add: getenv_or_default_def sample_boot_def)
  then show "\<exists>es kraken gw. gateway_node_setup ssl net clock n sample_boot = (es, Some (kraken, gw))"
    using sample_boot_accepts [of "''gateway_node''" "''failed to listen''"
        "''failed to accept OMS connection''" "''metrics/gateway_node.jsonl''"]
    by (auto simp: gateway_node_setup_def split_beta Let_def)
qed

lemma sample_node_orders:
  "accepted_orders oms_node_limits (map quote_key (filter wide_quote (quotes_held
     (map nmd_update (feed_quotes sample_feed 0 (Binance, ''btcusdt'', 1))))))
   = [(1, 1, 10151), (2, 1, 10126), (3, 1, 10101)]"
proof -
  have prices: "parse_price_to_ticks ''101.50'' 100 = 10150" "parse_price_to_ticks ''101.75'' 100 = 10175"
    "parse_price_to_ticks ''101.25'' 100 = 10125" "parse_price_to_ticks ''101.00'' 100 = 10100"
    by code_simp+
  let ?u = "\<lambda>t1 t2 bid seq. make_update t1 t2 Binance 1 ''BTCUSDT'' bid (parse_quantity_to_units ''2'') 10175
      (parse_quantity_to_units ''1'') seq"
  have "map nmd_update (feed_quotes sample_feed 0 (Binance, ''btcusdt'', 1))
      = [?u 3 4 10150 7, ?u 5 6 10125 8, ?u 7 8 10100 9]"
    by (simp add: feed_quotes_def sample_feed_def service_ready_def wanted_def sample_junk sample_ticker
        sample_texts prices)
  then have held: "map quote_key (filter wide_quote (quotes_held
      (map nmd_update (feed_quotes sample_feed 0 (Binance, ''btcusdt'', 1))))) = [(1, 10151), (1, 10126), (1, 10101)]"
    by (simp add: quotes_held_def upt_rec tob_run_def tob_apply_def TopOfBook0_def wide_quote_def quote_key_def
        make_update_def)
  show ?thesis unfolding held by (simp add: accepted_orders_def oms_node_limits_def upt_rec)
qed


end
