(* ===== verification/Node_Failures.thy ===== *)
theory Node_Failures
  imports Session_Replay
begin

text \<open>
  The order manager process when its peers and the network fail: whatever the strategy side sends,
  whatever the gateway side does with what it gets, and however sends and receives fail, as long as
  the journal's device works.
\<close>

section \<open>What is received is a message\<close>

lemma payload_of_bytes_message:
  assumes "payload_size_for_type t \<noteq> 0" and "length bs = payload_size_for_type t"
  shows "is_message \<lparr>env_type = t, env_payload = payload_of_bytes t bs\<rparr>"
  using assms
  by (cases t) (simp_all add: is_message_def well_tagged_def market_data_of_bytes_def signal_of_bytes_def
      new_order_of_bytes_def ack_of_bytes_def reject_of_bytes_def fill_of_bytes_def heartbeat_of_bytes_def
      risk_state_of_bytes_def header_of_bytes_def field_def SYMBOL_LEN_def)

lemma tcp_next_message: "tcp_next stream = Some (e, rest) \<Longrightarrow> is_message e"
  by (auto simp: tcp_next_def Let_def split: if_splits intro!: payload_of_bytes_message)

lemma tcp_recv_message: "0 \<le> fd \<Longrightarrow> tcp_recv_envelope os fd stream = (Some e, es, rest, os') \<Longrightarrow> is_message e"
  using tcp_recv_eq_next [of fd stream os] by (auto intro: tcp_next_message)

lemma tcp_recv_all_messages: "list_all is_message (tcp_recv_all os stream)"
proof (induction "length stream" arbitrary: stream os rule: less_induct)
  case less
  then show ?case
    by (subst tcp_recv_all_next) (auto split: option.split dest: tcp_next_message tcp_next_shrinks)
qed

section \<open>A served list that may stop\<close>

lemma serve_list_stop:
  assumes "\<And>k e st. ok e \<Longrightarrow> I st \<Longrightarrow>
      (if fst (body (envs k) e st) then I (snd (snd (body (envs k) e st))) else J (snd (snd (body (envs k) e st))))"
    and "\<And>st. I st \<Longrightarrow> J st" and "list_all ok es" and "I st"
  shows "J (serve_list body envs i es st)"
  using assms(3,4)
proof (induction es arbitrary: st i)
  case Nil
  then show ?case by (simp add: assms(2))
next
  case (Cons e es)
  from assms(1) [of e st i] Cons show ?case
    by (cases "body (envs i) e st") (auto split: if_splits bool.split)
qed

section \<open>Write-ahead\<close>

definition journal_works :: "NodeEnv \<Rightarrow> bool" where
  "journal_works env \<longleftrightarrow> (\<forall>k<2. nd_fault env k = None)"

text \<open>What an order and the message received after it put into the journal.\<close>

definition exchange_records :: "NewOrder \<times> Envelope \<Rightarrow> (JournalRecordType \<times> Envelope) list" where
  "exchange_records = (\<lambda>(ord, response). (JR_OrderIntent, new_order_env ord)
     # (if env_type response = MT_Ack then [(JR_GatewayAck, response)]
        else if env_type response = MT_Reject then [(JR_GatewayReject, response)] else []))"

text \<open>
  \<open>doubt\<close> has the order, at most one, whose answer the process did not get; \<open>sent\<close> is whether its frame
  went out whole.
\<close>

definition exchanged :: "(NewOrder \<times> Envelope) list \<Rightarrow> 'g OmsNode \<Rightarrow> bool" where
  "exchanged xs st \<longleftrightarrow> journal_holds (concat (map exchange_records xs)) (on_journal st)
     \<and> wire_holds (map (\<lambda>x. new_order_env (fst x)) xs) (on_wire st) \<and> 0 \<le> on_fd st"

definition ended_exchange :: "'g OmsNode \<Rightarrow> bool" where
  "ended_exchange st \<longleftrightarrow> (\<exists>xs doubt sent.
     journal_holds (concat (map exchange_records xs) @ map (\<lambda>ord. (JR_OrderIntent, new_order_env ord)) doubt)
       (on_journal st)
     \<and> tcp_recv_all [] (on_wire st)
       = map new_order_env (map fst xs @ (if sent then doubt else []))
     \<and> length doubt \<le> 1 \<and> ord_client_order_id ` set doubt \<subseteq> om_live_orders (on_oms st))"

lemma exchanged_ended: "exchanged xs st \<Longrightarrow> ended_exchange st"
  unfolding exchanged_def ended_exchange_def
  by (intro exI [of _ xs] exI [of _ "[]"] exI [of _ False]) (simp add: wire_holds_read o_def)

lemma wire_holds_torn:
  assumes "wire_holds es bs" and "is_message e" and "tcp_frame (pad, e, seq) = p @ s" and "s \<noteq> []"
  shows "tcp_recv_all [] (bs @ p) = es"
proof -
  obtain ms where ms: "bs = wire.image ms" "list_all tcp_sendable ms" "map tcp_view ms = es"
    using assms(1) by (auto simp: wire_holds_def)
  with wire.read_stops_at [OF ms(2) tcp_next_torn_frame [OF assms(2-4)]] show ?thesis by simp
qed

lemma wire_holds_frame:
  "wire_holds es bs \<Longrightarrow> is_message e \<Longrightarrow> wire_holds (es @ [e]) (bs @ tcp_frame (pad, e, seq))"
proof -
  assume "wire_holds es bs" "is_message e"
  then obtain ms where "bs = wire.image ms" "list_all tcp_sendable ms" "map tcp_view ms = es"
    by (auto simp: wire_holds_def)
  with \<open>is_message e\<close> show ?thesis
    unfolding wire_holds_def
    by (intro exI [of _ "ms @ [(pad, e, seq)]"]) (simp add: tcp_sendable_def tcp_view_def)
qed

lemma oms_node_record_only: "\<exists>fs seq w. oms_node_record env k c e st = (fs, st\<lparr>on_replay_seq := seq, on_replay := w\<rparr>)"
  by (simp add: oms_node_record_def split_beta Let_def) blast

text \<open>The answer of the gateway side, whatever message it is.\<close>

lemma oms_node_answer_records:
  assumes "journal_works env" and "is_message response" and "0 \<le> on_fd st"
    and "journal_holds (concat (map exchange_records xs) @ [(JR_OrderIntent, new_order_env ord)]) (on_journal st)"
    and "wire_holds (map (\<lambda>x. new_order_env (fst x)) xs @ [new_order_env ord]) (on_wire st)"
  shows "exchanged (xs @ [(ord, response)]) (snd (oms_node_answer env response st))"
proof -
  obtain fs seq w where rec: "oms_node_record env 1 5 response st = (fs, st\<lparr>on_replay_seq := seq, on_replay := w\<rparr>)"
    using oms_node_record_only by blast
  have fault: "nd_fault env 1 = None" using assms(1) by (simp add: journal_works_def)
  let ?st = "st\<lparr>on_replay_seq := seq, on_replay := w, on_oms := oms_absorb response (on_oms st)\<rparr>"
  have journaled: "\<exists>es seq' w'. oms_node_journal env 1 6 rt response ?st
      = (es, ?st\<lparr>on_journal_seq := seq', on_journal := w'\<rparr>)
    \<and> journal_holds ((concat (map exchange_records xs) @ [(JR_OrderIntent, new_order_env ord)]) @ [(rt, response)]) w'"
    if "canonical_journal_type rt" for rt
  proof (rule oms_node_journal_holds [OF _ assms(2) that fault])
    show "journal_holds (concat (map exchange_records xs) @ [(JR_OrderIntent, new_order_env ord)]) (on_journal ?st)"
      using assms(4) by simp
  qed
  have records: "concat (map exchange_records (xs @ [(ord, response)]))
      = (concat (map exchange_records xs) @ [(JR_OrderIntent, new_order_env ord)])
        @ (if env_type response = MT_Ack then [(JR_GatewayAck, response)]
           else if env_type response = MT_Reject then [(JR_GatewayReject, response)] else [])"
    by (simp add: exchange_records_def)
  have wire: "wire_holds (map (\<lambda>x. new_order_env (fst x)) (xs @ [(ord, response)])) (on_wire st)"
    using assms(5) by simp
  consider (ack) "env_type response = MT_Ack" | (reject) "env_type response = MT_Reject"
    | (other) "env_type response \<noteq> MT_Ack" "env_type response \<noteq> MT_Reject" by blast
  then show ?thesis
  proof cases
    case ack
    obtain es seq' w' where j: "oms_node_journal env 1 6 JR_GatewayAck response ?st
        = (es, ?st\<lparr>on_journal_seq := seq', on_journal := w'\<rparr>)"
      "journal_holds (concat (map exchange_records (xs @ [(ord, response)]))) w'"
      using journaled [of JR_GatewayAck] ack unfolding records by auto
    have "snd (oms_node_answer env response st) = ?st\<lparr>on_journal_seq := seq', on_journal := w'\<rparr>"
      using ack j(1) by (simp add: oms_node_answer_def rec [unfolded One_nat_def])
    with j(2) wire assms(3) show ?thesis unfolding exchanged_def by simp
  next
    case reject
    obtain es seq' w' where j: "oms_node_journal env 1 6 JR_GatewayReject response ?st
        = (es, ?st\<lparr>on_journal_seq := seq', on_journal := w'\<rparr>)"
      "journal_holds (concat (map exchange_records (xs @ [(ord, response)]))) w'"
      using journaled [of JR_GatewayReject] reject unfolding records by auto
    have "snd (oms_node_answer env response st) = ?st\<lparr>on_journal_seq := seq', on_journal := w'\<rparr>"
      using reject j(1) by (simp add: oms_node_answer_def rec [unfolded One_nat_def])
    with j(2) wire assms(3) show ?thesis unfolding exchanged_def by simp
  next
    case other
    then have "on_journal (snd (oms_node_answer env response st)) = on_journal st
        \<and> on_wire (snd (oms_node_answer env response st)) = on_wire st
        \<and> on_fd (snd (oms_node_answer env response st)) = on_fd st"
      by (simp add: oms_node_answer_def rec [unfolded One_nat_def])
    moreover have "journal_holds (concat (map exchange_records (xs @ [(ord, response)]))) (on_journal st)"
      using assms(4) other unfolding records by simp
    ultimately show ?thesis using wire assms(3) unfolding exchanged_def by simp
  qed
qed

lemma oms_node_body_failures:
  assumes "journal_works env" and "is_message e" and "exchanged xs st"
    and body: "oms_node_body peer env e st = (cont, fs, st')"
  shows "if cont then \<exists>xs'. exchanged xs' st' else ended_exchange st'"
proof (cases "env_type e = MT_Signal \<and> (\<exists>s. env_payload e = P_Signal s)")
  case False
  then have "(if env_type e \<noteq> MT_Signal then None else payload_signal (env_payload e)) = None"
    by (cases "env_payload e") auto
  with body have "cont \<and> st' = st"
    by (simp only: oms_node_body_def option.case prod.inject)
  with assms(3) show ?thesis by auto
next
  case True
  then obtain s where s: "env_type e = MT_Signal" "env_payload e = P_Signal s" by blast
  show ?thesis
  proof (cases rule: oms_on_signal_cases [of "on_oms st" "nd_now env 0" s "nd_now env 1"])
    case (rejected r)
    with body s have "cont \<and> st' = st\<lparr>on_oms := snd (oms_on_signal (nd_now env 0) (nd_now env 1) s (on_oms st))\<rparr>"
      by (simp add: oms_node_body_def Let_def)
    with assms(3) show ?thesis by (auto simp: exchanged_def)
  next
    case (accepted ord)
    let ?oe = "new_order_env ord" and ?om = "snd (oms_on_signal (nd_now env 0) (nd_now env 1) s (on_oms st))"
    have msg: "is_message ?oe"
      using assms(2) s by (simp add: is_message_def accepted(2) oms_make_order_def NewOrder0_def MessageHeader0_def)
    have live: "ord_client_order_id ord \<in> om_live_orders ?om"
      unfolding accepted(3) by (simp add: accepted(2) oms_make_order_def)
    have fault: "nd_fault env 0 = None" using assms(1) by (simp add: journal_works_def)
    let ?st1 = "st\<lparr>on_oms := ?om\<rparr>"
    obtain es1 seq1 w1 where j1: "oms_node_journal env 0 2 JR_OrderIntent ?oe ?st1
        = (es1, ?st1\<lparr>on_journal_seq := seq1, on_journal := w1\<rparr>)"
      "journal_holds (concat (map exchange_records xs) @ [(JR_OrderIntent, ?oe)]) w1"
      using oms_node_journal_holds [OF _ msg _ fault, of "concat (map exchange_records xs)" ?st1 JR_OrderIntent 2]
        assms(3) by (force simp: exchanged_def)
    let ?st2 = "?st1\<lparr>on_journal_seq := seq1, on_journal := w1\<rparr>"
    obtain es2 seq2 v1 where r1: "oms_node_record env 0 3 ?oe ?st2
        = (es2, ?st2\<lparr>on_replay_seq := seq2, on_replay := v1\<rparr>)"
      using oms_node_record_only by blast
    obtain ok out es3 os where send: "tcp_send_envelope (nd_send_answers env) (nd_pad env 0) ?oe
        (on_gateway_seq st + 1) (on_fd st) = (ok, out, es3, os)" by (metis prod_cases4)
    have fd: "0 \<le> on_fd st" and wire: "wire_holds (map (\<lambda>x. new_order_env (fst x)) xs) (on_wire st)"
      using assms(3) by (simp_all add: exchanged_def)
    let ?frame = "tcp_frame (nd_pad env 0, ?oe, on_gateway_seq st + 1)"
    note frame = tcp_send_envelope_frame [OF msg fd send]
    let ?st4 = "?st2\<lparr>on_replay_seq := seq2, on_replay := v1, on_gateway_seq := on_gateway_seq st + 1,
      on_wire := on_wire st @ out\<rparr>"
    have doubtful: "ended_exchange st''"
      if "on_journal st'' = w1" "tcp_recv_all [] (on_wire st'') = map new_order_env (map fst xs @ (if sent then [ord] else []))"
        "on_oms st'' = ?om" for st'' :: "'a OmsNode" and sent
      unfolding ended_exchange_def using that j1(2) live
      by (intro exI [of _ xs] exI [of _ "[ord]"] exI [of _ sent]) simp
    show ?thesis
    proof (cases ok)
      case False
      then obtain t where t: "?frame = out @ t" "t \<noteq> []" using frame by (metis append_Nil2)
      have "\<not> cont \<and> st' = ?st4"
        using body s accepted(3) j1(1) r1 send False by (simp add: oms_node_body_def Let_def)
      moreover have "tcp_recv_all [] (on_wire ?st4) = map new_order_env (map fst xs @ (if False then [ord] else []))"
        using wire_holds_torn [OF wire msg t] by (simp add: o_def)
      ultimately show ?thesis using doubtful [of ?st4 False] by simp
    next
      case True
      then have out: "out = ?frame" using frame by simp
      have wire': "wire_holds (map (\<lambda>x. new_order_env (fst x)) xs @ [?oe]) (on_wire st @ out)"
        unfolding out by (rule wire_holds_frame [OF wire msg])
      obtain reply peer' where peer: "peer out (on_peer st) = (reply, peer')" by (cases "peer out (on_peer st)")
      obtain answer es5 rest os' where recv: "tcp_recv_envelope (nd_reply_answers env) (on_fd st) (on_inbox st @ reply)
          = (answer, es5, rest, os')" by (metis prod_cases4)
      let ?st5 = "?st4\<lparr>on_peer := peer', on_inbox := rest\<rparr>"
      show ?thesis
      proof (cases answer)
        case None
        have "\<not> cont \<and> st' = ?st5"
          using body s accepted(3) j1(1) r1 send True peer recv None by (simp add: oms_node_body_def Let_def)
        moreover have "tcp_recv_all [] (on_wire ?st5) = map new_order_env (map fst xs @ (if True then [ord] else []))"
          using wire_holds_read [OF wire'] by (simp add: o_def)
        ultimately show ?thesis using doubtful [of ?st5 True] by simp
      next
        case (Some response)
        have "cont \<and> st' = snd (oms_node_answer env response ?st5)"
          using body s accepted(3) j1(1) r1 send True peer recv Some
          by (auto simp: oms_node_body_def Let_def split_beta)
        moreover have "is_message response" using tcp_recv_message [OF fd] recv Some by blast
        ultimately show ?thesis
          using oms_node_answer_records [OF assms(1), of response ?st5 xs ord] fd j1(2) wire' by auto
      qed
    qed
  qed
qed


text \<open>A gateway side that never answers, and sends of which the second call fails.\<close>

definition failing_node_env :: NodeEnv where
  "failing_node_env = sample_node_env\<lparr>nd_send_answers := [5, 0]\<rparr>"


end
